(* ===== verification/Prelude.thy ===== *)
theory Prelude
  imports Main "HOL-Library.Word"
begin

text \<open>
  Shared vocabulary of the development: the fixed-width integer types of the C code, the
  result codes of the pitcher library (\<open>pitcher_def.h\<close>), its alignment macros, and the
  generic facts on lists, options and words that the component theories use.

  Conventions. A C function that can trip an \<open>assert\<close> or touch memory outside the object
  it was given returns \<open>None\<close> at that point. Pointers are \<open>'a option\<close> where the code tests
  them against \<open>NULL\<close>. Integer results keep the C values, with \<open>err c\<close> for a returned
  \<open>-c\<close>.
\<close>

unbundle bit_operations_syntax

named_theorems pitcher_simps \<open>rewrite rules of the pitcher components\<close>
named_theorems driver_simps \<open>rewrite rules of the kernel test drivers\<close>

type_synonym u8 = "8 word"
type_synonym u16 = "16 word"
type_synonym u32 = "32 word"
type_synonym u64 = "64 word"


section \<open>Result codes\<close>

text \<open>The anonymous enum of \<open>pitcher_def.h\<close>; \<open>ret_val\<close> gives the C values.\<close>

datatype ret_code =
    RET_OK
  | RET_E_NULL_POINTER
  | RET_E_INVAL
  | RET_E_MMAP
  | RET_E_OPEN
  | RET_E_NO_MEMORY
  | RET_E_EMPTY
  | RET_E_FULL
  | RET_E_NOSYS
  | RET_E_NOT_READY
  | RET_E_NOT_MATCH
  | RET_E_NOT_FOUND
  | RET_E_NOT_SUPPORT

fun ret_val :: "ret_code \<Rightarrow> int" where
  "ret_val RET_OK = 0"
| "ret_val RET_E_NULL_POINTER = 10"
| "ret_val RET_E_INVAL = 11"
| "ret_val RET_E_MMAP = 12"
| "ret_val RET_E_OPEN = 13"
| "ret_val RET_E_NO_MEMORY = 14"
| "ret_val RET_E_EMPTY = 15"
| "ret_val RET_E_FULL = 16"
| "ret_val RET_E_NOSYS = 17"
| "ret_val RET_E_NOT_READY = 18"
| "ret_val RET_E_NOT_MATCH = 19"
| "ret_val RET_E_NOT_FOUND = 20"
| "ret_val RET_E_NOT_SUPPORT = 21"

abbreviation err :: "ret_code \<Rightarrow> int" where
  "err c \<equiv> - ret_val c"

lemma ret_val_nonneg [simp]: "0 \<le> ret_val c"
  by (cases c) simp_all

lemma err_neg_iff [simp]: "err c < 0 \<longleftrightarrow> c \<noteq> RET_OK"
  by (cases c) simp_all


section \<open>Alignment macros\<close>

text \<open>
  \<open>ALIGN\<close> computes the remainder first and adds the missing part, in the type of its first
  argument; \<open>DIV_ROUND_UP\<close> is the usual rounding division. Both at 32 bits, the width of
  their uses in \<open>pixfmt.c\<close>.
\<close>

definition ALIGN :: "u32 \<Rightarrow> u32 \<Rightarrow> u32" where
  "ALIGN x a = (let r = x mod a in if r \<noteq> 0 then x + a - r else x)"

definition DIV_ROUND_UP :: "u32 \<Rightarrow> u32 \<Rightarrow> u32" where
  "DIV_ROUND_UP n d = (n + d - 1) div d"


section \<open>Lists and options\<close>

definition nth_opt :: "'a list \<Rightarrow> nat \<Rightarrow> 'a option" where
  "nth_opt xs i = (if i < length xs then Some (xs ! i) else None)"

lemma nth_opt_Some [simp]: "i < length xs \<Longrightarrow> nth_opt xs i = Some (xs ! i)"
  by (simp add: nth_opt_def)

lemma nth_opt_None [simp]: "length xs \<le> i \<Longrightarrow> nth_opt xs i = None"
  by (simp add: nth_opt_def)

lemma nth_opt_eq_Some: "nth_opt xs i = Some x \<longleftrightarrow> i < length xs \<and> xs ! i = x"
  by (auto simp: nth_opt_def)

lemma nth_concat_map_const:
  assumes "\<And>x. x \<in> set xs \<Longrightarrow> length (f x) = w" and "0 < w" and "j < w * length xs"
  shows "concat (map f xs) ! j = f (xs ! (j div w)) ! (j mod w)"
  using assms
proof (induction xs arbitrary: j)
  case Nil
  then show ?case by simp
next
  case (Cons x xs)
  show ?case
  proof (cases "j < w")
    case True
    then show ?thesis using Cons.prems by (simp add: nth_append)
  next
    case False
    then have "j - w < w * length xs" using Cons.prems by simp
    then have "concat (map f xs) ! (j - w) = f (xs ! ((j - w) div w)) ! ((j - w) mod w)"
      using Cons.IH Cons.prems by simp
    moreover from False \<open>0 < w\<close> have "j div w = Suc ((j - w) div w)" "j mod w = (j - w) mod w"
      by (simp_all add: le_div_geq le_mod_geq)
    ultimately show ?thesis using False Cons.prems by (simp add: nth_append)
  qed
qed

lemma length_concat_map_const:
  "(\<And>x. x \<in> set xs \<Longrightarrow> length (f x) = w) \<Longrightarrow> length (concat (map f xs)) = w * length xs"
  by (induction xs) auto

lemma drop_concat_map_const:
  assumes "\<And>x. x \<in> set xs \<Longrightarrow> length (f x) = w"
  shows "drop (w * k) (concat (map f xs)) = concat (map f (drop k xs))"
  using assms
proof (induction xs arbitrary: k)
  case Nil
  then show ?case by simp
next
  case (Cons x xs)
  then show ?case by (cases k) simp_all
qed

lemma drop_Cons_nth: "i < length xs \<Longrightarrow> drop i xs = xs ! i # drop (Suc i) xs"
  by (rule Cons_nth_drop_Suc [symmetric])


section \<open>Words\<close>

lemma unat_le_iff_u32: "(a :: u32) \<le> b \<longleftrightarrow> unat a \<le> unat b"
  by (rule word_le_nat_alt)

lemma unat_less_iff_u32: "(a :: u32) < b \<longleftrightarrow> unat a < unat b"
  by (rule word_less_nat_alt)

lemma unat_plus_no_ovf:
  "unat (a :: 'a::len word) + unat b < 2 ^ LENGTH('a) \<Longrightarrow> unat (a + b) = unat a + unat b"
  by (simp add: unat_word_ariths)

lemma unat_minus_le: "(b :: 'a::len word) \<le> a \<Longrightarrow> unat (a - b) = unat a - unat b"
  by (rule unat_sub)

lemma word_eqI_unat: "unat (a :: 'a::len word) = unat b \<Longrightarrow> a = b"
  by (simp add: word_unat_eq_iff)

end
