(* ===== verification/Bitstream.thy ===== *)
theory Bitstream
  imports Prelude
begin

text \<open>
  The bit reader of \<open>pitcher/bitstream.c\<close>: removal of the emulation prevention bytes of
  a NAL unit, the cached big-endian bit reader \<open>bs_read\<close> and the fixed-length, Exp-Golomb
  and signed codes on top of it. The reader keeps up to seven bits of the last byte in
  \<open>held_bits\<close>; its contract, \<open>bs_read_spec\<close>, is stated on the list of the bits that are left.
  \<open>g_cur_bs\<close>, the reader the \<open>READ_*\<close> macros use, is the reader argument here.
\<close>

section \<open>The reader\<close>

record bitstream_buf =
  buf :: "u8 list"
  byte_alloc :: u32
  buf_rdptr :: u32
  num_held_bits :: u32
  held_bits :: u8
  num_bits_read :: u32

definition bs_init :: "u8 list \<Rightarrow> u32 \<Rightarrow> bitstream_buf" where
  "bs_init data sz =
     \<lparr>buf = data, byte_alloc = sz, buf_rdptr = 0, num_held_bits = 0, held_bits = 0,
      num_bits_read = 0\<rparr>"

text \<open>
  The fall-through \<open>switch\<close>: case \<open>k\<close> loads one byte, shifted left by \<open>8 * k\<close>, and goes on
  with case \<open>k - 1\<close>.
\<close>

fun bs_load :: "nat \<Rightarrow> bitstream_buf \<Rightarrow> u32 \<Rightarrow> (u32 \<times> bitstream_buf) option" where
  "bs_load 0 pbs w =
     (case nth_opt (buf pbs) (unat (buf_rdptr pbs)) of
        None \<Rightarrow> None
      | Some b \<Rightarrow> Some (w OR ucast b, pbs\<lparr>buf_rdptr := buf_rdptr pbs + 1\<rparr>))"
| "bs_load (Suc k) pbs w =
     (case nth_opt (buf pbs) (unat (buf_rdptr pbs)) of
        None \<Rightarrow> None
      | Some b \<Rightarrow> bs_load k (pbs\<lparr>buf_rdptr := buf_rdptr pbs + 1\<rparr>)
                    (w OR push_bit (8 * Suc k) (ucast b)))"

text \<open>
  \<open>bs_read\<close>: \<open>None\<close> where one of the two assertions fails. \<open>num_bytes_to_load\<close> is at most 3
  because at most 32 bits are asked for, so the switch always has a matching case.
\<close>

definition bs_read :: "bitstream_buf \<Rightarrow> u32 \<Rightarrow> (u32 \<times> bitstream_buf) option" where
  "bs_read pbs0 num_of_bits0 =
     (if \<not> num_of_bits0 \<le> 32 then None
      else
        let pbs = pbs0\<lparr>num_bits_read := num_bits_read pbs0 + num_of_bits0\<rparr> in
        if num_of_bits0 \<le> num_held_bits pbs then
          let retval = drop_bit (unat (num_held_bits pbs - num_of_bits0)) (ucast (held_bits pbs));
              retval = retval AND NOT (push_bit (unat num_of_bits0) 0xff)
          in Some (retval, pbs\<lparr>num_held_bits := num_held_bits pbs - num_of_bits0\<rparr>)
        else
          let num_of_bits = num_of_bits0 - num_held_bits pbs;
              retval = ucast (held_bits pbs) AND NOT (push_bit (unat (num_held_bits pbs)) 0xff);
              retval = push_bit (unat num_of_bits) retval;
              num_bytes_to_load = drop_bit 3 (num_of_bits - 1)
          in if \<not> buf_rdptr pbs + num_bytes_to_load < byte_alloc pbs then None
             else
               (case bs_load (unat num_bytes_to_load) pbs 0 of
                  None \<Rightarrow> None
                | Some (aligned_word, pbs') \<Rightarrow>
                    let next_num_held_bits = (32 - num_of_bits) mod 8;
                        retval = retval OR drop_bit (unat next_num_held_bits) aligned_word
                    in Some (retval, pbs'\<lparr>num_held_bits := next_num_held_bits,
                                          held_bits := ucast aligned_word\<rparr>)))"


section \<open>The bits that are left\<close>

text \<open>Bytes and words as bit lists, most significant bit first.\<close>

definition byte_bits :: "u8 \<Rightarrow> bool list" where
  "byte_bits b = map (bit b) (rev [0..<8])"

definition bs_bits :: "bitstream_buf \<Rightarrow> bool list" where
  "bs_bits bs = map (bit (held_bits bs)) (rev [0..<unat (num_held_bits bs)])
     @ concat (map byte_bits (drop (unat (buf_rdptr bs)) (buf bs)))"

definition bits_val :: "bool list \<Rightarrow> u32" where
  "bits_val bs = horner_sum of_bool 2 (rev bs)"

definition bs_wf :: "bitstream_buf \<Rightarrow> bool" where
  "bs_wf bs \<longleftrightarrow> length (buf bs) = unat (byte_alloc bs) \<and> buf_rdptr bs \<le> byte_alloc bs
     \<and> num_held_bits bs < 8 \<and> byte_alloc bs < 2 ^ 31"

lemma length_byte_bits [simp]: "length (byte_bits b) = 8"
  by (simp add: byte_bits_def)

lemma nth_byte_bits: "j < 8 \<Longrightarrow> byte_bits b ! j = bit b (7 - j)"
  by (simp add: byte_bits_def rev_nth del: upt_Suc)

lemma length_bs_bits:
  "length (bs_bits bs) = unat (num_held_bits bs) + 8 * (length (buf bs) - unat (buf_rdptr bs))"
  by (simp add: bs_bits_def length_concat_map_const [where w = 8])

lemma nth_bs_bits_held:
  "j < unat (num_held_bits bs) \<Longrightarrow>
     bs_bits bs ! j = bit (held_bits bs) (unat (num_held_bits bs) - 1 - j)"
  by (simp add: bs_bits_def nth_append rev_nth)

lemma nth_bs_bits_buf:
  assumes "j < 8 * (length (buf bs) - unat (buf_rdptr bs))"
  shows "bs_bits bs ! (unat (num_held_bits bs) + j)
         = bit (buf bs ! (unat (buf_rdptr bs) + j div 8)) (7 - j mod 8)"
proof -
  have "j div 8 < length (buf bs) - unat (buf_rdptr bs)"
    using assms by (simp add: div_less_iff_less_mult)
  then show ?thesis
    using assms by (simp add: bs_bits_def nth_append nth_concat_map_const [where w = 8] nth_byte_bits)
qed

lemma bit_bits_val: "bit (bits_val bs) k \<longleftrightarrow> k < 32 \<and> k < length bs \<and> bs ! (length bs - 1 - k)"
  by (auto simp: bits_val_def bit_horner_sum_bit_iff rev_nth)

lemma bit_0xff: "bit (255 :: int) j \<longleftrightarrow> j < 8"
  using bit_mask_iff [of 8 j, where 'a = int] by (simp add: mask_eq_exp_minus_1)

text \<open>A word is the value of a bit list when its bits are those of the list.\<close>

lemma bits_val_eqI:
  assumes "\<And>k. k < 32 \<Longrightarrow> bit w k \<longleftrightarrow> k < length bs \<and> bs ! (length bs - 1 - k)"
  shows "w = bits_val bs"
  by (rule bit_word_eqI) (simp add: bit_bits_val assms)


section \<open>Loading bytes\<close>

lemma bs_load_Some:
  assumes "unat (buf_rdptr pbs) + k < length (buf pbs)" and "length (buf pbs) < 2 ^ 32"
  shows "\<exists>w'. bs_load k pbs w = Some (w', pbs\<lparr>buf_rdptr := buf_rdptr pbs + of_nat (Suc k)\<rparr>)
    \<and> (\<forall>i < 32. bit w' i \<longleftrightarrow> bit w i
         \<or> (i div 8 \<le> k \<and> bit (buf pbs ! (unat (buf_rdptr pbs) + (k - i div 8))) (i mod 8)))"
  using assms
proof (induction k arbitrary: pbs w)
  case 0
  have "bit (w OR ucast (buf pbs ! unat (buf_rdptr pbs))) i \<longleftrightarrow>
    bit w i \<or> (i div 8 \<le> 0 \<and> bit (buf pbs ! unat (buf_rdptr pbs)) (i mod 8))" if "i < 32" for i
  proof (cases "i < 8")
    case True
    then show ?thesis using that by (simp add: bit_or_iff bit_ucast_iff)
  next
    case False
    then show ?thesis using that by (auto simp: bit_or_iff bit_ucast_iff dest: bit_imp_le_length)
  qed
  then show ?case using 0 by simp
next
  case (Suc k)
  let ?b = "buf pbs ! unat (buf_rdptr pbs)"
  let ?pbs = "pbs\<lparr>buf_rdptr := buf_rdptr pbs + 1\<rparr>"
  let ?w = "w OR push_bit (8 * Suc k) (ucast ?b) :: u32"
  have rd: "unat (buf_rdptr pbs + 1) = Suc (unat (buf_rdptr pbs))"
    using Suc.prems by (simp add: unat_plus_no_ovf)
  have "unat (buf_rdptr ?pbs) + k < length (buf ?pbs)" "length (buf ?pbs) < 2 ^ 32"
    using Suc.prems rd by simp_all
  from Suc.IH [OF this, of ?w] obtain w' where
    w': "bs_load k ?pbs ?w = Some (w', ?pbs\<lparr>buf_rdptr := buf_rdptr ?pbs + of_nat (Suc k)\<rparr>)"
    and bits: "\<And>i. i < 32 \<Longrightarrow> bit w' i \<longleftrightarrow> bit ?w i
         \<or> (i div 8 \<le> k \<and> bit (buf pbs ! (Suc (unat (buf_rdptr pbs)) + (k - i div 8))) (i mod 8))"
    using rd by auto
  have "bit w' i \<longleftrightarrow> bit w i
         \<or> (i div 8 \<le> Suc k \<and> bit (buf pbs ! (unat (buf_rdptr pbs) + (Suc k - i div 8))) (i mod 8))"
    if i: "i < 32" for i
  proof -
    have split: "bit ?w i \<longleftrightarrow> bit w i \<or> (8 * Suc k \<le> i \<and> bit ?b (i - 8 * Suc k))"
      using i by (auto simp: bit_or_iff bit_push_bit_iff bit_ucast_iff)
    consider "i div 8 \<le> k" | "i div 8 = Suc k" | "Suc k < i div 8" by linarith
    then show ?thesis
    proof cases
      case 1
      then have "\<not> 8 * Suc k \<le> i" by presburger
      then show ?thesis using 1 bits [OF i] split by (simp add: Suc_diff_le)
    next
      case 2
      then have "8 * Suc k \<le> i" "i - 8 * Suc k = i mod 8" by presburger+
      then show ?thesis using 2 bits [OF i] split by simp
    next
      case 3
      then have "8 \<le> i - 8 * Suc k" by presburger
      then have "\<not> bit ?b (i - 8 * Suc k)" using bit_imp_le_length by fastforce
      then show ?thesis using 3 bits [OF i] split by simp
    qed
  qed
  moreover have "bs_load (Suc k) pbs w = Some (w', pbs\<lparr>buf_rdptr := buf_rdptr pbs + of_nat (Suc (Suc k))\<rparr>)"
    using w' Suc.prems by (simp add: algebra_simps)
  ultimately show ?case by blast
qed


section \<open>The contract of the reader\<close>

text \<open>The part of the reader a read does not change.\<close>

definition same_buf :: "bitstream_buf \<Rightarrow> bitstream_buf \<Rightarrow> bool" where
  "same_buf a b \<longleftrightarrow> buf a = buf b \<and> byte_alloc a = byte_alloc b"

text \<open>
  \<open>bs_reads n pbs v pbs'\<close>: the reader delivers the next \<open>n\<close> bits as the number \<open>v\<close> and moves
  past them.
\<close>

definition bs_reads :: "nat \<Rightarrow> bitstream_buf \<Rightarrow> u32 \<Rightarrow> bitstream_buf \<Rightarrow> bool" where
  "bs_reads n pbs v pbs' \<longleftrightarrow> v = bits_val (take n (bs_bits pbs))
     \<and> bs_bits pbs' = drop n (bs_bits pbs) \<and> bs_wf pbs' \<and> same_buf pbs' pbs
     \<and> num_bits_read pbs' = num_bits_read pbs + of_nat n"

lemma bs_read_held:
  assumes wf: "bs_wf pbs" and n: "n \<le> num_held_bits pbs"
  shows "\<exists>v pbs'. bs_read pbs n = Some (v, pbs') \<and> bs_reads (unat n) pbs v pbs'"
proof -
  let ?h = "unat (num_held_bits pbs)" and ?n = "unat n"
  have h8: "?h < 8" using wf by (simp add: bs_wf_def word_less_nat_alt)
  have nh: "?n \<le> ?h" using n by (simp add: word_le_nat_alt)
  then have n32: "n \<le> 32" using h8 by (simp add: word_le_nat_alt)
  have hn: "unat (num_held_bits pbs - n) = ?h - ?n" using n by (rule unat_minus_le)
  define v :: u32 where
    "v = drop_bit (?h - ?n) (ucast (held_bits pbs)) AND NOT (push_bit ?n 0xff)"
  let ?pbs' = "pbs\<lparr>num_bits_read := num_bits_read pbs + n, num_held_bits := num_held_bits pbs - n\<rparr>"
  have len: "?n \<le> length (bs_bits pbs)" using nh by (simp add: length_bs_bits)
  have "v = bits_val (take ?n (bs_bits pbs))"
  proof (rule bits_val_eqI)
    fix k :: nat assume k: "k < 32"
    have bv: "bit v k \<longleftrightarrow> bit (held_bits pbs) (?h - ?n + k) \<and> \<not> (?n \<le> k \<and> k - ?n < 8)"
      using k by (auto simp: v_def bit_and_iff bit_not_iff bit_drop_bit_eq bit_push_bit_iff
          bit_ucast_iff bit_0xff dest: bit_imp_le_length)
    show "bit v k \<longleftrightarrow> k < length (take ?n (bs_bits pbs))
        \<and> take ?n (bs_bits pbs) ! (length (take ?n (bs_bits pbs)) - 1 - k)"
    proof (cases "k < ?n")
      case True
      then have "bs_bits pbs ! (?n - 1 - k) = bit (held_bits pbs) (?h - 1 - (?n - 1 - k))"
        using nh by (intro nth_bs_bits_held) simp
      moreover have "?h - 1 - (?n - 1 - k) = ?h - ?n + k" using True nh by simp
      ultimately show ?thesis using True bv len by simp
    next
      case False
      then show ?thesis using bv len nh by (auto dest: bit_imp_le_length)
    qed
  qed
  moreover have "bs_bits ?pbs' = drop ?n (bs_bits pbs)"
  proof -
    have "drop ?n (rev [0..<?h]) = rev [0..<?h - ?n]"
      using nh by (simp add: drop_rev)
    then show ?thesis using nh by (simp add: bs_bits_def hn drop_map)
  qed
  moreover have "bs_wf ?pbs'"
    using wf h8 nh hn by (simp add: bs_wf_def word_less_nat_alt)
  moreover have "bs_read pbs n = Some (v, ?pbs')"
    using n n32 by (simp add: bs_read_def v_def hn Let_def)
  ultimately show ?thesis by (auto simp: bs_reads_def same_buf_def)
qed


text \<open>How many bytes a read loads, and where a bit of the loaded word comes from.\<close>

lemma load_count: "0 < m \<Longrightarrow> m \<le> 8 * d \<Longrightarrow> (m - 1) div 8 < (d :: nat)"
  by (simp add: div_less_iff_less_mult)

lemma unat_load_count: "0 < unat (x :: u32) \<Longrightarrow> unat (drop_bit 3 (x - 1)) = (unat x - 1) div 8"
  by (simp add: drop_bit_eq_div unat_div unat_minus_le word_le_nat_alt)

lemma load_split:
  assumes "0 < m" and "m \<le> 32"
  shows "8 * ((m - 1) div 8) + 8 = m + (32 - m) mod (8 :: nat)"
proof -
  obtain q r where m: "m = Suc (8 * q + r)" "r < 8"
    by (metis assms(1) div_mod_decomp mod_less_divisor Suc_pred mult.commute zero_less_numeral)
  define e where "e = 7 - r"
  have "32 - m = 8 * (3 - q) + e" using assms m by (simp add: e_def)
  moreover have "e < 8" by (simp add: e_def)
  ultimately have "(32 - m) mod 8 = e" by simp
  moreover have "(m - 1) div 8 = q" using m by simp
  ultimately show ?thesis using m by (simp add: e_def)
qed

lemma load_index:
  assumes "i = 8 * nb + 7 - j" and "j < 8 * nb + (8 :: nat)"
  shows "i div 8 \<le> nb \<and> nb - i div 8 = j div 8 \<and> i mod 8 = 7 - j mod 8"
proof -
  define q r where "q = j div 8" and "r = j mod 8"
  have j: "j = 8 * q + r" "r < 8" by (simp_all add: q_def r_def)
  then have q: "q \<le> nb" using assms by linarith
  then have "i = 8 * (nb - q) + (7 - r)" using assms j by linarith
  then have "i div 8 = nb - q" "i mod 8 = 7 - r" by simp_all
  then show ?thesis using q by (simp add: q_def r_def)
qed

text \<open>When the held bits do not suffice: the word that was loaded, and what is left of it.\<close>

lemma bits_split:
  assumes h: "unat (num_held_bits pbs) = h" and m: "0 < m" "m \<le> 8 * (length (buf pbs) - unat (buf_rdptr pbs))"
  defines "nb \<equiv> (m - 1) div 8" and "nx \<equiv> (32 - m) mod 8"
  assumes m32: "m \<le> 32"
  shows "drop (h + m) (bs_bits pbs)
       = map (bit (buf pbs ! (unat (buf_rdptr pbs) + nb))) (rev [0..<nx])
         @ concat (map byte_bits (drop (unat (buf_rdptr pbs) + nb + 1) (buf pbs)))"
proof -
  let ?r = "unat (buf_rdptr pbs)"
  have nx: "nx < 8" "m = 8 * nb + (8 - nx)"
    using load_split [OF m(1) m32] unfolding nb_def nx_def by (simp_all add: algebra_simps)
  have nbl: "?r + nb < length (buf pbs)" using load_count [OF m] unfolding nb_def by linarith
  have "drop (h + m) (bs_bits pbs) = drop (8 - nx) (drop (8 * nb) (concat (map byte_bits (drop ?r (buf pbs)))))"
    using h by (simp add: bs_bits_def nx(2) add.commute)
  also have "\<dots> = drop (8 - nx) (concat (map byte_bits (drop (?r + nb) (buf pbs))))"
    by (simp add: drop_concat_map_const [where w = 8] add.commute)
  also have "\<dots> = drop (8 - nx) (byte_bits (buf pbs ! (?r + nb)))
      @ concat (map byte_bits (drop (?r + nb + 1) (buf pbs)))"
    using nbl by (simp add: drop_Cons_nth)
  also have "drop (8 - nx) (byte_bits (buf pbs ! (?r + nb)))
      = map (bit (buf pbs ! (?r + nb))) (rev [0..<nx])"
    using nx(1) by (simp add: byte_bits_def drop_map drop_rev del: upt_Suc)
  finally show ?thesis .
qed

lemma bs_load_bits:
  assumes wf: "bs_wf pbs" and h: "unat (num_held_bits pbs) = h"
    and m: "0 < m" "m \<le> 32" "m \<le> 8 * (length (buf pbs) - unat (buf_rdptr pbs))"
  defines "nb \<equiv> (m - 1) div 8" and "nx \<equiv> (32 - m) mod 8"
  assumes aw: "\<And>i. i < 32 \<Longrightarrow> bit aw i \<longleftrightarrow> i div 8 \<le> nb
      \<and> bit (buf pbs ! (unat (buf_rdptr pbs) + (nb - i div 8))) (i mod 8)"
  shows "push_bit m (ucast (held_bits pbs) AND NOT (push_bit h 0xff)) OR drop_bit nx aw
       = bits_val (take (h + m) (bs_bits pbs))"
proof (rule bits_val_eqI)
  fix k :: nat assume k: "k < 32"
  let ?r = "unat (buf_rdptr pbs)"
  let ?v = "push_bit m (ucast (held_bits pbs) AND NOT (push_bit h 0xff)) OR drop_bit nx aw :: u32"
  have h8: "h < 8" using wf h by (simp add: bs_wf_def word_less_nat_alt)
  have nx: "nx < 8" "8 * nb + 8 = m + nx"
    using load_split [OF m(1,2)] unfolding nb_def nx_def by simp_all
  have len: "h + m \<le> length (bs_bits pbs)" using m(3) h by (simp add: length_bs_bits)
  have bv: "bit ?v k \<longleftrightarrow> (m \<le> k \<and> k - m < h \<and> bit (held_bits pbs) (k - m)) \<or> bit aw (nx + k)"
    using k h8 by (auto simp: bit_or_iff bit_and_iff bit_not_iff bit_drop_bit_eq bit_push_bit_iff
        bit_ucast_iff bit_0xff dest: bit_imp_le_length)
  have high: "\<not> bit aw (nx + k)" if "m \<le> k"
  proof (cases "nx + k < 32")
    case True
    moreover have "\<not> (nx + k) div 8 \<le> nb" using that nx by linarith
    ultimately show ?thesis using aw by blast
  qed (auto dest: bit_imp_le_length)
  consider "k < m" | "m \<le> k" "k < h + m" | "h + m \<le> k" by linarith
  then show "bit ?v k \<longleftrightarrow> k < length (take (h + m) (bs_bits pbs))
      \<and> take (h + m) (bs_bits pbs) ! (length (take (h + m) (bs_bits pbs)) - 1 - k)"
  proof cases
    case 1
    define j where "j = m - 1 - k"
    have "bs_bits pbs ! (h + j) = bit (buf pbs ! (?r + j div 8)) (7 - j mod 8)"
      using nth_bs_bits_buf [of j pbs] m(3) 1 h by (simp add: j_def)
    moreover have "bit aw (nx + k) \<longleftrightarrow> bit (buf pbs ! (?r + j div 8)) (7 - j mod 8)"
    proof -
      have "(m - 1) div 8 \<le> 3" using m(2) by simp
      then have i: "nx + k < 32" using 1 nx(2) unfolding nb_def by linarith
      have "nx + k = 8 * nb + 7 - j" "j < 8 * nb + 8" using 1 nx j_def by linarith+
      from load_index [OF this] show ?thesis using aw [OF i] by simp
    qed
    moreover have "h + m - 1 - k = h + j" using 1 by (simp add: j_def)
    ultimately show ?thesis using 1 bv len by simp
  next
    case 2
    then have "bs_bits pbs ! (h + m - 1 - k) = bit (held_bits pbs) (h - 1 - (h + m - 1 - k))"
      using nth_bs_bits_held [of "h + m - 1 - k" pbs] h by simp
    moreover have "h - 1 - (h + m - 1 - k) = k - m" "k - m < h" using 2 by linarith+
    ultimately show ?thesis using 2 bv high len by simp
  next
    case 3
    then have "\<not> k - m < h" by linarith
    then show ?thesis using 3 bv high len by simp
  qed
qed


lemma bs_read_load:
  assumes wf: "bs_wf pbs" and n32: "unat n \<le> 32" and nh: "num_held_bits pbs < n"
    and len: "unat n \<le> length (bs_bits pbs)"
  shows "\<exists>v pbs'. bs_read pbs n = Some (v, pbs') \<and> bs_reads (unat n) pbs v pbs'"
proof -
  define h m r where "h = unat (num_held_bits pbs)" and "m = unat n - h" and "r = unat (buf_rdptr pbs)"
  define nb nx where "nb = (m - 1) div 8" and "nx = (32 - m) mod 8"
  let ?pbs = "pbs\<lparr>num_bits_read := num_bits_read pbs + n\<rparr>"
  have hn: "h < unat n" using nh by (simp add: h_def word_less_nat_alt)
  have m: "0 < m" "m \<le> 32" "h + m = unat n" using hn n32 by (simp_all add: m_def)
  have mL: "m \<le> 8 * (length (buf pbs) - r)" using len m by (simp add: length_bs_bits h_def r_def)
  have um: "unat (n - num_held_bits pbs) = m"
    using nh by (simp add: m_def h_def unat_minus_le)
  then have unb: "unat (drop_bit 3 (n - num_held_bits pbs - 1)) = nb"
    using m(1) unat_load_count by (simp add: nb_def)
  have unx: "unat ((32 - (n - num_held_bits pbs)) mod 8) = nx"
    using m(2) um by (simp add: nx_def unat_mod unat_minus_le word_le_nat_alt)
  have nbL: "r + nb < length (buf pbs)" using load_count [OF m(1) mL] by (simp add: nb_def)
  have L: "length (buf pbs) = unat (byte_alloc pbs)" "unat (byte_alloc pbs) < 2 ^ 31"
    using wf by (simp_all add: bs_wf_def word_less_nat_alt)
  have nb3: "nb \<le> 3" using m(2) by (simp add: nb_def)
  have no_assert: "buf_rdptr pbs + drop_bit 3 (n - num_held_bits pbs - 1) < byte_alloc pbs"
    using nbL L nb3 by (simp add: word_less_nat_alt unat_plus_no_ovf unb flip: r_def)
  obtain aw where
    load: "bs_load nb ?pbs 0 = Some (aw, ?pbs\<lparr>buf_rdptr := buf_rdptr pbs + of_nat (Suc nb)\<rparr>)"
    and aw: "\<And>i. i < 32 \<Longrightarrow> bit aw i \<longleftrightarrow> i div 8 \<le> nb \<and> bit (buf pbs ! (r + (nb - i div 8))) (i mod 8)"
    using bs_load_Some [of ?pbs nb 0] nbL L by (auto simp: r_def)
  define v where "v = push_bit m (ucast (held_bits pbs) AND NOT (push_bit h 0xff)) OR drop_bit nx aw"
  define pbs' where "pbs' = ?pbs\<lparr>buf_rdptr := buf_rdptr pbs + of_nat (Suc nb),
    num_held_bits := (32 - (n - num_held_bits pbs)) mod 8, held_bits := ucast aw\<rparr>"
  have "bs_read pbs n = Some (v, pbs')"
    using n32 nh no_assert load um unb unx
    by (simp add: bs_read_def Let_def word_le_nat_alt word_less_nat_alt v_def pbs'_def flip: h_def)
  moreover have "v = bits_val (take (unat n) (bs_bits pbs))"
    using bs_load_bits [OF wf h_def [symmetric] m(1,2) mL [unfolded r_def], of aw] aw m(3)
    by (simp add: v_def nb_def nx_def r_def)
  moreover have rd: "unat (buf_rdptr pbs') = r + nb + 1"
  proof -
    have "unat (of_nat (Suc nb) :: u32) = Suc nb" using nb3 by (subst unat_of_nat) simp
    then show ?thesis using nbL L nb3 by (simp add: pbs'_def r_def unat_plus_no_ovf)
  qed
  moreover have "bs_bits pbs' = drop (unat n) (bs_bits pbs)"
  proof -
    have "map (bit (ucast aw :: u8)) (rev [0..<nx]) = map (bit (buf pbs ! (r + nb))) (rev [0..<nx])"
      using aw by (auto simp: nx_def bit_ucast_iff)
    then show ?thesis
      using bits_split [OF h_def [symmetric] m(1) mL [unfolded r_def] m(2)] rd unx m(3)
      by (simp add: bs_bits_def pbs'_def nb_def nx_def r_def)
  qed
  moreover have "bs_wf pbs'"
    using wf rd nbL L unx by (simp add: bs_wf_def pbs'_def word_le_nat_alt word_less_nat_alt nx_def)
  ultimately show ?thesis by (auto simp: bs_reads_def same_buf_def pbs'_def)
qed

lemma bs_read_spec:
  assumes "bs_wf pbs" and "unat n \<le> 32" and "unat n \<le> length (bs_bits pbs)"
  shows "\<exists>v pbs'. bs_read pbs n = Some (v, pbs') \<and> bs_reads (unat n) pbs v pbs'"
  using assms bs_read_held bs_read_load by (cases "n \<le> num_held_bits pbs") (auto simp: not_le)

lemma bs_read_short:
  assumes wf: "bs_wf pbs" and n32: "unat n \<le> 32" and len: "length (bs_bits pbs) < unat n"
  shows "bs_read pbs n = None"
proof -
  define h m where "h = unat (num_held_bits pbs)" and "m = unat n - h"
  have L: "length (buf pbs) = unat (byte_alloc pbs)" "unat (byte_alloc pbs) < 2 ^ 31"
    "unat (buf_rdptr pbs) \<le> length (buf pbs)"
    using wf by (simp_all add: bs_wf_def word_less_nat_alt word_le_nat_alt)
  have hn: "h < unat n" and mL: "8 * (length (buf pbs) - unat (buf_rdptr pbs)) < m"
    using len by (simp_all add: length_bs_bits h_def m_def)
  have um: "unat (n - num_held_bits pbs) = m"
    using hn by (simp add: m_def h_def unat_minus_le word_le_nat_alt)
  then have unb: "unat (drop_bit 3 (n - num_held_bits pbs - 1)) = (m - 1) div 8"
    using hn unat_load_count [of "n - num_held_bits pbs"] by (simp add: m_def)
  have m32: "m \<le> 32" using n32 by (simp add: m_def)
  have "length (buf pbs) - unat (buf_rdptr pbs) \<le> (m - 1) div 8"
    using mL by (simp add: less_eq_div_iff_mult_less_eq)
  moreover have "(m - 1) div 8 \<le> 3" using m32 by simp
  ultimately have "\<not> buf_rdptr pbs + drop_bit 3 (n - num_held_bits pbs - 1) < byte_alloc pbs"
    using L by (simp add: word_less_nat_alt unat_plus_no_ovf unb)
  then show ?thesis
    using n32 hn by (simp add: bs_read_def Let_def word_le_nat_alt h_def)
qed

section \<open>Fixed-length codes\<close>

definition bs_read_code :: "bitstream_buf \<Rightarrow> u32 \<Rightarrow> (u32 \<times> bitstream_buf) option" where
  "bs_read_code pbs len = (if \<not> 0 < len then None else bs_read pbs len)"

definition bs_read_flag :: "bitstream_buf \<Rightarrow> (u32 \<times> bitstream_buf) option" where
  "bs_read_flag pbs = bs_read pbs 1"

definition bs_read_scode :: "bitstream_buf \<Rightarrow> u32 \<Rightarrow> (int \<times> bitstream_buf) option" where
  "bs_read_scode pbs len =
     (if \<not> (0 < len \<and> len \<le> 32) then None
      else (case bs_read pbs len of
              None \<Rightarrow> None
            | Some (val, pbs') \<Rightarrow>
                Some (sint (if 32 \<le> len then val
                            else (- (val AND push_bit (unat (len - 1)) 1)) OR val), pbs')))"

definition bs_consumed_bits :: "bitstream_buf \<Rightarrow> u32" where
  "bs_consumed_bits bs = num_bits_read bs"


section \<open>Exp-Golomb codes\<close>

text \<open>The loop \<open>while (!(code & 1))\<close>; it ends at the first one bit or where a read aborts.\<close>

partial_function (option) uvlc_prefix ::
    "bitstream_buf \<Rightarrow> u32 \<Rightarrow> u32 \<Rightarrow> (u32 \<times> bitstream_buf) option" where
  "uvlc_prefix pbs code len =
     (if code AND 1 = 0 then
        (case bs_read pbs 1 of
           None \<Rightarrow> None
         | Some r \<Rightarrow> uvlc_prefix (snd r) (fst r) (len + 1))
      else Some (len, pbs))"

text \<open>
  \<open>1 << length\<close> has no defined value for \<open>length = 32\<close>, the only length above 31 that gets
  past the assertion of \<open>bs_read\<close>; the model has no result there.
\<close>

definition bs_read_uvlc :: "bitstream_buf \<Rightarrow> (u32 \<times> bitstream_buf) option" where
  "bs_read_uvlc pbs0 =
     (case bs_read pbs0 1 of
        None \<Rightarrow> None
      | Some (code, pbs) \<Rightarrow>
          if code = 0 then
            (case uvlc_prefix pbs code 0 of
               None \<Rightarrow> None
             | Some (len, pbs) \<Rightarrow>
                 (case bs_read pbs len of
                    None \<Rightarrow> None
                  | Some (val, pbs) \<Rightarrow>
                      if len < 32 then Some (val + (push_bit (unat len) 1 - 1), pbs) else None))
          else Some (0, pbs))"

definition bs_read_svlc :: "bitstream_buf \<Rightarrow> (int \<times> bitstream_buf) option" where
  "bs_read_svlc pbs0 =
     (case bs_read pbs0 1 of
        None \<Rightarrow> None
      | Some (bits, pbs) \<Rightarrow>
          if bits = 0 then
            (case uvlc_prefix pbs bits 0 of
               None \<Rightarrow> None
             | Some (len, pbs) \<Rightarrow>
                 (case bs_read pbs len of
                    None \<Rightarrow> None
                  | Some (bits, pbs) \<Rightarrow>
                      if len < 32 then
                        let bits = bits + push_bit (unat len) 1
                        in Some (if bits AND 1 \<noteq> 0 then - sint (drop_bit 1 bits)
                                 else sint (drop_bit 1 bits), pbs)
                      else None))
          else Some (0, pbs))"

text \<open>The codes themselves, as the H.264 standard defines them (clause 9.1).\<close>

fun log2_floor :: "nat \<Rightarrow> nat" where
  "log2_floor n = (if n < 2 then 0 else Suc (log2_floor (n div 2)))"

declare log2_floor.simps [simp del]

definition nat_bits :: "nat \<Rightarrow> nat \<Rightarrow> bool list" where
  "nat_bits w n = map (bit n) (rev [0..<w])"

definition ue_bits :: "nat \<Rightarrow> bool list" where
  "ue_bits v = (let k = log2_floor (v + 1)
                in replicate k False @ True # nat_bits k (v + 1 - 2 ^ k))"

definition se_bits :: "int \<Rightarrow> bool list" where
  "se_bits i = ue_bits (nat (if 0 < i then 2 * i - 1 else - 2 * i))"

lemma log2_floor_bounds: "0 < n \<Longrightarrow> 2 ^ log2_floor n \<le> n \<and> n < 2 ^ Suc (log2_floor n)"
proof (induction n rule: log2_floor.induct)
  case (1 n)
  show ?case
  proof (cases "n < 2")
    case True
    then show ?thesis using 1 by (simp add: log2_floor.simps)
  next
    case False
    with 1 have "2 ^ log2_floor (n div 2) \<le> n div 2 \<and> n div 2 < 2 ^ Suc (log2_floor (n div 2))"
      by simp
    with False show ?thesis by (auto simp: log2_floor.simps [of n])
  qed
qed

lemma log2_floor_unique:
  assumes "2 ^ k \<le> n" and "n < 2 ^ Suc k"
  shows "log2_floor n = k"
proof -
  have "0 < n" using assms(1) by (cases n) simp_all
  then have "2 ^ log2_floor n \<le> n \<and> n < 2 ^ Suc (log2_floor n)" by (rule log2_floor_bounds)
  then have a: "(2::nat) ^ k < 2 ^ Suc (log2_floor n)" and b: "(2::nat) ^ log2_floor n < 2 ^ Suc k"
    using assms by linarith+
  have "k < Suc (log2_floor n)" by (rule power_less_imp_less_exp [OF _ a]) simp
  moreover have "log2_floor n < Suc k" by (rule power_less_imp_less_exp [OF _ b]) simp
  ultimately show ?thesis by simp
qed

lemma length_nat_bits [simp]: "length (nat_bits w n) = w"
  by (simp add: nat_bits_def)

lemma bits_val_nat_bits: "k \<le> 32 \<Longrightarrow> bits_val (nat_bits k r) = of_nat (take_bit k r)"
proof (rule bits_val_eqI [symmetric])
  fix i :: nat
  assume "k \<le> 32" "i < 32"
  then show "bit (of_nat (take_bit k r) :: u32) i \<longleftrightarrow> i < length (nat_bits k r)
      \<and> nat_bits k r ! (length (nat_bits k r) - 1 - i)"
    by (auto simp: nat_bits_def rev_nth bit_of_nat_iff bit_take_bit_iff)
qed

lemma bits_val_single [simp]: "bits_val [b] = of_bool b"
  by (simp add: bits_val_def)

lemma bs_read_bits:
  assumes "bs_wf pbs" and "bs_bits pbs = xs @ rest" and "length xs \<le> 32"
  shows "\<exists>pbs'. bs_read pbs (of_nat (length xs)) = Some (bits_val xs, pbs') \<and> bs_bits pbs' = rest
    \<and> bs_wf pbs' \<and> same_buf pbs' pbs \<and> num_bits_read pbs' = num_bits_read pbs + of_nat (length xs)"
proof -
  have "unat (of_nat (length xs) :: u32) = length xs" using assms(3) by (subst unat_of_nat) simp
  then show ?thesis using bs_read_spec [of pbs "of_nat (length xs)"] assms by (auto simp: bs_reads_def)
qed

lemma bs_read_bit:
  assumes "bs_wf pbs" and "bs_bits pbs = b # rest"
  shows "\<exists>pbs'. bs_read pbs 1 = Some (of_bool b, pbs') \<and> bs_bits pbs' = rest
    \<and> bs_wf pbs' \<and> same_buf pbs' pbs \<and> num_bits_read pbs' = num_bits_read pbs + 1"
  using bs_read_bits [of pbs "[b]" rest] assms by simp

lemma same_buf_trans: "same_buf a b \<Longrightarrow> same_buf b c \<Longrightarrow> same_buf a c"
  by (simp add: same_buf_def)

lemma uvlc_prefix_zeros:
  assumes "bs_wf pbs" and "bs_bits pbs = replicate k False @ True # rest"
  shows "\<exists>pbs'. uvlc_prefix pbs 0 len = Some (len + of_nat (Suc k), pbs') \<and> bs_bits pbs' = rest
    \<and> bs_wf pbs' \<and> same_buf pbs' pbs \<and> num_bits_read pbs' = num_bits_read pbs + of_nat (Suc k)"
  using assms
proof (induction k arbitrary: pbs len)
  case 0
  then obtain pbs' where "bs_read pbs 1 = Some (1, pbs')" "bs_bits pbs' = rest" "bs_wf pbs'"
    "same_buf pbs' pbs" "num_bits_read pbs' = num_bits_read pbs + 1"
    using bs_read_bit [of pbs True rest] by auto
  then show ?case by (simp add: uvlc_prefix.simps)
next
  case (Suc k)
  then obtain p1 where p1: "bs_read pbs 1 = Some (0, p1)" "bs_bits p1 = replicate k False @ True # rest"
    "bs_wf p1" "same_buf p1 pbs" "num_bits_read p1 = num_bits_read pbs + 1"
    using bs_read_bit [of pbs False "replicate k False @ True # rest"] by auto
  from Suc.IH [OF p1(3,2), of "len + 1"] p1 show ?case
    by (subst uvlc_prefix.simps) (auto simp: algebra_simps intro: same_buf_trans)
qed

text \<open>What both Exp-Golomb readers do first: the prefix, then the suffix bits.\<close>

lemma golomb_parts:
  assumes wf: "bs_wf pbs" and bits: "bs_bits pbs = ue_bits v @ rest" and v: "0 < v" "v + 1 < 2 ^ 31"
  shows "\<exists>k r p1 p2 p3. 0 < k \<and> k < 31 \<and> r < 2 ^ k \<and> v + 1 = 2 ^ k + r
    \<and> bs_read pbs 1 = Some (0, p1) \<and> uvlc_prefix p1 0 0 = Some (of_nat k, p2)
    \<and> bs_read p2 (of_nat k) = Some (of_nat r, p3) \<and> bs_bits p3 = rest \<and> bs_wf p3
    \<and> same_buf p3 pbs \<and> num_bits_read p3 = num_bits_read pbs + of_nat (2 * k + 1)"
proof -
  define k r where "k = log2_floor (v + 1)" and "r = v + 1 - 2 ^ k"
  have b: "2 ^ k \<le> v + 1" "v + 1 < 2 ^ Suc k" using log2_floor_bounds [of "v + 1"] by (simp_all add: k_def)
  have k0: "0 < k" using b v by (cases k) auto
  have "(2::nat) ^ k < 2 ^ 31" using b v by linarith
  then have k31: "k < 31" by (rule power_less_imp_less_exp [rotated]) simp
  have r: "r < 2 ^ k" "v + 1 = 2 ^ k + r" using b by (simp_all add: r_def)
  obtain k' where k': "k = Suc k'" using k0 by (cases k) auto
  have bits': "bs_bits pbs = False # replicate k' False @ True # nat_bits k r @ rest"
  proof -
    have "ue_bits v = replicate k False @ True # nat_bits k r"
      by (simp only: ue_bits_def Let_def k_def r_def)
    then show ?thesis using bits k' by simp
  qed
  obtain p1 where p1: "bs_read pbs 1 = Some (0, p1)" "bs_bits p1 = replicate k' False @ True # nat_bits k r @ rest"
    "bs_wf p1" "same_buf p1 pbs" "num_bits_read p1 = num_bits_read pbs + 1"
    using bs_read_bit [OF wf bits'] by auto
  obtain p2 where p2: "uvlc_prefix p1 0 0 = Some (of_nat k, p2)" "bs_bits p2 = nat_bits k r @ rest"
    "bs_wf p2" "same_buf p2 p1" "num_bits_read p2 = num_bits_read p1 + of_nat k"
    using uvlc_prefix_zeros [OF p1(3,2), of 0] by (auto simp: k')
  obtain p3 where p3: "bs_read p2 (of_nat k) = Some (of_nat r, p3)" "bs_bits p3 = rest" "bs_wf p3"
    "same_buf p3 p2" "num_bits_read p3 = num_bits_read p2 + of_nat k"
    using bs_read_bits [OF p2(3,2)] k31 r(1) by (auto simp: bits_val_nat_bits take_bit_nat_eq_self)
  have "num_bits_read p3 = num_bits_read pbs + of_nat (2 * k + 1)"
    using p1(5) p2(5) p3(5) by simp
  moreover have "same_buf p3 pbs" using p1(4) p2(4) p3(4) by (blast intro: same_buf_trans)
  ultimately show ?thesis using k0 k31 r p1(1) p2(1) p3(1,2,3) by blast
qed

lemma ue_bits_0: "ue_bits 0 = [True]"
  by (simp add: ue_bits_def log2_floor.simps nat_bits_def)

lemma length_ue_bits: "length (ue_bits v) = 2 * log2_floor (v + 1) + 1"
  by (simp add: ue_bits_def Let_def)

lemma word_and_one_odd: "(b :: 'a::len word) AND 1 \<noteq> 0 \<longleftrightarrow> odd (unat b)"
proof -
  have "b AND 1 = of_bool (odd b)" by (rule and_one_eq [unfolded mod_2_eq_odd])
  moreover have "odd b \<longleftrightarrow> odd (unat b)" by (simp flip: bit_0 add: bit_unsigned_iff)
  ultimately show ?thesis by simp
qed

lemma bs_read_uvlc_ue:
  assumes wf: "bs_wf pbs" and bits: "bs_bits pbs = ue_bits v @ rest" and v: "v + 1 < 2 ^ 31"
  shows "\<exists>pbs'. bs_read_uvlc pbs = Some (of_nat v, pbs') \<and> bs_bits pbs' = rest
    \<and> bs_wf pbs' \<and> same_buf pbs' pbs
    \<and> num_bits_read pbs' = num_bits_read pbs + of_nat (length (ue_bits v))"
proof (cases "v = 0")
  case True
  then show ?thesis using bs_read_bit [OF wf] bits by (force simp: ue_bits_0 bs_read_uvlc_def)
next
  case False
  obtain k r p1 p2 p3 where k: "0 < k" "k < 31" and r: "r < 2 ^ k" "v + 1 = 2 ^ k + r"
    and rd: "bs_read pbs 1 = Some (0, p1)" "uvlc_prefix p1 0 0 = Some (of_nat k, p2)"
      "bs_read p2 (of_nat k) = Some (of_nat r, p3)"
    and p3: "bs_bits p3 = rest" "bs_wf p3" "same_buf p3 pbs"
      "num_bits_read p3 = num_bits_read pbs + of_nat (2 * k + 1)"
    using golomb_parts [OF wf bits] False v by blast
  have uk: "unat (of_nat k :: u32) = k" using k by (subst unat_of_nat) simp
  have k32: "(of_nat k :: u32) < 32" using uk k by (simp add: word_less_nat_alt)
  have "(of_nat v :: u32) = of_nat (v + 1) - 1" by simp
  also have "\<dots> = of_nat r + (push_bit k 1 - 1)" unfolding r(2) by (simp add: push_bit_eq_mult)
  finally have val: "of_nat r + (push_bit k 1 - 1) = (of_nat v :: u32)" by simp
  have "log2_floor (v + 1) = k" using log2_floor_unique [of k "v + 1"] r by simp
  then show ?thesis
    using rd p3 val uk k32 by (simp add: bs_read_uvlc_def length_ue_bits)
qed

lemma bs_read_svlc_se:
  assumes wf: "bs_wf pbs" and bits: "bs_bits pbs = se_bits i @ rest" and i: "\<bar>i\<bar> < 2 ^ 29"
  shows "\<exists>pbs'. bs_read_svlc pbs = Some (i, pbs') \<and> bs_bits pbs' = rest
    \<and> bs_wf pbs' \<and> same_buf pbs' pbs
    \<and> num_bits_read pbs' = num_bits_read pbs + of_nat (length (se_bits i))"
proof (cases "i = 0")
  case True
  then show ?thesis using bs_read_bit [OF wf] bits
    by (force simp: se_bits_def ue_bits_0 bs_read_svlc_def)
next
  case False
  define v where "v = nat (if 0 < i then 2 * i - 1 else - 2 * i)"
  have v: "0 < v" "v + 1 < 2 ^ 31" using False i by (auto simp: v_def)
  have bits': "bs_bits pbs = ue_bits v @ rest" using bits by (simp only: se_bits_def v_def)
  obtain k r p1 p2 p3 where k: "0 < k" "k < 31" and r: "r < 2 ^ k" "v + 1 = 2 ^ k + r"
    and rd: "bs_read pbs 1 = Some (0, p1)" "uvlc_prefix p1 0 0 = Some (of_nat k, p2)"
      "bs_read p2 (of_nat k) = Some (of_nat r, p3)"
    and p3: "bs_bits p3 = rest" "bs_wf p3" "same_buf p3 pbs"
      "num_bits_read p3 = num_bits_read pbs + of_nat (2 * k + 1)"
    using golomb_parts [OF wf bits' v] by blast
  have uk: "unat (of_nat k :: u32) = k" using k by (subst unat_of_nat) simp
  have k32: "(of_nat k :: u32) < 32" using uk k by (simp add: word_less_nat_alt)
  define b :: u32 where "b = of_nat (v + 1)"
  have val: "of_nat r + push_bit k 1 = b" unfolding b_def r(2) by (simp add: push_bit_eq_mult)
  have ub: "unat b = v + 1" using v(2) by (simp only: b_def unat_of_nat) simp
  have odd: "b AND 1 \<noteq> 0 \<longleftrightarrow> odd (v + 1)"
    using ub by (simp only: word_and_one_odd)
  have "unat (drop_bit 1 b) = (v + 1) div 2" using ub by (simp add: drop_bit_eq_div unat_div)
  then have s: "sint (drop_bit 1 b) = int ((v + 1) div 2)"
    using v(2) by (simp add: sint_uint uint_nat signed_take_bit_int_eq_self)
  have "(if b AND 1 \<noteq> 0 then - sint (drop_bit 1 b) else sint (drop_bit 1 b)) = i"
  proof -
    have "v + 1 = (if 0 < i then 2 * nat i else Suc (2 * nat (- i)))" 
      unfolding v_def by (cases "0 < i"; simp; arith)
    then have "odd (v + 1) \<longleftrightarrow> \<not> 0 < i" "(v + 1) div 2 = (if 0 < i then nat i else nat (- i))" by simp_all
    then show ?thesis using odd s by simp
  qed
  moreover have "log2_floor (v + 1) = k" using log2_floor_unique [of k "v + 1"] r by simp
  ultimately show ?thesis
    using rd p3 val uk k32
    by (simp add: bs_read_svlc_def Let_def length_ue_bits se_bits_def flip: v_def split: if_splits)
qed

lemma sint_extend:
  fixes v w :: u32
  assumes "\<And>k. k < 32 \<Longrightarrow> bit w k \<longleftrightarrow> bit v (min m k)" and "m < 32"
  shows "sint w = signed_take_bit m (uint v)"
proof (rule bit_eqI)
  fix i
  have "bit (sint w) i \<longleftrightarrow> bit w (min 31 i)"
    by (simp add: sint_uint bit_signed_take_bit_iff bit_uint_iff min_def)
  also have "\<dots> \<longleftrightarrow> bit v (min m (min 31 i))" by (rule assms) simp
  also have "min m (min 31 i) = min m i" using assms(2) by simp
  finally show "bit (sint w) i \<longleftrightarrow> bit (signed_take_bit m (uint v)) i"
    using assms(2) by (simp add: bit_signed_take_bit_iff bit_uint_iff min_less_iff_disj)
qed

lemma bs_read_scode_signed:
  assumes wf: "bs_wf pbs" and len: "0 < n" "n \<le> 32" and bits: "bs_bits pbs = xs @ rest" "length xs = n"
  shows "\<exists>pbs'. bs_read_scode pbs (of_nat n)
      = Some (signed_take_bit (n - 1) (uint (bits_val xs)), pbs') \<and> bs_bits pbs' = rest"
proof -
  have un: "unat (of_nat n :: u32) = n" using len by (subst unat_of_nat) simp
  have n32: "(of_nat n :: u32) \<le> 32" "(of_nat n :: u32) > 0"
    using un len by (simp_all add: word_le_nat_alt word_less_nat_alt)
  have un1: "unat (of_nat n - 1 :: u32) = n - 1" using un len by (simp add: unat_minus_le word_le_nat_alt)
  obtain p where p: "bs_read pbs (of_nat n) = Some (bits_val xs, p)" "bs_bits p = rest"
    using bs_read_bits [OF wf bits(1)] bits(2) len by auto
  let ?v = "bits_val xs"
  have "sint (if 32 \<le> (of_nat n :: u32) then ?v else (- (?v AND push_bit (n - 1) 1)) OR ?v)
      = signed_take_bit (n - 1) (uint ?v)"
  proof (cases "n = 32")
    case True
    then show ?thesis by (simp add: sint_uint)
  next
    case False
    then have n': "n < 32" "\<not> 32 \<le> (of_nat n :: u32)" using un len by (simp_all add: word_le_nat_alt)
    let ?w = "(- (?v AND push_bit (n - 1) 1)) OR ?v :: u32"
    have top: "?v AND push_bit (n - 1) 1 = (if bit ?v (n - 1) then push_bit (n - 1) 1 else 0)"
      by (rule bit_word_eqI) (auto simp: bit_and_iff push_bit_eq_mult bit_exp_iff)
    have neg: "bit (- push_bit (n - 1) (1 :: u32)) k \<longleftrightarrow> n - 1 \<le> k" if "k < 32" for k
    proof -
      have "- push_bit (n - 1) (1 :: u32) = NOT (mask (n - 1))"
        by (simp add: minus_eq_not_minus_1 mask_eq_exp_minus_1 push_bit_eq_mult)
      then show ?thesis using that by (simp add: bit_not_iff bit_mask_iff not_less)
    qed
    have hi: "\<not> bit ?v k" if "n \<le> k" for k using that bits(2) by (simp add: bit_bits_val)
    have w: "?w = (if bit ?v (n - 1) then (- push_bit (n - 1) 1) OR ?v else ?v)"
      by (simp only: top) simp
    have "bit ?w k \<longleftrightarrow> bit ?v (min (n - 1) k)" if k: "k < 32" for k
    proof -
      consider "k < n - 1" | "k = n - 1" | "n \<le> k" using len by linarith
      then show ?thesis
        using hi [of k] neg [OF k] unfolding w by cases (auto simp: bit_or_iff)
    qed
    then have "sint ?w = signed_take_bit (n - 1) (uint ?v)" using len by (intro sint_extend) auto
    then show ?thesis using n' by simp
  qed
  then show ?thesis using p n32 un1 by (simp add: bs_read_scode_def not_le split: if_splits)
qed

section \<open>Emulation prevention bytes\<close>

text \<open>
  \<open>nal_remove_emul_bytes\<close>: \<open>i\<close> counts the bytes of the NAL unit and is also the offset of
  \<open>ps\<close> from \<open>psrc\<close>, as both start at the header size and advance together. \<open>next_24_bits\<close>
  reads three bytes; a read outside the source buffer has no result.
\<close>

definition next_24_bits :: "u8 list \<Rightarrow> nat \<Rightarrow> u32 option" where
  "next_24_bits p i =
     (case (nth_opt p i, nth_opt p (i + 1), nth_opt p (i + 2)) of
        (Some a, Some b, Some c) \<Rightarrow> Some (push_bit 16 (ucast a) OR push_bit 8 (ucast b) OR ucast c)
      | _ \<Rightarrow> None)"

function nal_loop :: "u8 list \<Rightarrow> nat \<Rightarrow> nat \<Rightarrow> u32 \<Rightarrow> nat \<Rightarrow> u8 list \<Rightarrow> u8 list option" where
  "nal_loop psrc nalsize hdr emul i pdst =
     (if i < nalsize then
        if i + hdr < nalsize then
          (case next_24_bits psrc i of
             None \<Rightarrow> None
           | Some w \<Rightarrow>
               if w = emul
               then nal_loop psrc nalsize hdr emul (i + 3) (pdst @ [psrc ! i, psrc ! (i + 1)])
               else nal_loop psrc nalsize hdr emul (i + 1) (pdst @ [psrc ! i]))
        else
          (case nth_opt psrc i of
             None \<Rightarrow> None
           | Some b \<Rightarrow> nal_loop psrc nalsize hdr emul (i + 1) (pdst @ [b]))
      else Some pdst)"
  by pat_completeness auto
termination
  by (relation "measure (\<lambda>(psrc, nalsize, hdr, emul, i, pdst). nalsize - i)") auto

declare nal_loop.simps [simp del]

definition nal_remove_emul_bytes :: "u8 list \<Rightarrow> nat \<Rightarrow> nat \<Rightarrow> u32 \<Rightarrow> u8 list option" where
  "nal_remove_emul_bytes psrc nalsize nal_header_sz emul_byte =
     nal_loop psrc nalsize nal_header_sz emul_byte nal_header_sz []"

text \<open>The payload with and without the prevention bytes (H.264, clause 7.4.1).\<close>

fun emul_strip :: "u8 list \<Rightarrow> u8 list" where
  "emul_strip (a # b # c # xs) =
     (if a = 0 \<and> b = 0 \<and> c = 3 then a # b # emul_strip xs else a # emul_strip (b # c # xs))"
| "emul_strip xs = xs"

fun emul_insert :: "u8 list \<Rightarrow> u8 list" where
  "emul_insert (a # b # c # xs) =
     (if a = 0 \<and> b = 0 \<and> c \<le> 3 then a # b # 3 # emul_insert (c # xs)
      else a # emul_insert (b # c # xs))"
| "emul_insert xs = xs"

lemma emul_insert_eq_Cons: "\<exists>ys. emul_insert (a # xs) = a # ys \<and> (xs = [] \<longrightarrow> ys = [])"
  by (cases "a # xs" rule: emul_insert.cases) auto

lemma emul_strip_Cons:
  assumes "\<not> (a = 0 \<and> (\<exists>xs. ys = 0 # 3 # xs))"
  shows "emul_strip (a # ys) = a # emul_strip ys"
  using assms by (cases "a # ys" rule: emul_strip.cases) auto

lemma emul_strip_short: "length xs \<le> 2 \<Longrightarrow> emul_strip xs = xs"
  by (cases xs rule: emul_strip.cases) auto

lemma emul_strip_insert: "emul_strip (emul_insert xs) = xs"
proof (induction xs rule: emul_insert.induct)
  case (1 a b c xs)
  show ?case
  proof (cases "a = 0 \<and> b = 0 \<and> c \<le> 3")
    case True
    then show ?thesis using 1 by simp
  next
    case False
    then have IH: "emul_strip (emul_insert (b # c # xs)) = b # c # xs" using 1 by simp
    have "\<not> (a = 0 \<and> (\<exists>zs. emul_insert (b # c # xs) = 0 # 3 # zs))"
    proof
      assume *: "a = 0 \<and> (\<exists>zs. emul_insert (b # c # xs) = 0 # 3 # zs)"
      then obtain zs where zs: "emul_insert (b # c # xs) = 0 # 3 # zs" by blast
      moreover obtain ys where "emul_insert (b # c # xs) = b # ys" using emul_insert_eq_Cons by blast
      ultimately have "b = 0" by simp
      moreover have "c = 3"
      proof (cases xs)
        case Nil
        then show ?thesis using zs by simp
      next
        case (Cons d ds)
        have "\<exists>ws. emul_insert (b # c # d # ds) = b # c # ws"
          using emul_insert_eq_Cons [of c "d # ds"] by auto
        then show ?thesis using zs Cons by auto
      qed
      ultimately show False using False * by simp
    qed
    then show ?thesis using False IH by (auto simp: emul_strip_Cons)
  qed
qed simp_all

text \<open>
  What the loop computes: the rest of the NAL unit with the prevention bytes removed. With a
  one-byte header the comparison also looks at the byte behind the unit (\<open>i + 1 < nalsize\<close>
  admits \<open>i + 2 = nalsize\<close>), so that byte has to be readable; its value does not matter.
\<close>

lemma three_bytes:
  fixes a b c :: u8
  defines "w \<equiv> (push_bit 16 (ucast a) OR push_bit 8 (ucast b) OR ucast c :: u32)"
  shows "w = 3 \<longleftrightarrow> a = 0 \<and> b = 0 \<and> c = 3"
proof
  have "a = ucast (drop_bit 16 w)" "b = ucast (drop_bit 8 w)" "c = ucast w"
    unfolding w_def by (rule bit_word_eqI; auto simp: bit_simps dest: bit_imp_le_length)+
  then show "w = 3 \<Longrightarrow> a = 0 \<and> b = 0 \<and> c = 3" by simp
qed (simp add: w_def)

lemma next_24_bits_Some:
  "i + 2 < length p \<Longrightarrow> \<exists>w. next_24_bits p i = Some w
     \<and> (w = 3 \<longleftrightarrow> p ! i = 0 \<and> p ! (i + 1) = 0 \<and> p ! (i + 2) = 3)"
  using three_bytes [of "p ! i" "p ! (i + 1)" "p ! (i + 2)"] by (simp add: next_24_bits_def)

lemma drop_take_nth:
  assumes "i < n" and "n \<le> length p"
  shows "drop i (take n p) = p ! i # drop (Suc i) (take n p)"
proof -
  have "i < length (take n p)" using assms by simp
  from drop_Cons_nth [OF this] show ?thesis using assms by (simp only: nth_take)
qed

lemma nal_loop_strip:
  assumes "hdr = 1 \<and> nalsize < length psrc \<or> hdr = 2 \<and> nalsize \<le> length psrc"
  shows "nal_loop psrc nalsize hdr 3 i pdst = Some (pdst @ emul_strip (drop i (take nalsize psrc)))"
  using assms
proof (induction psrc nalsize hdr "3 :: u32" i pdst rule: nal_loop.induct)
  case (1 psrc n hdr i pdst)
  let ?rest = "\<lambda>i. drop i (take n psrc)"
  have le: "n \<le> length psrc" using "1.prems" by auto
  show ?case
  proof (cases "i + 2 < n")
    case True
    then have i: "i < n" "i + hdr < n" "i + 2 < length psrc" using "1.prems" by auto
    obtain w where w: "next_24_bits psrc i = Some w"
      "w = 3 \<longleftrightarrow> psrc ! i = 0 \<and> psrc ! Suc i = 0 \<and> psrc ! Suc (Suc i) = 3"
      using next_24_bits_Some [OF i(3)] by auto
    have r: "?rest i = psrc ! i # ?rest (Suc i)" "?rest (Suc i) = psrc ! Suc i # ?rest (Suc (Suc i))"
      "?rest (Suc (Suc i)) = psrc ! Suc (Suc i) # ?rest (Suc (Suc (Suc i)))"
      using True le by (auto intro!: drop_take_nth)
    show ?thesis
    proof (cases "w = 3")
      case True
      then have "nal_loop psrc n hdr 3 (i + 3) (pdst @ [psrc ! i, psrc ! (i + 1)])
          = Some (pdst @ [psrc ! i, psrc ! (i + 1)] @ emul_strip (?rest (i + 3)))"
        using "1.hyps"(1) [OF i(1,2) w(1)] "1.prems" by simp
      then show ?thesis using i w r True by (subst nal_loop.simps) (simp add: numeral_3_eq_3)
    next
      case False
      then have "nal_loop psrc n hdr 3 (i + 1) (pdst @ [psrc ! i])
          = Some (pdst @ [psrc ! i] @ emul_strip (?rest (i + 1)))"
        using "1.hyps"(2) [OF i(1,2) w(1)] "1.prems" by simp
      then show ?thesis using i w r False by (subst nal_loop.simps) auto
    qed
  next
    case short: False
    have strip: "emul_strip (?rest i) = ?rest i" "emul_strip (?rest (Suc i)) = ?rest (Suc i)"
      using short le by (auto intro!: emul_strip_short)
    show ?thesis
    proof (cases "i < n")
      case True
      note i = True
      have r: "?rest i = psrc ! i # ?rest (Suc i)" using i le by (rule drop_take_nth)
      have step: "nal_loop psrc n hdr 3 (i + 1) (pdst @ [psrc ! i])
          = Some (pdst @ [psrc ! i] @ emul_strip (?rest (i + 1)))"
        if "next_24_bits psrc i = Some w \<and> w \<noteq> 3 \<and> i + hdr < n \<or> \<not> i + hdr < n" for w
        using that "1.hyps"(2) [OF i] "1.hyps"(3) [OF i, of "psrc ! i"] "1.prems" i by auto
      show ?thesis
      proof (cases "i + hdr < n")
        case True
        then have h: "hdr = 1" "i + 2 = n" "i + 2 < length psrc" using short "1.prems" by auto
        obtain w where w: "next_24_bits psrc i = Some w" using next_24_bits_Some [OF h(3)] by auto
        have r2: "?rest (Suc i) = [psrc ! Suc i]" using h(2) le drop_take_nth [of "Suc i" n psrc] by simp
        show ?thesis
        proof (cases "w = 3")
          case True
          then have "nal_loop psrc n hdr 3 (i + 3) (pdst @ [psrc ! i, psrc ! (i + 1)])
              = Some (pdst @ [psrc ! i, psrc ! (i + 1)])"
            using h(2) by (subst nal_loop.simps) simp
          then show ?thesis using True i \<open>i + hdr < n\<close> w r r2 strip by (subst nal_loop.simps) simp
        next
          case False
          then show ?thesis using step [of w] i \<open>i + hdr < n\<close> w r strip by (subst nal_loop.simps) simp
        qed
      next
        case False
        then show ?thesis using step i le r strip by (subst nal_loop.simps) simp
      qed
    next
      case False
      then show ?thesis by (subst nal_loop.simps) simp
    qed
  qed
qed

lemma nal_loop_overread:
  assumes "i + 2 \<le> length psrc" and "\<forall>i. next_24_bits psrc i \<noteq> Some emul"
  shows "nal_loop psrc (length psrc) 1 emul i pdst = None"
  using assms
proof (induction "length psrc - i" arbitrary: i pdst)
  case (Suc d)
  show ?case
  proof (cases "i + 2 = length psrc")
    case True
    then have "next_24_bits psrc i = None" by (simp add: next_24_bits_def split: option.splits)
    then show ?thesis using True by (subst nal_loop.simps) simp
  next
    case False
    then have "nal_loop psrc (length psrc) 1 emul (i + 1) (pdst @ [psrc ! i]) = None"
      using Suc by (intro Suc.hyps(1)) auto
    then show ?thesis using Suc.prems by (subst nal_loop.simps) (simp split: option.splits)
  qed
qed simp

lemma length_emul_strip: "length (emul_strip xs) \<le> length xs"
  by (induction xs rule: emul_strip.induct) auto



section \<open>Properties\<close>

text \<open>C21: The cached reader is a plain bit reader: on a well-formed reader \<open>bs_read\<close> with at most
  32 bits returns the number written by the next bits of the stream, leaves exactly the bits
  behind them, and aborts precisely when fewer bits are left than were asked for.\<close>

theorem bs_read_correct:
  assumes "bs_wf pbs" and "unat n \<le> 32"
  shows "(case bs_read pbs n of
            None \<Rightarrow> length (bs_bits pbs) < unat n
          | Some (v, pbs') \<Rightarrow> unat n \<le> length (bs_bits pbs)
              \<and> v = bits_val (take (unat n) (bs_bits pbs))
              \<and> bs_bits pbs' = drop (unat n) (bs_bits pbs) \<and> bs_wf pbs'
              \<and> bs_consumed_bits pbs' = bs_consumed_bits pbs + n)"
proof (cases "unat n \<le> length (bs_bits pbs)")
  case True
  then show ?thesis using bs_read_spec [OF assms] by (auto simp: bs_reads_def bs_consumed_bits_def)
next
  case False
  then show ?thesis using bs_read_short [OF assms] by simp
qed

theorem bs_read_correct_witness:
  "bs_wf (bs_init [0xA5, 0x3C] 2) \<and> unat (12 :: u32) \<le> 32
   \<and> (case bs_read (bs_init [0xA5, 0x3C] 2) 12 of
        None \<Rightarrow> False
      | Some (v, pbs') \<Rightarrow> v = bits_val (take 12 (bs_bits (bs_init [0xA5, 0x3C] 2)))
          \<and> length (bs_bits pbs') = 4)"
proof -
  have wf: "bs_wf (bs_init [0xA5, 0x3C] 2)" by (simp add: bs_wf_def bs_init_def)
  have len: "length (bs_bits (bs_init [0xA5, 0x3C] 2)) = 16" by (simp add: length_bs_bits bs_init_def)
  show ?thesis using bs_read_correct [OF wf, of 12] wf len by (auto split: option.splits)
qed

text \<open>C36: \<open>bs_read_uvlc\<close> decodes the unsigned Exp-Golomb code: on a stream that starts with the
  code of \<open>v\<close> it returns \<open>v\<close> and stops right behind the code.\<close>

theorem uvlc_roundtrip:
  assumes "bs_wf pbs" and "bs_bits pbs = ue_bits v @ rest" and "v + 1 < 2 ^ 31"
  shows "\<exists>pbs'. bs_read_uvlc pbs = Some (of_nat v, pbs') \<and> bs_bits pbs' = rest \<and> bs_wf pbs'
    \<and> bs_consumed_bits pbs' = bs_consumed_bits pbs + of_nat (length (ue_bits v))"
  using bs_read_uvlc_ue [OF assms] by (auto simp: bs_consumed_bits_def)

theorem uvlc_roundtrip_witness:
  "bs_wf (bs_init [0x2C] 1) \<and> bs_bits (bs_init [0x2C] 1) = ue_bits 4 @ [True, False, False]
   \<and> (\<exists>pbs'. bs_read_uvlc (bs_init [0x2C] 1) = Some (4, pbs') \<and> bs_bits pbs' = [True, False, False])"
proof -
  have wf: "bs_wf (bs_init [0x2C] 1)" by (simp add: bs_wf_def bs_init_def)
  have bits: "bs_bits (bs_init [0x2C] 1) = ue_bits 4 @ [True, False, False]" by code_simp
  show ?thesis using uvlc_roundtrip [OF wf bits] wf bits by auto
qed

text \<open>\<open>bs_read_svlc\<close> decodes the signed Exp-Golomb code, on both signs.\<close>

theorem svlc_roundtrip:
  assumes "bs_wf pbs" and "bs_bits pbs = se_bits i @ rest" and "\<bar>i\<bar> < 2 ^ 29"
  shows "\<exists>pbs'. bs_read_svlc pbs = Some (i, pbs') \<and> bs_bits pbs' = rest \<and> bs_wf pbs'
    \<and> bs_consumed_bits pbs' = bs_consumed_bits pbs + of_nat (length (se_bits i))"
  using bs_read_svlc_se [OF assms] by (auto simp: bs_consumed_bits_def)

theorem svlc_roundtrip_witness:
  "bs_wf (bs_init [0x2C] 1) \<and> bs_bits (bs_init [0x2C] 1) = se_bits (-2) @ [True, False, False]
   \<and> (\<exists>pbs'. bs_read_svlc (bs_init [0x2C] 1) = Some (-2, pbs') \<and> bs_bits pbs' = [True, False, False])"
proof -
  have wf: "bs_wf (bs_init [0x2C] 1)" by (simp add: bs_wf_def bs_init_def)
  have bits: "bs_bits (bs_init [0x2C] 1) = se_bits (-2) @ [True, False, False]" by code_simp
  show ?thesis using svlc_roundtrip [OF wf bits] wf bits by auto
qed

text \<open>\<open>bs_read_scode\<close> sign-extends: the result is the next \<open>n\<close> bits read in two's complement.\<close>

theorem scode_sign_extends:
  assumes "bs_wf pbs" and "0 < n" and "n \<le> 32" and "bs_bits pbs = xs @ rest" and "length xs = n"
  shows "\<exists>pbs'. bs_read_scode pbs (of_nat n)
      = Some (signed_take_bit (n - 1) (uint (bits_val xs)), pbs') \<and> bs_bits pbs' = rest"
  by (rule bs_read_scode_signed [OF assms])

theorem scode_sign_extends_witness:
  "bs_wf (bs_init [0xD0] 1) \<and>
   (\<exists>pbs'. bs_read_scode (bs_init [0xD0] 1) (of_nat 4)
      = Some (signed_take_bit 3 (uint (bits_val [True, True, False, True])), pbs')
      \<and> bs_bits pbs' = [False, False, False, False])
   \<and> signed_take_bit 3 (uint (bits_val [True, True, False, True])) = -3"
proof -
  have wf: "bs_wf (bs_init [0xD0] 1)" by (simp add: bs_wf_def bs_init_def)
  have bits: "bs_bits (bs_init [0xD0] 1) = [True, True, False, True] @ [False, False, False, False]"
    by code_simp
  have "signed_take_bit 3 (uint (bits_val [True, True, False, True])) = -3" by code_simp
  then show ?thesis using scode_sign_extends [OF wf _ _ bits, of 4] wf by simp
qed

text \<open>C37: Removal undoes insertion: for an H.264 NAL unit (one header byte) holding a payload with
  its emulation prevention bytes, \<open>nal_remove_emul_bytes\<close> returns the payload, provided one byte
  behind the unit may be read; for an HEVC unit (two header bytes) without that proviso.\<close>

theorem nal_remove_roundtrip:
  assumes "length hdr = 1 \<and> tail \<noteq> [] \<or> length hdr = 2"
  shows "nal_remove_emul_bytes (hdr @ emul_insert rbsp @ tail) (length hdr + length (emul_insert rbsp))
           (length hdr) 0x000003 = Some rbsp"
  using assms unfolding nal_remove_emul_bytes_def
  by (subst nal_loop_strip) (auto simp: emul_strip_insert)

theorem nal_remove_roundtrip_witness:
  "emul_insert [0, 0, 1, 0, 0, 0] = [0, 0, 3, 1, 0, 0, 3, 0]
   \<and> nal_remove_emul_bytes ([0x67] @ emul_insert [0, 0, 1, 0, 0, 0] @ [0]) 9 1 3 = Some [0, 0, 1, 0, 0, 0]"
proof -
  have e: "emul_insert [0, 0, 1, 0, 0, 0] = [0, 0, 3, 1, 0, 0, 3, 0]" by simp
  then have len: "length [0x67 :: u8] + length (emul_insert [0, 0, 1, 0, 0, 0]) = 9" by simp
  show ?thesis
    using nal_remove_roundtrip [of "[0x67]" "[0]" "[0, 0, 1, 0, 0, 0]"] e unfolding len by simp
qed

text \<open>The comparison guard of \<open>nal_remove_emul_bytes\<close> is off by one for one-byte headers: on a
  unit that ends with its buffer, holds at least two payload bytes and needs no removal, the loop
  reads the byte behind the buffer.\<close>

theorem nal_remove_overread:
  assumes "3 \<le> length psrc" and "\<forall>i. next_24_bits psrc i \<noteq> Some emul"
  shows "nal_remove_emul_bytes psrc (length psrc) 1 emul = None"
  unfolding nal_remove_emul_bytes_def by (rule nal_loop_overread) (use assms in auto)

theorem nal_remove_overread_witness:
  "3 \<le> length [0x65, 0x88, 0x84 :: u8]
   \<and> nal_remove_emul_bytes [0x65, 0x88, 0x84] (length [0x65, 0x88, 0x84 :: u8]) 1 3 = None"
proof -
  have "next_24_bits [0x65, 0x88, 0x84] i \<noteq> Some 3" for i
    by (cases "i = 0") (simp_all add: next_24_bits_def nth_opt_def)
  then show ?thesis using nal_remove_overread [of "[0x65, 0x88, 0x84]" 3] by simp
qed

end
