(* ===== verification/Queue.thy ===== *)
theory Queue
  imports Prelude "HOL-Library.Monad_Syntax"
begin

text \<open>
  The counting allocator of \<open>pitcher/memory.c\<close> and the queue of \<open>pitcher/queue.c\<close>, the
  container every other part of the pitcher library is built on. A queue keeps its elements
  on one list and up to \<open>QUEUE_IDLE_MAX_THD\<close> spare nodes on another. The locale \<open>fifo\<close> is the
  interface the pipes and units rely on; the queue is an instance of it.

  The kernel-style linked lists of \<open>list.h\<close> are HOL lists: \<open>list_add_tail\<close> appends,
  \<open>list_first_entry\<close> is the head and \<open>list_del_init\<close> of the entry at hand removes it. The
  \<open>list_for_each_entry_safe\<close> loops visit the elements in order; their callbacks get the item,
  the allocator and a state of their own, and do not touch the queue that is being walked. A
  callback that trips an assertion or touches memory that is not there returns \<open>None\<close>, and so
  does the loop then.
\<close>

section \<open>Memory accounting\<close>

text \<open>
  \<open>calloc_res n\<close> is the address the \<open>n\<close>-th call of the C library's allocator returns, 0 for
  \<open>NULL\<close>; \<open>calloc_n\<close> counts the calls.
\<close>

record mem =
  total_count :: int
  calloc_res :: "nat \<Rightarrow> u64"
  calloc_n :: nat

definition libc_alloc :: "mem \<Rightarrow> u64 \<times> mem" where
  "libc_alloc m = (calloc_res m (calloc_n m), m\<lparr>calloc_n := Suc (calloc_n m)\<rparr>)"

definition pitcher_malloc :: "mem \<Rightarrow> u64 \<times> mem" where
  "pitcher_malloc m = libc_alloc (m\<lparr>total_count := total_count m + 1\<rparr>)"

definition pitcher_calloc :: "mem \<Rightarrow> u64 \<times> mem" where
  "pitcher_calloc m = libc_alloc (m\<lparr>total_count := total_count m + 1\<rparr>)"

definition pitcher_realloc :: "u64 \<Rightarrow> mem \<Rightarrow> u64 \<times> mem" where
  "pitcher_realloc ptr m =
     libc_alloc (if ptr = 0 then m\<lparr>total_count := total_count m + 1\<rparr> else m)"

definition pitcher_free :: "mem \<Rightarrow> mem" where
  "pitcher_free m = m\<lparr>total_count := total_count m - 1\<rparr>"

definition pitcher_memory_count :: "mem \<Rightarrow> int" where
  "pitcher_memory_count m = total_count m"

text \<open>The next allocation succeeds, or the next \<open>n\<close> do.\<close>

definition alloc_ok :: "mem \<Rightarrow> bool" where
  "alloc_ok m \<longleftrightarrow> calloc_res m (calloc_n m) \<noteq> 0"

definition never_null :: "mem \<Rightarrow> bool" where
  "never_null m \<longleftrightarrow> (\<forall>n \<ge> calloc_n m. calloc_res m n \<noteq> 0)"

lemmas mem_defs = libc_alloc_def pitcher_malloc_def pitcher_calloc_def pitcher_realloc_def
  pitcher_free_def pitcher_memory_count_def

lemma never_null_alloc_ok: "never_null m \<Longrightarrow> alloc_ok m"
  by (simp add: never_null_def alloc_ok_def)

lemma never_null_calloc [simp]: "never_null m \<Longrightarrow> never_null (snd (pitcher_calloc m))"
  by (simp add: never_null_def mem_defs)

lemma never_null_free [simp]: "never_null (pitcher_free m) = never_null m"
  by (simp add: never_null_def mem_defs)

lemma alloc_ok_free [simp]: "alloc_ok (pitcher_free m) = alloc_ok m"
  by (simp add: alloc_ok_def mem_defs)


section \<open>The queue\<close>

definition QUEUE_IDLE_MAX_THD :: int where
  "QUEUE_IDLE_MAX_THD = 16"

record queue_node =
  item :: u64

record queue_t =
  queue :: "queue_node list"
  idles :: "queue_node list"
  idle_num :: int
  count :: int

definition queue_alloc_node :: "mem \<Rightarrow> queue_node option \<times> mem" where
  "queue_alloc_node m =
     (case pitcher_calloc m of (p, m) \<Rightarrow> (if p = 0 then None else Some \<lparr>item = 0\<rparr>, m))"

definition queue_free_node :: "mem \<Rightarrow> mem" where
  "queue_free_node m = pitcher_free m"

definition get_idle_node :: "queue_t \<Rightarrow> mem \<Rightarrow> queue_node option \<times> queue_t \<times> mem" where
  "get_idle_node q m =
     (case idles q of
        [] \<Rightarrow> (case queue_alloc_node m of (n, m) \<Rightarrow> (n, q, m))
      | n # ns \<Rightarrow> (Some n, q\<lparr>idles := ns, idle_num := idle_num q - 1\<rparr>, m))"

definition put_idle_node :: "queue_t \<Rightarrow> queue_node option \<Rightarrow> mem \<Rightarrow> queue_t \<times> mem" where
  "put_idle_node q node m =
     (case node of
        None \<Rightarrow> (q, m)
      | Some n \<Rightarrow>
          if idle_num q < QUEUE_IDLE_MAX_THD
          then (q\<lparr>idles := idles q @ [n], idle_num := idle_num q + 1\<rparr>, m)
          else (q, queue_free_node m))"

text \<open>\<open>__remove_queue_node\<close>, for the node at position \<open>i\<close> of the queue.\<close>

definition remove_queue_node :: "queue_t \<Rightarrow> nat \<Rightarrow> queue_t" where
  "remove_queue_node q i =
     q\<lparr>queue := take i (queue q) @ drop (Suc i) (queue q), count := count q - 1\<rparr>"

definition push_node_to_queue :: "queue_t \<Rightarrow> queue_node option \<Rightarrow> int \<times> queue_t" where
  "push_node_to_queue q node =
     (case node of
        None \<Rightarrow> (err RET_E_NULL_POINTER, q)
      | Some n \<Rightarrow> (ret_val RET_OK, q\<lparr>queue := queue q @ [n], count := count q + 1\<rparr>))"

definition pop_node_from_queue :: "queue_t \<Rightarrow> queue_node option \<times> queue_t" where
  "pop_node_from_queue q =
     (case queue q of
        [] \<Rightarrow> (None, q)
      | n # _ \<Rightarrow> (Some n, remove_queue_node q 0))"

definition pitcher_init_queue :: "mem \<Rightarrow> queue_t option \<times> mem" where
  "pitcher_init_queue m =
     (case pitcher_calloc m of (p, m) \<Rightarrow>
        (if p = 0 then None else Some \<lparr>queue = [], idles = [], idle_num = 0, count = 0\<rparr>, m))"

definition pitcher_queue_push_back :: "queue_t option \<Rightarrow> u64 \<Rightarrow> mem \<Rightarrow> int \<times> queue_t option \<times> mem" where
  "pitcher_queue_push_back q x m =
     (case q of
        None \<Rightarrow> (err RET_E_NULL_POINTER, q, m)
      | Some q \<Rightarrow>
          (case get_idle_node q m of
             (None, q, m) \<Rightarrow> (err RET_E_NO_MEMORY, Some q, m)
           | (Some n, q, m) \<Rightarrow>
               (case push_node_to_queue q (Some (n\<lparr>item := x\<rparr>)) of (ret, q) \<Rightarrow> (ret, Some q, m))))"

text \<open>\<open>pitcher_queue_pop\<close> stores the item through its pointer argument on success only.\<close>

definition pitcher_queue_pop :: "queue_t option \<Rightarrow> mem \<Rightarrow> int \<times> u64 option \<times> queue_t option \<times> mem" where
  "pitcher_queue_pop q m =
     (case q of
        None \<Rightarrow> (err RET_E_NULL_POINTER, None, q, m)
      | Some q \<Rightarrow>
          (case pop_node_from_queue q of
             (None, q) \<Rightarrow> (err RET_E_EMPTY, None, Some q, m)
           | (Some n, q) \<Rightarrow>
               (case put_idle_node q (Some n) m of
                  (q, m) \<Rightarrow> (ret_val RET_OK, Some (item n), Some q, m))))"

text \<open>
  A callback \<open>int (*func)(unsigned long item, void *arg)\<close> with the state its \<open>arg\<close> gives it
  access to. The result is only tested against 0.
\<close>

type_synonym 's queue_cb = "u64 \<Rightarrow> mem \<times> 's \<Rightarrow> (bool \<times> mem \<times> 's) option"

text \<open>
  The loop of \<open>pitcher_queue_clear\<close>: every node is taken off the queue, handed to the callback
  if there is one, and put on the idle list.
\<close>

fun queue_clear_loop ::
    "queue_node list \<Rightarrow> 's queue_cb option \<Rightarrow> queue_t \<Rightarrow> mem \<Rightarrow> 's \<Rightarrow> (queue_t \<times> mem \<times> 's) option" where
  "queue_clear_loop [] func q m s = Some (q, m, s)"
| "queue_clear_loop (n # ns) func q m s =
     do {
       (m, s) \<leftarrow> (case func of
                   None \<Rightarrow> Some (m, s)
                 | Some f \<Rightarrow> map_option snd (f (item n) (m, s)));
       let (q, m) = put_idle_node (remove_queue_node q 0) (Some n) m;
       queue_clear_loop ns func q m s
     }"

definition pitcher_queue_clear ::
    "queue_t option \<Rightarrow> 's queue_cb option \<Rightarrow> mem \<Rightarrow> 's \<Rightarrow> (queue_t option \<times> mem \<times> 's) option" where
  "pitcher_queue_clear q func m s =
     (case q of
        None \<Rightarrow> Some (None, m, s)
      | Some q \<Rightarrow> do { (q, m, s) \<leftarrow> queue_clear_loop (queue q) func q m s; Some (Some q, m, s) })"

text \<open>
  \<open>pitcher_destroy_queue\<close>: the elements go to the idle list, or are freed when it is full, then
  every idle node and the queue itself are freed.
\<close>

fun queue_drain :: "queue_node list \<Rightarrow> queue_t \<Rightarrow> mem \<Rightarrow> queue_t \<times> mem" where
  "queue_drain [] q m = (q, m)"
| "queue_drain (n # ns) q m =
     (case put_idle_node (remove_queue_node q 0) (Some n) m of (q, m) \<Rightarrow> queue_drain ns q m)"

fun queue_free_idles :: "queue_node list \<Rightarrow> queue_t \<Rightarrow> mem \<Rightarrow> queue_t \<times> mem" where
  "queue_free_idles [] q m = (q, m)"
| "queue_free_idles (n # ns) q m =
     queue_free_idles ns (q\<lparr>idles := tl (idles q), idle_num := idle_num q - 1\<rparr>) (queue_free_node m)"

definition pitcher_destroy_queue :: "queue_t option \<Rightarrow> mem \<Rightarrow> mem" where
  "pitcher_destroy_queue q m =
     (case q of
        None \<Rightarrow> m
      | Some q \<Rightarrow>
          (case queue_drain (queue q) q m of
             (q, m) \<Rightarrow> (case queue_free_idles (idles q) q m of (q, m) \<Rightarrow> pitcher_free m)))"

text \<open>
  \<open>pitcher_queue_enumerate\<close>: the elements for which the callback returns non-zero are removed.
  \<open>i\<close> is the position of the node at hand in what is left of the queue.
\<close>

fun queue_enum_loop ::
    "queue_node list \<Rightarrow> nat \<Rightarrow> 's queue_cb \<Rightarrow> queue_t \<Rightarrow> mem \<Rightarrow> 's \<Rightarrow> (queue_t \<times> mem \<times> 's) option" where
  "queue_enum_loop [] i func q m s = Some (q, m, s)"
| "queue_enum_loop (n # ns) i func q m s =
     do {
       (del, m, s) \<leftarrow> func (item n) (m, s);
       if del
       then (case put_idle_node (remove_queue_node q i) (Some n) m of
               (q, m) \<Rightarrow> queue_enum_loop ns i func q m s)
       else queue_enum_loop ns (Suc i) func q m s
     }"

definition pitcher_queue_enumerate ::
    "queue_t option \<Rightarrow> 's queue_cb option \<Rightarrow> mem \<Rightarrow> 's \<Rightarrow> (queue_t option \<times> mem \<times> 's) option" where
  "pitcher_queue_enumerate q func m s =
     (case (q, func) of
        (Some q, Some f) \<Rightarrow>
          do { (q, m, s) \<leftarrow> queue_enum_loop (queue q) 0 f q m s; Some (Some q, m, s) }
      | _ \<Rightarrow> Some (q, m, s))"

definition pitcher_queue_is_empty :: "queue_t option \<Rightarrow> int" where
  "pitcher_queue_is_empty q =
     (case q of None \<Rightarrow> err RET_E_NULL_POINTER | Some q \<Rightarrow> of_bool (queue q = []))"

definition pitcher_queue_count :: "queue_t option \<Rightarrow> int" where
  "pitcher_queue_count q = (case q of None \<Rightarrow> err RET_E_EMPTY | Some q \<Rightarrow> count q)"

text \<open>
  \<open>pitcher_queue_find\<close>: at the first element that compares equal to the key the callback runs,
  the element is removed if it says so, and the search ends.
\<close>

fun queue_find_loop ::
    "queue_node list \<Rightarrow> nat \<Rightarrow> 's queue_cb option \<Rightarrow> (u64 \<Rightarrow> bool) \<Rightarrow> queue_t \<Rightarrow> mem \<Rightarrow> 's
      \<Rightarrow> (int \<times> queue_t \<times> mem \<times> 's) option" where
  "queue_find_loop [] i func cmp q m s = Some (err RET_E_NOT_FOUND, q, m, s)"
| "queue_find_loop (n # ns) i func cmp q m s =
     (if \<not> cmp (item n) then queue_find_loop ns (Suc i) func cmp q m s
      else
        (case func of
           None \<Rightarrow> Some (ret_val RET_OK, q, m, s)
         | Some f \<Rightarrow>
             do {
               (del, m, s) \<leftarrow> f (item n) (m, s);
               if del
               then (case put_idle_node (remove_queue_node q i) (Some n) m of
                       (q, m) \<Rightarrow> Some (ret_val RET_OK, q, m, s))
               else Some (ret_val RET_OK, q, m, s)
             }))"

definition pitcher_queue_find ::
    "queue_t option \<Rightarrow> 's queue_cb option \<Rightarrow> (u64 \<Rightarrow> u64 \<Rightarrow> bool) option \<Rightarrow> u64 \<Rightarrow> mem \<Rightarrow> 's
      \<Rightarrow> (int \<times> queue_t option \<times> mem \<times> 's) option" where
  "pitcher_queue_find q func cmp key m s =
     (case (q, cmp) of
        (Some q, Some c) \<Rightarrow>
          do { (r, q, m, s) \<leftarrow> queue_find_loop (queue q) 0 func (\<lambda>x. c x key) q m s;
               Some (r, Some q, m, s) }
      | _ \<Rightarrow> Some (err RET_E_INVAL, q, m, s))"


section \<open>Invariant and abstraction\<close>

definition elems :: "queue_t \<Rightarrow> u64 list" where
  "elems q = map item (queue q)"

definition nodes :: "queue_t \<Rightarrow> nat" where
  "nodes q = length (queue q) + length (idles q)"

definition queue_wf :: "queue_t \<Rightarrow> bool" where
  "queue_wf q \<longleftrightarrow> count q = int (length (queue q)) \<and> idle_num q = int (length (idles q))
     \<and> length (idles q) \<le> 16"

lemmas queue_ops = queue_alloc_node_def queue_free_node_def get_idle_node_def put_idle_node_def
  remove_queue_node_def push_node_to_queue_def pop_node_from_queue_def

lemma put_idle_node_props:
  assumes "queue_wf q" and "put_idle_node q (Some n) m = (q', m')"
  shows "queue_wf q'" "queue q' = queue q"
    "int (nodes q') - total_count m' = int (nodes q) + 1 - total_count m"
    "calloc_res m' = calloc_res m" "calloc_n m' = calloc_n m"
  using assms by (auto simp: queue_ops queue_wf_def nodes_def QUEUE_IDLE_MAX_THD_def mem_defs split: if_splits)

lemma remove_queue_node_props:
  assumes "queue_wf q" and "i < length (queue q)"
  shows "queue_wf (remove_queue_node q i)"
    "queue (remove_queue_node q i) = take i (queue q) @ drop (Suc i) (queue q)"
    "nodes (remove_queue_node q i) = nodes q - 1"
  using assms by (auto simp: queue_ops queue_wf_def nodes_def)


lemma remove_put_props:
  assumes "queue_wf q" and "queue q = front @ n # ns"
    and "put_idle_node (remove_queue_node q (length front)) (Some n) m = (q', m')"
  shows "queue_wf q'" "queue q' = front @ ns"
    "(nodes q' = nodes q \<and> m' = m) \<or> (int (nodes q') = int (nodes q) - 1 \<and> m' = pitcher_free m)"
  using assms
  by (auto simp: queue_ops queue_wf_def nodes_def QUEUE_IDLE_MAX_THD_def split: if_splits)

text \<open>
  The rule for a clear: \<open>P xs k (m, s)\<close> is the state of affairs with the elements \<open>xs\<close> still to
  come and \<open>k\<close> nodes allocated. The callback takes \<open>P\<close> past one element, and freeing a node
  keeps it for one node less.
\<close>

lemma queue_clear_loop_rule:
  assumes "queue_wf q" and "queue q = ns" and "P (map item ns) (int (nodes q)) (m, s)"
    and step: "\<And>x xs k m s. P (x # xs) k (m, s) \<Longrightarrow>
      \<exists>m' s'. (case func of None \<Rightarrow> Some (m, s) | Some f \<Rightarrow> map_option snd (f x (m, s))) = Some (m', s')
        \<and> P xs k (m', s')"
    and free: "\<And>xs k m s. P xs k (m, s) \<Longrightarrow> P xs (k - 1) (pitcher_free m, s)"
  shows "\<exists>q' m' s'. queue_clear_loop ns func q m s = Some (q', m', s')
    \<and> queue_wf q' \<and> queue q' = [] \<and> P [] (int (nodes q')) (m', s')"
  using assms(1-3)
proof (induction ns arbitrary: q m s)
  case (Cons n ns)
  obtain m1 s1 where f: "(case func of None \<Rightarrow> Some (m, s) | Some f \<Rightarrow> map_option snd (f (item n) (m, s))) = Some (m1, s1)"
    and p: "P (map item ns) (int (nodes q)) (m1, s1)"
    using step [of "item n" "map item ns" "int (nodes q)" m s] Cons.prems(3) by auto
  obtain q2 m2 where put: "put_idle_node (remove_queue_node q 0) (Some n) m1 = (q2, m2)" by force
  have rp: "queue_wf q2" "queue q2 = ns" "P (map item ns) (int (nodes q2)) (m2, s1)"
    using remove_put_props [OF Cons.prems(1), of "[]" n ns m1 q2 m2] Cons.prems(2) put p free [OF p] by auto
  show ?case using Cons.IH [OF rp] f put by simp
qed auto

lemma queue_drain_props:
  assumes "queue_wf q" and "queue q = ns" and "queue_drain ns q m = (q', m')"
  shows "queue_wf q' \<and> queue q' = [] \<and> int (nodes q') - total_count m' = int (nodes q) - total_count m"
  using assms
proof (induction ns arbitrary: q m)
  case (Cons n ns)
  obtain q2 m2 where put: "put_idle_node (remove_queue_node q 0) (Some n) m = (q2, m2)" by force
  note rp = remove_put_props [OF Cons.prems(1), of "[]" n ns m q2 m2]
  show ?case using Cons.IH [of q2 m2] rp Cons.prems put by (auto simp: mem_defs)
qed auto

text \<open>
  The rule for an enumeration: \<open>P ys xs k (m, s)\<close> with the elements \<open>ys\<close> kept so far and \<open>xs\<close>
  still to come.
\<close>

lemma queue_enum_loop_rule:
  assumes "queue_wf q" and "queue q = front @ ns"
    and "P (map item front) (map item ns) (int (nodes q)) (m, s)"
    and step: "\<And>ys x xs k m s. P ys (x # xs) k (m, s) \<Longrightarrow>
      \<exists>b m' s'. f x (m, s) = Some (b, m', s') \<and> P (if b then ys else ys @ [x]) xs k (m', s')"
    and free: "\<And>ys xs k m s. P ys xs k (m, s) \<Longrightarrow> P ys xs (k - 1) (pitcher_free m, s)"
  shows "\<exists>q' m' s'. queue_enum_loop ns (length front) f q m s = Some (q', m', s')
    \<and> queue_wf q' \<and> P (elems q') [] (int (nodes q')) (m', s')"
  using assms(1-3)
proof (induction ns arbitrary: front q m s)
  case (Cons n ns)
  obtain b m1 s1 where f: "f (item n) (m, s) = Some (b, m1, s1)"
    and p: "P (if b then map item front else map item front @ [item n]) (map item ns) (int (nodes q)) (m1, s1)"
    using step [of "map item front" "item n" "map item ns" "int (nodes q)" m s] Cons.prems(3) by auto
  show ?case
  proof (cases b)
    case True
    then have p': "P (map item front) (map item ns) (int (nodes q)) (m1, s1)" using p by simp
    obtain q2 m2 where put: "put_idle_node (remove_queue_node q (length front)) (Some n) m1 = (q2, m2)" by force
    have rp: "queue_wf q2" "queue q2 = front @ ns" "P (map item front) (map item ns) (int (nodes q2)) (m2, s1)"
      using remove_put_props [OF Cons.prems(1,2) put] p' free [OF p'] by auto
    show ?thesis using Cons.IH [OF rp] f put True by simp
  next
    case False
    then show ?thesis using Cons.IH [of q "front @ [n]" m1 s1] Cons.prems f p by simp
  qed
qed (auto simp: elems_def)

lemma pitcher_queue_clear_rule:
  assumes "queue_wf q" and "P (elems q) (int (nodes q)) (m, s)"
    and "\<And>x xs k m s. P (x # xs) k (m, s) \<Longrightarrow>
      \<exists>m' s'. (case func of None \<Rightarrow> Some (m, s) | Some f \<Rightarrow> map_option snd (f x (m, s))) = Some (m', s')
        \<and> P xs k (m', s')"
    and "\<And>xs k m s. P xs k (m, s) \<Longrightarrow> P xs (k - 1) (pitcher_free m, s)"
  shows "\<exists>q' m' s'. pitcher_queue_clear (Some q) func m s = Some (Some q', m', s')
    \<and> queue_wf q' \<and> elems q' = [] \<and> P [] (int (nodes q')) (m', s')"
  using queue_clear_loop_rule [where P = P and func = func, OF assms(1) refl _ assms(3,4), of m s] assms(2)
  by (auto simp: pitcher_queue_clear_def elems_def)

lemma pitcher_queue_enumerate_rule:
  assumes "queue_wf q" and "P [] (elems q) (int (nodes q)) (m, s)"
    and "\<And>ys x xs k m s. P ys (x # xs) k (m, s) \<Longrightarrow>
      \<exists>b m' s'. f x (m, s) = Some (b, m', s') \<and> P (if b then ys else ys @ [x]) xs k (m', s')"
    and "\<And>ys xs k m s. P ys xs k (m, s) \<Longrightarrow> P ys xs (k - 1) (pitcher_free m, s)"
  shows "\<exists>q' m' s'. pitcher_queue_enumerate (Some q) (Some f) m s = Some (Some q', m', s')
    \<and> queue_wf q' \<and> P (elems q') [] (int (nodes q')) (m', s')"
  using queue_enum_loop_rule [where P = P and f = f and front = "[]", OF assms(1) _ _ assms(3,4), of "queue q" m s] assms(2)
  by (auto simp: pitcher_queue_enumerate_def elems_def)

text \<open>A callback that works on its own state alone.\<close>

definition cb_of :: "(u64 \<Rightarrow> 's \<Rightarrow> bool \<times> 's) \<Rightarrow> 's queue_cb" where
  "cb_of f = (\<lambda>x (m, s). case f x s of (b, s) \<Rightarrow> Some (b, m, s))"

lemma cb_of_simp [simp]: "cb_of f x (m, s) = Some (fst (f x s), m, snd (f x s))"
  by (simp add: cb_of_def split: prod.splits)

text \<open>The allocator's view: what an operation may change of it, and the balance it keeps.\<close>

definition same_alloc :: "mem \<Rightarrow> mem \<Rightarrow> bool" where
  "same_alloc m m' \<longleftrightarrow> calloc_res m' = calloc_res m \<and> calloc_n m' = calloc_n m"

lemma same_alloc_free [simp]: "same_alloc m (pitcher_free m') = same_alloc m m'"
  by (simp add: same_alloc_def mem_defs)

lemma same_alloc_refl [simp]: "same_alloc m m"
  by (simp add: same_alloc_def)

lemma same_alloc_never_null: "same_alloc m m' \<Longrightarrow> never_null m \<Longrightarrow> never_null m'"
  by (simp add: same_alloc_def never_null_def)

lemma total_count_free [simp]: "total_count (pitcher_free m) = total_count m - 1"
  by (simp add: mem_defs)

text \<open>What an enumeration leaves, on the plain list.\<close>

fun enum_spec :: "(u64 \<Rightarrow> 's \<Rightarrow> bool \<times> 's) \<Rightarrow> u64 list \<Rightarrow> 's \<Rightarrow> u64 list \<times> 's" where
  "enum_spec func [] s = ([], s)"
| "enum_spec func (x # xs) s =
     (case func x s of (b, s1) \<Rightarrow>
        (case enum_spec func xs s1 of (ys, s2) \<Rightarrow> (if b then ys else x # ys, s2)))"

lemma enumerate_cb_of:
  assumes "queue_wf q"
  shows "\<exists>q' m'. pitcher_queue_enumerate (Some q) (Some (cb_of f)) m s
      = Some (Some q', m', snd (enum_spec f (elems q) s))
    \<and> queue_wf q' \<and> elems q' = fst (enum_spec f (elems q) s)
    \<and> int (nodes q') - total_count m' = int (nodes q) - total_count m \<and> same_alloc m m'"
proof -
  define P where "P = (\<lambda>ys xs k (m', s'). ys @ fst (enum_spec f xs s') = fst (enum_spec f (elems q) s)
    \<and> snd (enum_spec f xs s') = snd (enum_spec f (elems q) s)
    \<and> k - total_count m' = int (nodes q) - total_count m \<and> same_alloc m m')"
  have init: "P [] (elems q) (int (nodes q)) (m, s)" by (simp add: P_def)
  have step: "\<exists>b m2 s2. cb_of f x (m1, s1) = Some (b, m2, s2) \<and> P (if b then ys else ys @ [x]) xs k (m2, s2)"
    if "P ys (x # xs) k (m1, s1)" for ys x xs k m1 s1
    using that by (auto simp: P_def split: prod.splits if_splits)
  have free: "P ys xs (k - 1) (pitcher_free m1, s1)" if "P ys xs k (m1, s1)" for ys xs k m1 s1
    using that by (simp add: P_def)
  show ?thesis
    using pitcher_queue_enumerate_rule [where P = P and f = "cb_of f", OF assms init step free]
    by (auto simp: P_def)
qed

lemma clear_cb_of:
  assumes "queue_wf q"
  shows "\<exists>q' m'. pitcher_queue_clear (Some q) (map_option cb_of f) m s
      = Some (Some q', m', (case f of None \<Rightarrow> s | Some f \<Rightarrow> fold (\<lambda>x s. snd (f x s)) (elems q) s))
    \<and> queue_wf q' \<and> elems q' = []
    \<and> int (nodes q') - total_count m' = int (nodes q) - total_count m \<and> same_alloc m m'"
proof -
  let ?r = "\<lambda>xs s. case f of None \<Rightarrow> s | Some f \<Rightarrow> fold (\<lambda>x s. snd (f x s)) xs s"
  define P where "P = (\<lambda>xs k (m', s'). ?r xs s' = ?r (elems q) s
    \<and> k - total_count m' = int (nodes q) - total_count m \<and> same_alloc m m')"
  have init: "P (elems q) (int (nodes q)) (m, s)" by (simp add: P_def)
  have step: "\<exists>m2 s2. (case map_option cb_of f of None \<Rightarrow> Some (m1, s1)
      | Some f \<Rightarrow> map_option snd (f x (m1, s1))) = Some (m2, s2) \<and> P xs k (m2, s2)"
    if "P (x # xs) k (m1, s1)" for x xs k m1 s1
    using that by (auto simp: P_def split: option.splits)
  have free: "P xs (k - 1) (pitcher_free m1, s1)" if "P xs k (m1, s1)" for xs k m1 s1
    using that by (simp add: P_def)
  show ?thesis
    using pitcher_queue_clear_rule [where P = P and func = "map_option cb_of f", OF assms init step free]
    by (auto simp: P_def split: option.splits)
qed

lemma queue_free_idles_props:
  "queue_free_idles ns q m = (q', m') \<Longrightarrow> total_count m' = total_count m - int (length ns)"
  by (induction ns q m rule: queue_free_idles.induct) (auto simp: queue_ops mem_defs)


section \<open>The queue as a FIFO\<close>

text \<open>
  The interface: operations on a queue \<open>'q\<close> and the allocator state, a well-formedness
  predicate and the list of the elements. Only a push allocates, and only a failed allocation
  makes it fail.
\<close>

fun push_all :: "('q \<Rightarrow> u64 \<Rightarrow> mem \<Rightarrow> int \<times> 'q \<times> mem) \<Rightarrow> u64 list \<Rightarrow> 'q \<Rightarrow> mem \<Rightarrow> 'q \<times> mem" where
  "push_all push [] q m = (q, m)"
| "push_all push (x # xs) q m = (case push q x m of (_, q, m) \<Rightarrow> push_all push xs q m)"

fun pop_n :: "('q \<Rightarrow> mem \<Rightarrow> int \<times> u64 option \<times> 'q \<times> mem) \<Rightarrow> nat \<Rightarrow> 'q \<Rightarrow> mem \<Rightarrow> u64 list \<times> 'q \<times> mem" where
  "pop_n pop 0 q m = ([], q, m)"
| "pop_n pop (Suc n) q m =
     (case pop q m of
        (_, None, q, m) \<Rightarrow> ([], q, m)
      | (_, Some x, q, m) \<Rightarrow> (case pop_n pop n q m of (xs, q, m) \<Rightarrow> (x # xs, q, m)))"

locale fifo =
  fixes wf :: "'q \<Rightarrow> bool"
    and els :: "'q \<Rightarrow> u64 list"
    and owned :: "'q \<Rightarrow> int"
    and push :: "'q \<Rightarrow> u64 \<Rightarrow> mem \<Rightarrow> int \<times> 'q \<times> mem"
    and pop :: "'q \<Rightarrow> mem \<Rightarrow> int \<times> u64 option \<times> 'q \<times> mem"
  assumes push_ok: "wf q \<Longrightarrow> push q x m = (0, q', m') \<Longrightarrow>
      wf q' \<and> els q' = els q @ [x] \<and> owned q' - total_count m' = owned q - total_count m"
    and push_fail: "wf q \<Longrightarrow> push q x m = (r, q', m') \<Longrightarrow> r \<noteq> 0 \<Longrightarrow>
      r = err RET_E_NO_MEMORY \<and> wf q' \<and> els q' = els q \<and> \<not> alloc_ok m"
    and push_mem: "push q x m = (r, q', m') \<Longrightarrow> never_null m \<Longrightarrow> never_null m'"
    and pop_empty: "wf q \<Longrightarrow> els q = [] \<Longrightarrow> pop q m = (err RET_E_EMPTY, None, q, m)"
    and pop_first: "wf q \<Longrightarrow> els q = x # xs \<Longrightarrow>
      \<exists>q' m'. pop q m = (0, Some x, q', m') \<and> wf q' \<and> els q' = xs
        \<and> owned q' - total_count m' = owned q - total_count m \<and> never_null m' = never_null m"
begin

lemma push_never_null:
  assumes "wf q" and "never_null m" and "push q x m = (r, q', m')"
  shows "r = 0 \<and> wf q' \<and> els q' = els q @ [x] \<and> never_null m'
    \<and> owned q' - total_count m' = owned q - total_count m"
  using assms push_ok push_fail push_mem never_null_alloc_ok by metis

lemma push_all_props:
  assumes "wf q" and "never_null m" and "push_all push xs q m = (q', m')"
  shows "wf q' \<and> els q' = els q @ xs \<and> never_null m'
    \<and> owned q' - total_count m' = owned q - total_count m"
  using assms
proof (induction xs arbitrary: q m)
  case (Cons x xs)
  obtain r q1 m1 where p: "push q x m = (r, q1, m1)" by (rule prod_cases3)
  note one = push_never_null [OF Cons.prems(1,2) p]
  have rest: "push_all push xs q1 m1 = (q', m')" using Cons.prems(3) p by simp
  then show ?case using Cons.IH [of q1 m1] one by auto
qed simp

lemma pop_n_props:
  assumes "wf q"
  shows "\<exists>q' m'. pop_n pop n q m = (take n (els q), q', m') \<and> wf q' \<and> els q' = drop n (els q)
    \<and> owned q' - total_count m' = owned q - total_count m \<and> never_null m' = never_null m"
  using assms
proof (induction n arbitrary: q m)
  case (Suc n)
  show ?case
  proof (cases "els q")
    case Nil
    then show ?thesis using pop_empty Suc.prems by simp
  next
    case (Cons x xs)
    obtain q1 m1 where p: "pop q m = (0, Some x, q1, m1)" "wf q1" "els q1 = xs"
      "owned q1 - total_count m1 = owned q - total_count m" "never_null m1 = never_null m"
      using pop_first [OF Suc.prems Cons, of m] by blast
    obtain q2 m2 where "pop_n pop n q1 m1 = (take n xs, q2, m2) \<and> wf q2 \<and> els q2 = drop n xs
       \<and> owned q2 - total_count m2 = owned q1 - total_count m1 \<and> never_null m2 = never_null m1"
      using Suc.IH [OF p(2), of m1] p(3) by auto
    then show ?thesis using p Cons by simp
  qed
qed simp

text \<open>First in, first out: after pushing \<open>xs\<close>, popping returns what was there, then \<open>xs\<close>.\<close>

lemma push_pop_order:
  assumes "wf q" and "never_null m" and "push_all push xs q m = (q1, m1)"
    and "pop_n pop n q1 m1 = (ys, q2, m2)"
  shows "ys = take n (els q @ xs)" "wf q2" "els q2 = drop n (els q @ xs)"
    "owned q2 - total_count m2 = owned q - total_count m"
  using push_all_props [OF assms(1-3)] pop_n_props [of q1 n m1] assms(4) by auto

end


section \<open>The queue implements the interface\<close>

definition qwf :: "queue_t option \<Rightarrow> bool" where
  "qwf q = (case q of None \<Rightarrow> False | Some q \<Rightarrow> queue_wf q)"

definition qels :: "queue_t option \<Rightarrow> u64 list" where
  "qels q = (case q of None \<Rightarrow> [] | Some q \<Rightarrow> elems q)"

text \<open>The allocations a queue owns: the queue object and its nodes, used or idle.\<close>

definition qowned :: "queue_t option \<Rightarrow> int" where
  "qowned q = (case q of None \<Rightarrow> 0 | Some q \<Rightarrow> 1 + int (nodes q))"

lemmas qdefs = qwf_def qels_def qowned_def

lemma push_back_ok:
  assumes "qwf q" and "pitcher_queue_push_back q x m = (0, q', m')"
  shows "qwf q' \<and> qels q' = qels q @ [x] \<and> qowned q' - total_count m' = qowned q - total_count m"
  using assms
  by (auto simp: qdefs pitcher_queue_push_back_def queue_ops queue_wf_def elems_def nodes_def mem_defs
      split: option.splits list.splits if_splits)

lemma push_back_fail:
  assumes "qwf q" and "pitcher_queue_push_back q x m = (r, q', m')" and "r \<noteq> 0"
  shows "r = err RET_E_NO_MEMORY \<and> qwf q' \<and> qels q' = qels q \<and> \<not> alloc_ok m"
  using assms
  by (auto simp: qdefs pitcher_queue_push_back_def queue_ops alloc_ok_def mem_defs
      split: option.splits list.splits if_splits)

lemma push_back_mem:
  "pitcher_queue_push_back q x m = (r, q', m') \<Longrightarrow> never_null m \<Longrightarrow> never_null m'"
  by (auto simp: pitcher_queue_push_back_def queue_ops never_null_def mem_defs
      split: option.splits list.splits if_splits)

lemma queue_pop_empty:
  "qwf q \<Longrightarrow> qels q = [] \<Longrightarrow> pitcher_queue_pop q m = (err RET_E_EMPTY, None, q, m)"
  by (auto simp: qdefs elems_def pitcher_queue_pop_def queue_ops split: option.splits)

lemma queue_pop_first:
  assumes "qwf q" and "qels q = x # xs"
  shows "\<exists>q' m'. pitcher_queue_pop q m = (0, Some x, q', m') \<and> qwf q' \<and> qels q' = xs
    \<and> qowned q' - total_count m' = qowned q - total_count m \<and> never_null m' = never_null m"
proof -
  obtain r where r: "q = Some r" "queue_wf r" using assms by (auto simp: qdefs split: option.splits)
  obtain n ns where n: "queue r = n # ns" "item n = x" "map item ns = xs"
    using assms r by (auto simp: qdefs elems_def)
  have len: "0 < length (queue r)" using n by simp
  note rm = remove_queue_node_props [OF r(2) len]
  obtain q1 m1 where put: "put_idle_node (remove_queue_node r 0) (Some n) m = (q1, m1)" by force
  note pp = put_idle_node_props [OF rm(1) put]
  have "pitcher_queue_pop q m = (0, Some x, Some q1, m1)"
    using r n put by (simp add: pitcher_queue_pop_def pop_node_from_queue_def)
  moreover have "queue q1 = ns" using pp(2) rm(2) n by simp
  moreover have "1 \<le> nodes r" using n by (simp add: nodes_def)
  ultimately show ?thesis using pp r n rm(3)
    by (simp add: qdefs elems_def never_null_def)
qed

interpretation qfifo: fifo qwf qels qowned pitcher_queue_push_back pitcher_queue_pop
  by unfold_locales
    (fact push_back_ok, fact push_back_fail, fact push_back_mem, fact queue_pop_empty,
     fact queue_pop_first)


section \<open>Properties\<close>

text \<open>C5: The queue is first in, first out. After pushing \<open>xs\<close> onto a well-formed queue with an
  allocator that does not fail, \<open>n\<close> pops return the first \<open>n\<close> of the old elements followed by
  \<open>xs\<close>, in order; the rest stays queued, and one more pop returns \<open>-RET_E_EMPTY\<close> exactly when
  nothing is left.\<close>

theorem queue_fifo:
  assumes "qwf q" and "never_null m"
    and "push_all pitcher_queue_push_back xs q m = (q1, m1)"
    and "pop_n pitcher_queue_pop n q1 m1 = (ys, q2, m2)"
  shows "ys = take n (qels q @ xs) \<and> qels q2 = drop n (qels q @ xs) \<and> qwf q2
    \<and> (fst (pitcher_queue_pop q2 m2) = err RET_E_EMPTY \<longleftrightarrow> length (qels q @ xs) \<le> n)"
proof -
  note pp = qfifo.push_pop_order [OF assms]
  have "fst (pitcher_queue_pop q2 m2) = err RET_E_EMPTY \<longleftrightarrow> qels q2 = []"
    using qfifo.pop_empty [OF pp(2), of m2] qfifo.pop_first [OF pp(2), of _ _ m2]
    by (cases "qels q2") force+
  then show ?thesis using pp by auto
qed

definition demo_mem :: mem where
  "demo_mem = \<lparr>total_count = 0, calloc_res = (\<lambda>_. 1), calloc_n = 0\<rparr>"

lemma never_null_demo [simp]: "never_null demo_mem"
  by (simp add: never_null_def demo_mem_def)

theorem queue_fifo_witness:
  "fst (pop_n pitcher_queue_pop 2
     (fst (push_all pitcher_queue_push_back [7, 8, 9] (fst (pitcher_init_queue demo_mem)) demo_mem))
     demo_mem) = [7, 8]"
proof -
  let ?q = "fst (pitcher_init_queue demo_mem)"
  obtain q1 m1 where a: "push_all pitcher_queue_push_back [7, 8, 9] ?q demo_mem = (q1, m1)" by force
  obtain ys q2 m2 where b: "pop_n pitcher_queue_pop 2 q1 m1 = (ys, q2, m2)" by (rule prod_cases3)
  have init: "qwf ?q" "qels ?q = []"
    by (simp_all add: qdefs pitcher_init_queue_def demo_mem_def mem_defs queue_wf_def elems_def)
  have "ys = [7, 8]" using queue_fifo [OF init(1) never_null_demo a b] init by simp
  moreover have "fst (pop_n pitcher_queue_pop 2 q1 demo_mem) = fst (pop_n pitcher_queue_pop 2 q1 m1)"
    using qfifo.push_all_props [OF init(1) never_null_demo a]
      qfifo.pop_n_props [of q1 2 demo_mem] qfifo.pop_n_props [of q1 2 m1] by auto
  ultimately show ?thesis using a b by simp
qed


text \<open>
  What a search leaves: the first match is dropped if the callback says so; the callback ran on
  it alone.
\<close>

fun find_spec :: "(u64 \<Rightarrow> 's \<Rightarrow> bool \<times> 's) option \<Rightarrow> (u64 \<Rightarrow> bool) \<Rightarrow> u64 list \<Rightarrow> 's \<Rightarrow> int \<times> u64 list \<times> 's" where
  "find_spec func cmp [] s = (err RET_E_NOT_FOUND, [], s)"
| "find_spec func cmp (x # xs) s =
     (if cmp x
      then (case func of
              None \<Rightarrow> (0, x # xs, s)
            | Some f \<Rightarrow> (case f x s of (b, s1) \<Rightarrow> (0, if b then xs else x # xs, s1)))
      else (case find_spec func cmp xs s of (r, ys, s1) \<Rightarrow> (r, x # ys, s1)))"

lemma queue_find_loop_props:
  assumes "queue_wf q" and "queue q = front @ ns"
  shows "\<exists>q' m'. queue_find_loop ns (length front) (map_option cb_of f) cmp q m s
      = Some (fst (find_spec f cmp (map item ns) s), q', m', snd (snd (find_spec f cmp (map item ns) s)))
    \<and> queue_wf q' \<and> elems q' = map item front @ fst (snd (find_spec f cmp (map item ns) s))
    \<and> int (nodes q') - total_count m' = int (nodes q) - total_count m \<and> same_alloc m m'"
  using assms
proof (induction ns arbitrary: front)
  case (Cons n ns)
  obtain q2 m2 where put: "put_idle_node (remove_queue_node q (length front)) (Some n) m = (q2, m2)" by force
  note rp = remove_put_props [OF Cons.prems put]
  note IH = Cons.IH [of "front @ [n]"]
  show ?case using IH rp put Cons.prems
    by (cases f) (auto simp: elems_def split: prod.splits)
qed (auto simp: elems_def)

text \<open>\<open>pitcher_queue_enumerate\<close> calls the callback on every element in queue order, threading
  its state, and removes exactly the elements for which it returned non-zero; the order of the
  others, the invariant and the account of allocated nodes are kept.\<close>

theorem queue_enumerate_correct:
  assumes "queue_wf q"
  shows "\<exists>q' m'. pitcher_queue_enumerate (Some q) (Some (cb_of f)) m s
      = Some (q', m', snd (enum_spec f (elems q) s))
    \<and> qwf q' \<and> qels q' = fst (enum_spec f (elems q) s)
    \<and> qowned q' - total_count m' = qowned (Some q) - total_count m"
  using enumerate_cb_of [OF assms, of f m s] by (auto simp: qdefs)

theorem queue_enumerate_correct_witness:
  "\<exists>q' m'. pitcher_queue_enumerate
     (Some \<lparr>queue = [\<lparr>item = 4\<rparr>, \<lparr>item = 5\<rparr>, \<lparr>item = 6\<rparr>], idles = [], idle_num = 0, count = 3\<rparr>)
     (Some (cb_of (\<lambda>x n. (x = 5, n + unat x)))) demo_mem 0 = Some (q', m', 15) \<and> qels q' = [4, 6]"
proof -
  let ?q = "\<lparr>queue = [\<lparr>item = 4\<rparr>, \<lparr>item = 5\<rparr>, \<lparr>item = 6\<rparr>], idles = [], idle_num = 0, count = 3\<rparr>"
  have wf: "queue_wf ?q" by (simp add: queue_wf_def)
  from queue_enumerate_correct [OF wf, of "\<lambda>x n. (x = 5, n + unat x)" demo_mem 0]
  show ?thesis by (auto simp: elems_def)
qed

text \<open>\<open>pitcher_queue_find\<close> returns 0 exactly when an element compares equal to the key; it
  runs the callback on the first such element only, removes that element if the callback says
  so, and leaves every other element and their order alone.\<close>

theorem queue_find_correct:
  assumes "queue_wf q"
  shows "\<exists>r q' m' s'. pitcher_queue_find (Some q) (map_option cb_of f) (Some c) key m s = Some (r, q', m', s')
    \<and> qwf q' \<and> (r, qels q', s') = find_spec f (\<lambda>x. c x key) (elems q) s
    \<and> (r = 0 \<longleftrightarrow> (\<exists>x \<in> set (elems q). c x key))
    \<and> qowned q' - total_count m' = qowned (Some q) - total_count m"
proof -
  have found: "fst (find_spec f (\<lambda>x. c x key) xs s) = 0 \<longleftrightarrow> (\<exists>x \<in> set xs. c x key)" for xs
    by (induction xs) (auto split: option.splits prod.splits)
  obtain r ys s' where sp: "find_spec f (\<lambda>x. c x key) (elems q) s = (r, ys, s')" by (rule prod_cases3)
  then have "r = 0 \<longleftrightarrow> (\<exists>x \<in> set (elems q). c x key)" using found [of "elems q"] by simp
  then show ?thesis
    using queue_find_loop_props [OF assms, of "[]" "queue q" f "\<lambda>x. c x key" m s] sp
    by (auto simp: pitcher_queue_find_def qdefs elems_def [symmetric])
qed

theorem queue_find_correct_witness:
  "\<exists>q' m'. pitcher_queue_find
     (Some \<lparr>queue = [\<lparr>item = 4\<rparr>, \<lparr>item = 5\<rparr>, \<lparr>item = 5\<rparr>], idles = [], idle_num = 0, count = 3\<rparr>)
     (Some (cb_of (\<lambda>x n. (True, Suc n)))) (Some (=)) 5 demo_mem 0 = Some (0, q', m', 1) \<and> qels q' = [4, 5]"
proof -
  let ?q = "\<lparr>queue = [\<lparr>item = 4\<rparr>, \<lparr>item = 5\<rparr>, \<lparr>item = 5\<rparr>], idles = [], idle_num = 0, count = 3\<rparr>"
  have wf: "queue_wf ?q" by (simp add: queue_wf_def)
  from queue_find_correct [OF wf, of "Some (\<lambda>x n. (True, Suc n))" "(=)" 5 demo_mem 0]
  show ?thesis by (auto simp: elems_def)
qed

text \<open>A client of one queue: any sequence of operations between init and destroy.\<close>

datatype 's queue_op =
    Push u64
  | Pop
  | Clear "(u64 \<Rightarrow> 's \<Rightarrow> bool \<times> 's) option"
  | Enumerate "(u64 \<Rightarrow> 's \<Rightarrow> bool \<times> 's) option"
  | Find "(u64 \<Rightarrow> 's \<Rightarrow> bool \<times> 's) option" "(u64 \<Rightarrow> u64 \<Rightarrow> bool) option" u64

type_synonym 's queue_client = "queue_t option \<times> mem \<times> 's"

fun queue_step :: "'s queue_op \<Rightarrow> 's queue_client \<Rightarrow> 's queue_client option" where
  "queue_step (Push x) (q, m, s) = (case pitcher_queue_push_back q x m of (_, q, m) \<Rightarrow> Some (q, m, s))"
| "queue_step Pop (q, m, s) = (case pitcher_queue_pop q m of (_, _, q, m) \<Rightarrow> Some (q, m, s))"
| "queue_step (Clear f) (q, m, s) = pitcher_queue_clear q (map_option cb_of f) m s"
| "queue_step (Enumerate f) (q, m, s) = pitcher_queue_enumerate q (map_option cb_of f) m s"
| "queue_step (Find f c key) (q, m, s) =
     map_option snd (pitcher_queue_find q (map_option cb_of f) c key m s)"

fun queue_run :: "'s queue_op list \<Rightarrow> 's queue_client \<Rightarrow> 's queue_client option" where
  "queue_run [] st = Some st"
| "queue_run (op # ops) st = do { st \<leftarrow> queue_step op st; queue_run ops st }"

definition queue_inv :: "int \<Rightarrow> 's queue_client \<Rightarrow> bool" where
  "queue_inv c st = (case st of (q, m, _) \<Rightarrow> qwf q \<and> never_null m \<and> total_count m - qowned q = c)"

lemma queue_step_inv: "queue_inv c st \<Longrightarrow> \<exists>st'. queue_step op st = Some st' \<and> queue_inv c st'"
proof -
  assume inv: "queue_inv c st"
  obtain q m s where st: "st = (Some q, m, s)" and wf: "queue_wf q" and nn: "never_null m"
    and c: "total_count m - qowned (Some q) = c"
    using inv by (auto simp: queue_inv_def qwf_def split: option.splits prod.splits)
  have qwf: "qwf (Some q)" using wf by (simp add: qwf_def)
  note inv_defs = queue_inv_def qdefs same_alloc_never_null [OF _ nn]
  show ?thesis
  proof (cases op)
    case (Push x)
    obtain r q1 m1 where p: "pitcher_queue_push_back (Some q) x m = (r, q1, m1)" by (rule prod_cases3)
    show ?thesis using qfifo.push_never_null [OF qwf nn p] st p Push c by (auto simp: queue_inv_def)
  next
    case Pop
    show ?thesis
    proof (cases "qels (Some q)")
      case Nil
      then show ?thesis using qfifo.pop_empty [OF qwf Nil, of m] inv st Pop by simp
    next
      case (Cons x xs)
      then show ?thesis using qfifo.pop_first [OF qwf Cons, of m] st Pop c nn by (auto simp: queue_inv_def)
    qed
  next
    case (Clear f)
    then show ?thesis using clear_cb_of [OF wf, of f m s] st c by (auto simp: inv_defs)
  next
    case (Enumerate f)
    show ?thesis
    proof (cases f)
      case None
      then show ?thesis using Enumerate inv st by (simp add: pitcher_queue_enumerate_def)
    next
      case (Some g)
      then show ?thesis using Enumerate enumerate_cb_of [OF wf, of g m s] st c by (auto simp: inv_defs)
    qed
  next
    case (Find f cm key)
    show ?thesis
    proof (cases cm)
      case None
      then show ?thesis using Find inv st by (simp add: pitcher_queue_find_def)
    next
      case (Some g)
      then show ?thesis using Find queue_find_loop_props [OF wf, of "[]" "queue q" f "\<lambda>x. g x key" m s] st c
        by (auto simp: inv_defs pitcher_queue_find_def)
    qed
  qed
qed

lemma queue_run_inv: "queue_inv c st \<Longrightarrow> \<exists>st'. queue_run ops st = Some st' \<and> queue_inv c st'"
proof (induction ops arbitrary: st)
  case (Cons op ops)
  then show ?case using queue_step_inv [OF Cons.prems, of op] by auto
qed simp

lemma pitcher_destroy_queue_count:
  assumes "queue_wf q"
  shows "total_count (pitcher_destroy_queue (Some q) m) = total_count m - qowned (Some q)"
proof -
  obtain q1 m1 where l: "queue_drain (queue q) q m = (q1, m1)" by force
  obtain q2 m2 where f: "queue_free_idles (idles q1) q1 m1 = (q2, m2)" by force
  show ?thesis using queue_drain_props [OF assms refl l] queue_free_idles_props [OF f] l f
    by (auto simp: pitcher_destroy_queue_def qdefs nodes_def)
qed

text \<open>C6: Nothing leaks and nothing gets stuck. Create a queue, run any sequence of pushes, pops,
  clears, enumerations and searches on it: every one of them returns, and after the queue is
  destroyed \<open>pitcher_memory_count\<close> is what it was before, as long as the allocator did not
  fail.\<close>

theorem queue_no_leak:
  assumes "never_null m" and "pitcher_init_queue m = (q, m0)"
  shows "\<exists>q1 m1 s1. queue_run ops (q, m0, s) = Some (q1, m1, s1)
    \<and> pitcher_memory_count (pitcher_destroy_queue q1 m1) = pitcher_memory_count m"
proof -
  have "queue_inv (total_count m) (q, m0, s)"
    using assms by (auto simp: queue_inv_def pitcher_init_queue_def qdefs queue_wf_def nodes_def
        never_null_def mem_defs split: if_splits)
  then obtain st' where st': "queue_run ops (q, m0, s) = Some st'" "queue_inv (total_count m) st'"
    using queue_run_inv [of _ _ ops] by blast
  obtain q1 m1 s1 where e: "st' = (q1, m1, s1)" by (rule prod_cases3)
  have "total_count (pitcher_destroy_queue q1 m1) = total_count m"
    using st'(2) e pitcher_destroy_queue_count [of _ m1]
    by (auto simp: queue_inv_def qwf_def split: option.splits)
  then show ?thesis using st' e by (simp add: pitcher_memory_count_def)
qed

theorem queue_no_leak_witness:
  "\<exists>q m0 q1 m1. pitcher_init_queue demo_mem = (q, m0)
     \<and> queue_run [Push 3, Push 4, Pop, Clear None, Push 1] (q, m0, ()) = Some (q1, m1, ())
     \<and> pitcher_memory_count m1 = 3 \<and> pitcher_memory_count (pitcher_destroy_queue q1 m1) = 0"
proof -
  obtain q m0 where i: "pitcher_init_queue demo_mem = (q, m0)" by force
  from queue_no_leak [OF never_null_demo i, of "[Push 3, Push 4, Pop, Clear None, Push 1]" "()"]
  obtain q1 m1 where f: "queue_run [Push 3, Push 4, Pop, Clear None, Push 1] (q, m0, ()) = Some (q1, m1, ())"
    and d: "pitcher_memory_count (pitcher_destroy_queue q1 m1) = pitcher_memory_count demo_mem" by auto
  have "pitcher_memory_count m1 = 3"
    using i f by (auto simp: pitcher_init_queue_def mem_defs demo_mem_def pitcher_queue_push_back_def
        pitcher_queue_pop_def pitcher_queue_clear_def queue_ops QUEUE_IDLE_MAX_THD_def)
  moreover have "pitcher_memory_count demo_mem = 0" by (simp add: mem_defs demo_mem_def)
  ultimately show ?thesis using i f d by auto
qed

end
