(* ===== verification/Buffer.thy ===== *)
theory Buffer
  imports Queue
begin

text \<open>
  Reference-counted objects (\<open>pitcher/obj.c\<close>) and the buffers built on them
  (\<open>pitcher/buffer.c\<close>).

  The heap maps the address of an \<open>ext_buffer\<close> to its contents. \<open>struct pitcher_buffer\<close> is its
  first member, so both have the same address and \<open>container_of\<close> is the identity. The address 0
  is \<open>NULL\<close>; an access through \<open>NULL\<close>, through a pointer to a freed buffer, or a failed
  \<open>assert\<close>, is the result \<open>None\<close>. Function pointers are addresses too: the record \<open>buf_env\<close> says
  what the code behind an address does to a world \<open>'w\<close> that extends the heap. The mutex of an
  object is not modelled: the model is sequential.
\<close>

section \<open>Objects and buffers\<close>

record pitcher_obj =
  refcount :: u32
  obj_name :: string
  release :: u64

record buf_ref =
  virt :: u64
  plane_len :: u64
  phys :: u64
  bytesused :: u64
  offset :: u64
  dmafd :: int

record pitcher_buffer =
  bcount :: u32
  planes :: "buf_ref list"
  index :: u32
  flags :: u32
  priv :: u64
  format :: u64
  crop :: u64

record ext_buffer =
  buffer :: pitcher_buffer
  obj :: pitcher_obj
  init_plane :: u64
  uninit_plane :: u64
  recycle :: u64
  barg :: u64

record pitcher_buffer_desc =
  plane_count :: u32
  plane_size :: "u64 list"
  desc_init_plane :: u64
  desc_uninit_plane :: u64
  desc_recycle :: u64
  desc_arg :: u64

record heap =
  wmem :: mem
  bufs :: "u64 \<Rightarrow> ext_buffer option"

text \<open>The code behind a function pointer: \<open>handle_plane\<close> and \<open>handle_buffer\<close> of \<open>pitcher.h\<close>.\<close>

record 'w buf_env =
  init_plane_fn :: "u64 \<Rightarrow> buf_ref \<Rightarrow> u32 \<Rightarrow> u64 \<Rightarrow> 'w \<Rightarrow> (int \<times> buf_ref \<times> 'w) option"
  uninit_plane_fn :: "u64 \<Rightarrow> buf_ref \<Rightarrow> u32 \<Rightarrow> u64 \<Rightarrow> 'w \<Rightarrow> (int \<times> buf_ref \<times> 'w) option"
  recycle_fn :: "u64 \<Rightarrow> u64 \<Rightarrow> u64 \<Rightarrow> 'w \<Rightarrow> (int \<times> bool \<times> 'w) option"

definition MAX_PLANES :: u32 where
  "MAX_PLANES = 8"

text \<open>The address of the static function \<open>__release_buffer\<close>.\<close>

definition RELEASE_BUFFER :: u64 where
  "RELEASE_BUFFER = 1"


section \<open>obj.c\<close>

definition pitcher_init_obj :: "u64 \<Rightarrow> pitcher_obj \<Rightarrow> pitcher_obj" where
  "pitcher_init_obj rel o1 = o1\<lparr>refcount := 0, release := rel\<rparr>"

definition pitcher_set_obj_name :: "string \<Rightarrow> pitcher_obj \<Rightarrow> int \<times> pitcher_obj" where
  "pitcher_set_obj_name s o1 = (int (length s), o1\<lparr>obj_name := take 63 s\<rparr>)"

definition pitcher_get_obj_name :: "pitcher_obj \<Rightarrow> string" where
  "pitcher_get_obj_name o1 = obj_name o1"

text \<open>The locked part of \<open>pitcher_put_obj\<close>; the flag says that the last reference went.\<close>

definition put_obj :: "pitcher_obj \<Rightarrow> bool \<times> pitcher_obj" where
  "put_obj o1 =
     (if refcount o1 \<noteq> 0
      then (let o1 = o1\<lparr>refcount := refcount o1 - 1\<rparr> in (refcount o1 = 0, o1))
      else (False, o1))"

definition pitcher_get_obj :: "pitcher_obj \<Rightarrow> pitcher_obj" where
  "pitcher_get_obj o1 = o1\<lparr>refcount := refcount o1 + 1\<rparr>"

definition pitcher_get_obj_refcount :: "pitcher_obj \<Rightarrow> u32" where
  "pitcher_get_obj_refcount o1 = refcount o1"


section \<open>buffer.c\<close>

definition buf_at :: "u64 \<Rightarrow> 'e heap_scheme \<Rightarrow> ext_buffer option" where
  "buf_at b w = (if b = 0 then None else bufs w b)"

definition set_buf :: "u64 \<Rightarrow> ext_buffer \<Rightarrow> 'e heap_scheme \<Rightarrow> 'e heap_scheme" where
  "set_buf b e w = w\<lparr>bufs := (bufs w)(b \<mapsto> e)\<rparr>"

definition pitcher_alloc_plane :: "buf_ref \<Rightarrow> 'e heap_scheme \<Rightarrow> int \<times> buf_ref \<times> 'e heap_scheme" where
  "pitcher_alloc_plane pl w =
     (if plane_len pl = 0 then (err RET_E_INVAL, pl, w)
      else (case pitcher_calloc (wmem w) of (p, m) \<Rightarrow>
              (if p = 0 then err RET_E_NO_MEMORY else ret_val RET_OK, pl\<lparr>virt := p\<rparr>, w\<lparr>wmem := m\<rparr>)))"

definition pitcher_free_plane :: "buf_ref \<Rightarrow> 'e heap_scheme \<Rightarrow> int \<times> buf_ref \<times> 'e heap_scheme" where
  "pitcher_free_plane pl w =
     (if virt pl \<noteq> 0
      then (ret_val RET_OK, pl\<lparr>virt := 0\<rparr>, w\<lparr>wmem := pitcher_free (wmem w)\<rparr>)
      else (ret_val RET_OK, pl, w))"

text \<open>The value \<open>pitcher_auto_remove_buffer\<close> stores through \<open>del\<close>, and its result.\<close>

definition pitcher_auto_remove_buffer :: "int \<times> bool" where
  "pitcher_auto_remove_buffer = (ret_val RET_OK, True)"

text \<open>One call of a plane callback on plane \<open>i\<close> of the buffer at \<open>b\<close>.\<close>

definition on_plane ::
    "(buf_ref \<Rightarrow> u32 \<Rightarrow> u64 \<Rightarrow> 'e heap_scheme \<Rightarrow> (int \<times> buf_ref \<times> 'e heap_scheme) option)
      \<Rightarrow> u64 \<Rightarrow> nat \<Rightarrow> 'e heap_scheme \<Rightarrow> (int \<times> 'e heap_scheme) option" where
  "on_plane f b i w =
     do {
       e \<leftarrow> buf_at b w;
       pl \<leftarrow> nth_opt (planes (buffer e)) i;
       (ret, pl, w) \<leftarrow> f pl (of_nat i) (barg e) w;
       e \<leftarrow> buf_at b w;
       Some (ret, set_buf b (e\<lparr>buffer := (buffer e)\<lparr>planes := (planes (buffer e))[i := pl]\<rparr>\<rparr>) w)
     }"

text \<open>The loop of \<open>__release_buffer\<close> over the planes from \<open>i\<close> on, \<open>n\<close> of them.\<close>

fun uninit_planes ::
    "('e heap_scheme, 'x) buf_env_scheme \<Rightarrow> u64 \<Rightarrow> nat \<Rightarrow> nat \<Rightarrow> 'e heap_scheme \<Rightarrow> 'e heap_scheme option" where
  "uninit_planes env b 0 i w = Some w"
| "uninit_planes env b (Suc n) i w =
     do {
       e \<leftarrow> buf_at b w;
       (_, w) \<leftarrow> on_plane (uninit_plane_fn env (uninit_plane e)) b i w;
       uninit_planes env b n (Suc i) w
     }"

definition release_buffer ::
    "('e heap_scheme, 'x) buf_env_scheme \<Rightarrow> u64 \<Rightarrow> 'e heap_scheme \<Rightarrow> 'e heap_scheme option" where
  "release_buffer env b w =
     do {
       e \<leftarrow> buf_at b w;
       let w = set_buf b (e\<lparr>buffer := (buffer e)\<lparr>flags := 0\<rparr>\<rparr>) w;
       (is_del, w) \<leftarrow> (if recycle e \<noteq> 0
                      then map_option snd (recycle_fn env (recycle e) b (barg e) w)
                      else Some (False, w));
       if \<not> is_del then Some w
       else
         do {
           e \<leftarrow> buf_at b w;
           w \<leftarrow> uninit_planes env b (unat (bcount (buffer e))) 0 w;
           Some (w\<lparr>bufs := (bufs w)(b := None), wmem := pitcher_free (wmem w)\<rparr>)
         }
     }"

text \<open>\<open>pitcher_put_obj\<close> on the object of a buffer, with \<open>__release_obj\<close>.\<close>

definition pitcher_put_obj ::
    "('e heap_scheme, 'x) buf_env_scheme \<Rightarrow> u64 \<Rightarrow> 'e heap_scheme \<Rightarrow> 'e heap_scheme option" where
  "pitcher_put_obj env b w =
     do {
       e \<leftarrow> buf_at b w;
       let (flag, o1) = put_obj (obj e);
       let w = set_buf b (e\<lparr>obj := o1\<rparr>) w;
       if \<not> flag \<or> release o1 = 0 then Some w
       else if release o1 = RELEASE_BUFFER then release_buffer env b w
       else None
     }"

definition pitcher_get_buffer :: "u64 \<Rightarrow> 'e heap_scheme \<Rightarrow> (u64 \<times> 'e heap_scheme) option" where
  "pitcher_get_buffer b w =
     do {
       e \<leftarrow> buf_at b w;
       Some (b, set_buf b (e\<lparr>obj := pitcher_get_obj (obj e)\<rparr>) w)
     }"

definition pitcher_put_buffer ::
    "('e heap_scheme, 'x) buf_env_scheme \<Rightarrow> u64 \<Rightarrow> 'e heap_scheme \<Rightarrow> 'e heap_scheme option" where
  "pitcher_put_buffer env b w = (if b = 0 then None else pitcher_put_obj env b w)"

definition pitcher_get_buffer_refcount :: "u64 \<Rightarrow> 'e heap_scheme \<Rightarrow> u32 option" where
  "pitcher_get_buffer_refcount b w =
     do { e \<leftarrow> buf_at b w; Some (pitcher_get_obj_refcount (obj e)) }"

text \<open>
  The loop of \<open>pitcher_new_buffer\<close>: sets up and initialises the planes from \<open>i\<close> on, \<open>n\<close> of
  them, and returns where it stopped.
\<close>

fun init_planes ::
    "('e heap_scheme, 'x) buf_env_scheme \<Rightarrow> u64 list \<Rightarrow> u64 \<Rightarrow> nat \<Rightarrow> nat \<Rightarrow> 'e heap_scheme
      \<Rightarrow> (nat \<times> 'e heap_scheme) option" where
  "init_planes env sizes b 0 i w = Some (i, w)"
| "init_planes env sizes b (Suc n) i w =
     do {
       e \<leftarrow> buf_at b w;
       sz \<leftarrow> nth_opt sizes i;
       (ret, w) \<leftarrow> on_plane
         (\<lambda>pl. init_plane_fn env (init_plane e) (pl\<lparr>plane_len := sz, dmafd := -1\<rparr>)) b i w;
       if ret < 0 then Some (i, w) else init_planes env sizes b n (Suc i) w
     }"

definition zero_plane :: buf_ref where
  "zero_plane = \<lparr>virt = 0, plane_len = 0, phys = 0, bytesused = 0, offset = 0, dmafd = 0\<rparr>"

definition pitcher_new_buffer ::
    "('e heap_scheme, 'x) buf_env_scheme \<Rightarrow> pitcher_buffer_desc option \<Rightarrow> 'e heap_scheme
      \<Rightarrow> (u64 \<times> 'e heap_scheme) option" where
  "pitcher_new_buffer env dsc w =
     (case dsc of
        None \<Rightarrow> Some (0, w)
      | Some d \<Rightarrow>
          if plane_count d = 0 \<or> desc_init_plane d = 0 \<or> desc_uninit_plane d = 0 \<or> desc_recycle d = 0
          then Some (0, w)
          else if MAX_PLANES < plane_count d then Some (0, w)
          else
            (case pitcher_calloc (wmem w) of (b, m) \<Rightarrow>
               let w = w\<lparr>wmem := m\<rparr> in
               if b = 0 then Some (0, w)
               else
                 let e = \<lparr>buffer = \<lparr>bcount = plane_count d,
                             planes = replicate (unat (plane_count d)) zero_plane,
                             index = 0, flags = 0, priv = 0, format = 0, crop = 0\<rparr>,
                          obj = \<lparr>refcount = 0, obj_name = [], release = 0\<rparr>,
                          init_plane = desc_init_plane d, uninit_plane = desc_uninit_plane d,
                          recycle = desc_recycle d, barg = desc_arg d\<rparr>
                 in do {
                   (i, w) \<leftarrow> init_planes env (plane_size d) b (unat (plane_count d)) 0 (set_buf b e w);
                   if i = 0
                   then Some (0, w\<lparr>bufs := (bufs w)(b := None), wmem := pitcher_free (wmem w)\<rparr>)
                   else do {
                     e \<leftarrow> buf_at b w;
                     let o1 = pitcher_get_obj (pitcher_init_obj RELEASE_BUFFER (obj e));
                     Some (b, set_buf b
                       (e\<lparr>buffer := (buffer e)\<lparr>bcount := of_nat i\<rparr>, obj := o1\<rparr>) w)
                   }
                 }))"


section \<open>Reference counting\<close>

lemmas buffer_ops = buf_at_def set_buf_def put_obj_def pitcher_get_obj_def pitcher_put_obj_def
  pitcher_get_buffer_def pitcher_put_buffer_def pitcher_get_buffer_refcount_def
  pitcher_get_obj_refcount_def

definition set_refs :: "u32 \<Rightarrow> ext_buffer \<Rightarrow> ext_buffer" where
  "set_refs n e = e\<lparr>obj := (obj e)\<lparr>refcount := n\<rparr>\<rparr>"

lemma set_refs_simps [simp]:
  "refcount (obj (set_refs n e)) = n" "release (obj (set_refs n e)) = release (obj e)"
  "buffer (set_refs n e) = buffer e" "recycle (set_refs n e) = recycle e"
  "barg (set_refs n e) = barg e" "uninit_plane (set_refs n e) = uninit_plane e"
  "init_plane (set_refs n e) = init_plane e" "set_refs k (set_refs n e) = set_refs k e"
  "set_refs (refcount (obj e)) e = e"
  by (simp_all add: set_refs_def)

lemma set_buf_simps [simp]:
  "wmem (set_buf b e w) = wmem w" "bufs (set_buf b e w) = (bufs w)(b \<mapsto> e)"
  "set_buf b e' (set_buf b e w) = set_buf b e' w" "heap.more (set_buf b e w) = heap.more w"
  by (simp_all add: set_buf_def)

lemma get_buffer_eq:
  "b \<noteq> 0 \<Longrightarrow> bufs w b = Some e \<Longrightarrow>
   pitcher_get_buffer b w = Some (b, set_buf b (set_refs (refcount (obj e) + 1) e) w)"
  by (simp add: buffer_ops set_refs_def)

text \<open>A put that is not the last one calls nobody.\<close>

lemma put_buffer_eq:
  assumes "b \<noteq> 0" and "bufs w b = Some e" and "1 < refcount (obj e)"
  shows "pitcher_put_buffer env b w = Some (set_buf b (set_refs (refcount (obj e) - 1) e) w)"
proof -
  have "refcount (obj e) \<noteq> 0" "refcount (obj e) - 1 \<noteq> 0" using assms(3) by auto
  then show ?thesis using assms by (simp add: buffer_ops set_refs_def Let_def)
qed

lemma put_buffer_last:
  assumes "b \<noteq> 0" and "bufs w b = Some e" and "refcount (obj e) = 1" and "release (obj e) = RELEASE_BUFFER"
  shows "pitcher_put_buffer env b w = release_buffer env b (set_buf b (set_refs 0 e) w)"
  using assms by (simp add: buffer_ops set_refs_def Let_def RELEASE_BUFFER_def)

lemma unat_less_u32: "unat (x :: u32) < 2 ^ 32"
  using unsigned_less [where w = x and ?'a = nat] by simp

text \<open>A sequence of gets (\<open>True\<close>) and puts (\<open>False\<close>) on one buffer.\<close>

fun run_refs ::
    "('e heap_scheme, 'x) buf_env_scheme \<Rightarrow> u64 \<Rightarrow> bool list \<Rightarrow> 'e heap_scheme \<Rightarrow> 'e heap_scheme option" where
  "run_refs env b [] w = Some w"
| "run_refs env b (True # ops) w = do { (_, w) \<leftarrow> pitcher_get_buffer b w; run_refs env b ops w }"
| "run_refs env b (False # ops) w = do { w \<leftarrow> pitcher_put_buffer env b w; run_refs env b ops w }"

text \<open>The references left, if the count stays positive and within 32 bits on the way.\<close>

fun balance :: "bool list \<Rightarrow> nat \<Rightarrow> nat option" where
  "balance [] n = Some n"
| "balance (True # ops) n = (if n + 1 < 2 ^ 32 then balance ops (n + 1) else None)"
| "balance (False # ops) n = (if 1 < n then balance ops (n - 1) else None)"

lemma run_refs_balance:
  assumes "b \<noteq> 0" and "bufs w b = Some e" and "balance ops (unat (refcount (obj e))) = Some n"
    and "0 < refcount (obj e)"
  shows "run_refs env b ops w = Some (set_buf b (set_refs (of_nat n) e) w) \<and> 0 < n \<and> n < 2 ^ 32"
  using assms(2-4)
proof (induction ops arbitrary: w e)
  case Nil
  have "of_nat n = refcount (obj e)" "unat (refcount (obj e)) = n" using Nil by auto
  moreover have "set_buf b e w = w" using Nil by (simp add: set_buf_def fun_upd_idem)
  moreover have "n < 2 ^ 32" using unat_less_u32 [of "refcount (obj e)"] Nil by simp
  ultimately show ?case using Nil by (auto simp: word_less_nat_alt)
next
  case (Cons a ops)
  let ?r = "refcount (obj e)"
  show ?case
  proof (cases a)
    case True
    then have lt: "unat ?r + 1 < 2 ^ 32" using Cons.prems by (auto split: if_splits)
    have u: "unat (?r + 1) = unat ?r + 1" using unat_plus_no_ovf [of ?r 1] lt by simp
    have pos: "0 < ?r + 1" using u by (simp add: word_less_nat_alt)
    have bal: "balance ops (unat (?r + 1)) = Some n" using Cons.prems(2) True lt u by simp
    show ?thesis
      using Cons.IH [of "set_buf b (set_refs (?r + 1) e) w" "set_refs (?r + 1) e"] bal pos
        get_buffer_eq [OF assms(1) Cons.prems(1)] True by simp
  next
    case False
    then have gt: "1 < unat ?r" using Cons.prems by (auto split: if_splits)
    have u: "unat (?r - 1) = unat ?r - 1" using unat_minus_le [of 1 ?r] gt by (simp add: word_le_nat_alt)
    have pos: "0 < ?r - 1" using u gt by (simp add: word_less_nat_alt)
    have bal: "balance ops (unat (?r - 1)) = Some n" using Cons.prems(2) False gt u by simp
    have "1 < ?r" using gt by (simp add: word_less_nat_alt)
    then show ?thesis
      using Cons.IH [of "set_buf b (set_refs (?r - 1) e) w" "set_refs (?r - 1) e"] bal pos
        put_buffer_eq [OF assms(1) Cons.prems(1), of env] False by simp
  qed
qed


section \<open>The contract of the callbacks\<close>

text \<open>
  What a buffer relies on: \<open>owns\<close> counts the allocations behind a plane; initialising a blank
  plane takes what the plane owns afterwards and nothing when it fails; uninitialising gives it
  back; the recycle handler asks for the removal. None of them touches a buffer.
\<close>

locale buf_callbacks =
  fixes env :: "('e heap_scheme, 'x) buf_env_scheme"
    and fi fu fr :: u64
    and owns :: "buf_ref \<Rightarrow> int"
  assumes nonnull: "fi \<noteq> 0" "fu \<noteq> 0" "fr \<noteq> 0"
    and init_ok: "virt pl = 0 \<Longrightarrow> never_null (wmem w) \<Longrightarrow>
      \<exists>r pl' w'. init_plane_fn env fi pl i a w = Some (r, pl', w') \<and> bufs w' = bufs w
        \<and> never_null (wmem w') \<and> total_count (wmem w') = total_count (wmem w) + owns pl'
        \<and> (r < 0 \<longrightarrow> owns pl' = 0)"
    and uninit_ok: "\<exists>r pl' w'. uninit_plane_fn env fu pl i a w = Some (r, pl', w') \<and> bufs w' = bufs w
        \<and> total_count (wmem w') = total_count (wmem w) - owns pl"
    and recycle_ok: "\<exists>r. recycle_fn env fr b a w = Some (r, True, w)"
begin

text \<open>The planes below \<open>i\<close> are initialised and accounted for; \<open>blank\<close> says the others are blank.\<close>

definition ready :: "mem \<Rightarrow> (u64 \<Rightarrow> ext_buffer option) \<Rightarrow> ext_buffer \<Rightarrow> u64 \<Rightarrow> bool \<Rightarrow> nat \<Rightarrow> 'e heap_scheme \<Rightarrow> bool" where
  "ready m0 bs e b blank i w \<longleftrightarrow> (\<exists>pls. bufs w = bs(b \<mapsto> e\<lparr>buffer := (buffer e)\<lparr>planes := pls\<rparr>\<rparr>)
     \<and> length pls = length (planes (buffer e))
     \<and> (blank \<longrightarrow> (\<forall>j. i \<le> j \<and> j < length pls \<longrightarrow> virt (pls ! j) = 0))
     \<and> never_null (wmem w)
     \<and> total_count (wmem w) = total_count m0 + sum_list (map owns (take i pls)))"

lemma init_step:
  assumes "b \<noteq> 0" and "ready m0 bs e b True i w" and "i < length (planes (buffer e))"
  shows "\<exists>r w'. on_plane (\<lambda>pl. init_plane_fn env fi (pl\<lparr>plane_len := sz, dmafd := -1\<rparr>)) b i w = Some (r, w')
    \<and> (if r < 0 then ready m0 bs e b False i w' else ready m0 bs e b True (Suc i) w')"
proof -
  obtain pls where pls: "bufs w = bs(b \<mapsto> e\<lparr>buffer := (buffer e)\<lparr>planes := pls\<rparr>\<rparr>)"
    "length pls = length (planes (buffer e))" "\<forall>j. i \<le> j \<and> j < length pls \<longrightarrow> virt (pls ! j) = 0"
    "never_null (wmem w)" "total_count (wmem w) = total_count m0 + sum_list (map owns (take i pls))"
    using assms(2) unfolding ready_def by auto
  obtain r pl' w' where i: "init_plane_fn env fi ((pls ! i)\<lparr>plane_len := sz, dmafd := -1\<rparr>) (of_nat i) (barg e) w = Some (r, pl', w')"
    "bufs w' = bufs w" "never_null (wmem w')" "total_count (wmem w') = total_count (wmem w) + owns pl'"
    "r < 0 \<longrightarrow> owns pl' = 0"
    using init_ok [of "(pls ! i)\<lparr>plane_len := sz, dmafd := -1\<rparr>" w "of_nat i" "barg e"] pls assms(3) by auto
  have on: "on_plane (\<lambda>pl. init_plane_fn env fi (pl\<lparr>plane_len := sz, dmafd := -1\<rparr>)) b i w
      = Some (r, set_buf b (e\<lparr>buffer := (buffer e)\<lparr>planes := pls[i := pl']\<rparr>\<rparr>) w')"
    using assms(1,3) pls i by (simp add: on_plane_def buf_at_def)
  have take: "take (Suc i) (pls[i := pl']) = take i pls @ [pl']"
    using assms(3) pls(2) by (simp add: take_Suc_conv_app_nth)
  show ?thesis
    using on i pls take assms(3)
    by (auto simp: ready_def nth_list_update intro!: exI [of _ "pls[i := pl']"])
qed

lemma init_planes_ok:
  assumes "b \<noteq> 0" and "init_plane e = fi" and "ready m0 bs e b True i w"
    and "i + n \<le> length (planes (buffer e))" and "i + n \<le> length sizes"
  shows "\<exists>i' w'. init_planes env sizes b n i w = Some (i', w') \<and> i \<le> i' \<and> i' \<le> i + n
    \<and> ready m0 bs e b False i' w'"
  using assms(3-5)
proof (induction n arbitrary: i w)
  case 0
  then show ?case by (auto simp: ready_def)
next
  case (Suc n)
  obtain e1 where e1: "buf_at b w = Some e1" "init_plane e1 = fi"
    using Suc.prems(1) assms(1,2) by (auto simp: ready_def buf_at_def)
  obtain r w1 where st: "on_plane (\<lambda>pl. init_plane_fn env fi (pl\<lparr>plane_len := sizes ! i, dmafd := -1\<rparr>)) b i w = Some (r, w1)"
    "if r < 0 then ready m0 bs e b False i w1 else ready m0 bs e b True (Suc i) w1"
    using init_step [OF assms(1) Suc.prems(1), of "sizes ! i"] Suc.prems(2) by auto
  show ?case
  proof (cases "r < 0")
    case True
    then show ?thesis using st e1 Suc.prems(3) by simp
  next
    case False
    then show ?thesis using Suc.IH [of "Suc i" w1] st e1 Suc.prems by auto
  qed
qed

lemma uninit_planes_ok:
  assumes "b \<noteq> 0" and "uninit_plane e = fu" and "bufs w = bs(b \<mapsto> e)" and "i + n \<le> length (planes (buffer e))"
  shows "\<exists>w' e'. uninit_planes env b n i w = Some w' \<and> bufs w' = bs(b \<mapsto> e')
    \<and> total_count (wmem w') = total_count (wmem w) - sum_list (map owns (take n (drop i (planes (buffer e)))))"
  using assms(2-4)
proof (induction n arbitrary: i w e)
  case (Suc n)
  let ?pl = "planes (buffer e) ! i"
  obtain r pl' w1 where u: "uninit_plane_fn env fu ?pl (of_nat i) (barg e) w = Some (r, pl', w1)"
    "bufs w1 = bufs w" "total_count (wmem w1) = total_count (wmem w) - owns ?pl"
    using uninit_ok by blast
  let ?e = "e\<lparr>buffer := (buffer e)\<lparr>planes := (planes (buffer e))[i := pl']\<rparr>\<rparr>"
  have on: "on_plane (uninit_plane_fn env fu) b i w = Some (r, set_buf b ?e w1)"
    using assms(1) Suc.prems u by (simp add: on_plane_def buf_at_def)
  have "drop i (planes (buffer e)) = ?pl # drop (Suc i) (planes (buffer e))"
    using Suc.prems(3) by (simp add: drop_Cons_nth)
  moreover have bs: "bufs (set_buf b ?e w1) = bs(b \<mapsto> ?e)"
    by (simp only: set_buf_simps u(2) Suc.prems(2) fun_upd_upd)
  have "uninit_plane ?e = fu" "Suc i + n \<le> length (planes (buffer ?e))" using Suc.prems by simp_all
  note ih = Suc.IH [OF this(1) bs this(2)]
  have "drop (Suc i) (planes (buffer ?e)) = drop (Suc i) (planes (buffer e))" by simp
  note ih [unfolded this]
  then obtain w2 e2 where "uninit_planes env b n (Suc i) (set_buf b ?e w1) = Some w2" "bufs w2 = bs(b \<mapsto> e2)"
    "total_count (wmem w2) = total_count (wmem w1) - sum_list (map owns (take n (drop (Suc i) (planes (buffer e)))))"
    unfolding set_buf_simps by blast
  ultimately show ?case using on u(3) Suc.prems(1,2) assms(1)
    by (intro exI [of _ w2] exI [of _ e2]) (simp add: buf_at_def)
qed auto

text \<open>
  The life of a buffer: created, shared by any balanced sequence of gets and puts, and gone
  with its planes after the put of the last reference.
\<close>

lemma new_buffer_cases:
  assumes "never_null (wmem w)" and "desc_init_plane d = fi" and "desc_uninit_plane d = fu"
    and "desc_recycle d = fr" and "0 < plane_count d" and "plane_count d \<le> MAX_PLANES"
    and "length (plane_size d) = 8" and "fst (pitcher_calloc (wmem w)) = b" and "bufs w b = None"
  shows "\<exists>w1. (pitcher_new_buffer env (Some d) w = Some (0, w1) \<and> bufs w1 = bufs w
        \<and> total_count (wmem w1) = total_count (wmem w))
    \<or> (\<exists>e. pitcher_new_buffer env (Some d) w = Some (b, w1) \<and> b \<noteq> 0 \<and> bufs w1 = (bufs w)(b \<mapsto> e)
        \<and> refcount (obj e) = 1 \<and> release (obj e) = RELEASE_BUFFER \<and> uninit_plane e = fu \<and> recycle e = fr
        \<and> 0 < bcount (buffer e) \<and> unat (bcount (buffer e)) \<le> length (planes (buffer e))
        \<and> total_count (wmem w1) = total_count (wmem w) + 1
            + sum_list (map owns (take (unat (bcount (buffer e))) (planes (buffer e)))))"
proof -
  let ?n = "unat (plane_count d)"
  define e where "e = \<lparr>buffer = \<lparr>bcount = plane_count d, planes = replicate ?n zero_plane,
      index = 0, flags = 0, priv = 0, format = 0, crop = 0\<rparr>,
    obj = \<lparr>refcount = 0, obj_name = [], release = 0\<rparr>, init_plane = fi, uninit_plane = fu,
    recycle = fr, barg = desc_arg d\<rparr>"
  obtain m where m: "pitcher_calloc (wmem w) = (b, m)" using assms(8) by (metis prod.collapse)
  have b: "b \<noteq> 0" "never_null m" "total_count m = total_count (wmem w) + 1"
    using assms(1) m by (auto simp: never_null_def mem_defs)
  have n0: "plane_count d \<noteq> 0" using assms(5) by auto
  have n8: "0 < ?n" "?n \<le> 8" using assms(5,6) by (simp_all add: MAX_PLANES_def word_less_nat_alt word_le_nat_alt)
  have rdy: "ready m (bufs w) e b True 0 (set_buf b e (w\<lparr>wmem := m\<rparr>))"
    using b by (auto simp: ready_def e_def zero_plane_def intro!: exI [of _ "replicate ?n zero_plane"])
  obtain i w1 where i: "init_planes env (plane_size d) b ?n 0 (set_buf b e (w\<lparr>wmem := m\<rparr>)) = Some (i, w1)"
    "i \<le> ?n" "ready m (bufs w) e b False i w1"
    using init_planes_ok [OF b(1) _ rdy, of ?n "plane_size d"] n8 assms(7) by (auto simp: e_def)
  obtain pls where pls: "bufs w1 = (bufs w)(b \<mapsto> e\<lparr>buffer := (buffer e)\<lparr>planes := pls\<rparr>\<rparr>)" "length pls = ?n"
    "total_count (wmem w1) = total_count m + sum_list (map owns (take i pls))"
    using i(3) by (auto simp: ready_def e_def)
  have i_unat: "unat (of_nat i :: u32) = i" using i(2) n8 by (subst unat_of_nat) simp
  show ?thesis
  proof (cases "i = 0")
    case True
    have "(bufs w)(b := None) = bufs w" using assms(9) by auto
    then show ?thesis using True assms b m i pls nonnull n8
      by (auto simp: pitcher_new_buffer_def e_def mem_defs word_less_nat_alt word_le_nat_alt MAX_PLANES_def)
  next
    case False
    then have "0 < (of_nat i :: u32)" using i_unat by (simp add: word_less_nat_alt)
    moreover define e2 where "e2 = e\<lparr>buffer := (buffer e)\<lparr>planes := pls, bcount := of_nat i\<rparr>,
      obj := \<lparr>refcount = 1, obj_name = [], release = RELEASE_BUFFER\<rparr>\<rparr>"
    moreover have "pitcher_new_buffer env (Some d) w = Some (b, set_buf b e2 w1)"
      using False assms(2-4,6) b m i(1) pls nonnull n0
      by (simp add: pitcher_new_buffer_def e_def e2_def buf_at_def pitcher_get_obj_def
          pitcher_init_obj_def not_less [symmetric])
    ultimately show ?thesis using b i(2) pls i_unat
      by (intro exI [of _ "set_buf b e2 w1"] disjI2 exI [of _ e2]) (simp add: e_def e2_def)
  qed
qed

text \<open>The put of the last reference gives back the planes and the buffer.\<close>

lemma put_last_frees:
  assumes "b \<noteq> 0" and "bufs w = bs(b \<mapsto> e)" and "bs b = None" and "refcount (obj e) = 1"
    and "release (obj e) = RELEASE_BUFFER" and "recycle e = fr" and "uninit_plane e = fu"
    and "unat (bcount (buffer e)) \<le> length (planes (buffer e))"
  shows "\<exists>w'. pitcher_put_buffer env b w = Some w' \<and> bufs w' = bs
    \<and> total_count (wmem w') = total_count (wmem w) - 1
        - sum_list (map owns (take (unat (bcount (buffer e))) (planes (buffer e))))"
proof -
  let ?e = "(set_refs 0 e)\<lparr>buffer := (buffer e)\<lparr>flags := 0\<rparr>\<rparr>"
  let ?w = "set_buf b ?e w"
  have at: "bufs w b = Some e" using assms(2) by simp
  have w: "bufs ?w = bs(b \<mapsto> ?e)" by (simp only: set_buf_simps assms(2) fun_upd_upd)
  have eu: "uninit_plane ?e = fu" "planes (buffer ?e) = planes (buffer e)" using assms(7) by simp_all
  obtain r where r: "recycle_fn env fr b (barg e) ?w = Some (r, True, ?w)" using recycle_ok by blast
  obtain w2 e2 where u: "uninit_planes env b (unat (bcount (buffer e))) 0 ?w = Some w2" "bufs w2 = bs(b \<mapsto> e2)"
    "total_count (wmem w2) = total_count (wmem w) - sum_list (map owns (take (unat (bcount (buffer e))) (planes (buffer e))))"
    using uninit_planes_ok [OF assms(1) eu(1) w, of 0 "unat (bcount (buffer e))"] eu(2) assms(8)
    unfolding eu(2) set_buf_simps drop_0 by auto
  have "bs(b := None) = bs" using assms(3) by auto
  then show ?thesis
    using put_buffer_last [OF assms(1) at assms(4,5), of env] r u assms(1,6) nonnull
    by (simp add: release_buffer_def buf_at_def Let_def)
qed

lemma lifetime:
  assumes "never_null (wmem w)" and "desc_init_plane d = fi" and "desc_uninit_plane d = fu"
    and "desc_recycle d = fr" and "0 < plane_count d" and "plane_count d \<le> MAX_PLANES"
    and "length (plane_size d) = 8" and "bufs w (fst (pitcher_calloc (wmem w))) = None"
    and "pitcher_new_buffer env (Some d) w = Some (b, w1)" and "b \<noteq> 0" and "balance ops 1 = Some 1"
  shows "\<exists>w2. run_refs env b (ops @ [False]) w1 = Some w2 \<and> bufs w2 = bufs w
    \<and> total_count (wmem w2) = total_count (wmem w)"
proof -
  have app: "run_refs env b (xs @ [False]) v = do { v \<leftarrow> run_refs env b xs v; pitcher_put_buffer env b v }" for xs v
    by (induction env b xs v rule: run_refs.induct) (auto split: option.splits bind_splits simp: bind_eq_Some_conv)
  obtain e where e: "bufs w1 = (bufs w)(b \<mapsto> e)" "bufs w b = None" "refcount (obj e) = 1"
    "release (obj e) = RELEASE_BUFFER" "uninit_plane e = fu" "recycle e = fr"
    "unat (bcount (buffer e)) \<le> length (planes (buffer e))"
    "total_count (wmem w1) = total_count (wmem w) + 1
        + sum_list (map owns (take (unat (bcount (buffer e))) (planes (buffer e))))"
    using new_buffer_cases [OF assms(1-7) refl assms(8)] assms(8-10) by auto
  have at: "bufs w1 b = Some e" using e(1) by simp
  have "run_refs env b ops w1 = Some (set_buf b (set_refs 1 e) w1)"
    using run_refs_balance [OF assms(10) at, of ops 1 env] e(3) assms(11) by simp
  moreover have "set_buf b (set_refs 1 e) w1 = w1"
    using e(3) at by (metis set_refs_simps(9) set_buf_def fun_upd_idem heap.surjective heap.update_convs(2))
  ultimately show ?thesis
    using put_last_frees [OF assms(10) e(1,2,3,4,6,5,7)] e(8) app by simp
qed

end


section \<open>The library's own callbacks\<close>

text \<open>The functions of \<open>buffer.c\<close> that descriptors point to, at made-up addresses.\<close>

definition ALLOC_PLANE :: u64 where "ALLOC_PLANE = 2"
definition FREE_PLANE :: u64 where "FREE_PLANE = 3"
definition AUTO_REMOVE :: u64 where "AUTO_REMOVE = 4"

definition lib_env :: "'e heap_scheme buf_env" where
  "lib_env = \<lparr>
     init_plane_fn = (\<lambda>f pl i a w. if f = ALLOC_PLANE then Some (pitcher_alloc_plane pl w) else None),
     uninit_plane_fn = (\<lambda>f pl i a w. if f = FREE_PLANE then Some (pitcher_free_plane pl w) else None),
     recycle_fn = (\<lambda>f b a w. if f = AUTO_REMOVE
                    then (case pitcher_auto_remove_buffer of (r, del) \<Rightarrow> Some (r, del, w)) else None)\<rparr>"

lemmas lib_defs = lib_env_def ALLOC_PLANE_def FREE_PLANE_def AUTO_REMOVE_def
  pitcher_alloc_plane_def pitcher_free_plane_def pitcher_auto_remove_buffer_def

interpretation lib: buf_callbacks lib_env ALLOC_PLANE FREE_PLANE AUTO_REMOVE "\<lambda>pl. of_bool (virt pl \<noteq> 0)"
proof
  show "ALLOC_PLANE \<noteq> 0" "FREE_PLANE \<noteq> 0" "AUTO_REMOVE \<noteq> 0" by (simp_all add: lib_defs)
next
  fix pl :: buf_ref and w :: "'a heap_scheme" and i a
  assume "virt pl = 0" "never_null (wmem w)"
  then show "\<exists>r pl' w'. init_plane_fn lib_env ALLOC_PLANE pl i a w = Some (r, pl', w') \<and> bufs w' = bufs w
      \<and> never_null (wmem w') \<and> total_count (wmem w') = total_count (wmem w) + of_bool (virt pl' \<noteq> 0)
      \<and> (r < 0 \<longrightarrow> of_bool (virt pl' \<noteq> 0) = (0 :: int))"
    by (auto simp: lib_defs never_null_def mem_defs)
next
  fix pl :: buf_ref and w :: "'a heap_scheme" and i a
  show "\<exists>r pl' w'. uninit_plane_fn lib_env FREE_PLANE pl i a w = Some (r, pl', w') \<and> bufs w' = bufs w
      \<and> total_count (wmem w') = total_count (wmem w) - of_bool (virt pl \<noteq> 0)"
    by (auto simp: lib_defs)
next
  fix b a and w :: "'a heap_scheme"
  show "\<exists>r. recycle_fn lib_env AUTO_REMOVE b a w = Some (r, True, w)" by (simp add: lib_defs)
qed


section \<open>Properties\<close>

text \<open>References are counted exactly. On a live buffer any sequence of gets and puts that never
  drops the last reference succeeds, calls no callback, and leaves the buffer unchanged but for
  its count, which is the starting count plus the gets minus the puts.\<close>

theorem refcount_exact:
  assumes "b \<noteq> 0" and "bufs w b = Some e" and "0 < refcount (obj e)"
    and "balance ops (unat (refcount (obj e))) = Some n"
  shows "run_refs env b ops w = Some (set_buf b (set_refs (of_nat n) e) w)
    \<and> n + length (filter Not ops) = unat (refcount (obj e)) + length (filter id ops)
    \<and> pitcher_get_buffer_refcount b (set_buf b (set_refs (of_nat n) e) w) = Some (of_nat n)"
proof -
  have count: "balance ops k = Some n \<Longrightarrow> n + length (filter Not ops) = k + length (filter id ops)" for k
    by (induction ops k rule: balance.induct) (auto split: if_splits)
  show ?thesis
    using run_refs_balance [OF assms(1,2,4,3), of env] count [OF assms(4)] assms(1)
    by (simp add: pitcher_get_buffer_refcount_def pitcher_get_obj_refcount_def buf_at_def)
qed

definition demo_desc :: pitcher_buffer_desc where
  "demo_desc = \<lparr>plane_count = 2, plane_size = [64, 32, 0, 0, 0, 0, 0, 0], desc_init_plane = ALLOC_PLANE,
     desc_uninit_plane = FREE_PLANE, desc_recycle = AUTO_REMOVE, desc_arg = 0\<rparr>"

definition demo_heap :: heap where
  "demo_heap = \<lparr>wmem = \<lparr>total_count = 0, calloc_res = (\<lambda>n. if n = 0 then 16 else if n = 1 then 32 else 48), calloc_n = 0\<rparr>,
     bufs = (\<lambda>_. None)\<rparr>"

lemma demo_heap_simps [simp]: "never_null (wmem demo_heap)" "bufs demo_heap = (\<lambda>_. None)"
  by (simp_all add: demo_heap_def never_null_def)

lemma init_planes_2:
  "init_planes env sizes b 2 i w = init_planes env sizes b (Suc (Suc 0)) i w"
  by (simp only: numeral_2_eq_2)

lemma demo_new_buffer:
  "\<exists>w1 e. pitcher_new_buffer lib_env (Some demo_desc) demo_heap = Some (16, w1) \<and> bufs w1 16 = Some e
    \<and> refcount (obj e) = 1 \<and> total_count (wmem w1) = 3"
  by (simp add: pitcher_new_buffer_def demo_desc_def demo_heap_def lib_defs mem_defs MAX_PLANES_def
      init_planes_2 on_plane_def buf_at_def set_buf_def pitcher_get_obj_def pitcher_init_obj_def)

theorem refcount_exact_witness:
  "\<exists>w1 e. bufs w1 16 = Some e \<and> run_refs lib_env 16 [True, True, False, True] w1
     = Some (set_buf 16 (set_refs 3 e) (w1 :: heap))"
proof -
  obtain w1 :: heap and e where w1: "bufs w1 16 = Some e" "refcount (obj e) = 1"
    using demo_new_buffer by blast
  then show ?thesis
    using refcount_exact [of 16 w1 e "[True, True, False, True]" 3 lib_env] by auto
qed

text \<open>C7: A buffer lives exactly as long as it is referenced and leaks nothing. After
  \<open>pitcher_new_buffer\<close> with the library's plane and recycle handlers, any balanced sequence of
  gets and puts followed by the put of the last reference succeeds, removes the buffer, and
  leaves \<open>pitcher_memory_count\<close> as it was before the buffer was made.\<close>

theorem buffer_lifetime:
  fixes w :: "'e heap_scheme"
  assumes "never_null (wmem w)" and "bufs w (fst (pitcher_calloc (wmem w))) = None"
    and "desc_init_plane d = ALLOC_PLANE" and "desc_uninit_plane d = FREE_PLANE"
    and "desc_recycle d = AUTO_REMOVE" and "0 < plane_count d" and "plane_count d \<le> MAX_PLANES"
    and "length (plane_size d) = 8"
    and "pitcher_new_buffer lib_env (Some d) w = Some (b, w1)" and "b \<noteq> 0" and "balance ops 1 = Some 1"
  shows "\<exists>w2. run_refs lib_env b (ops @ [False]) w1 = Some w2 \<and> bufs w2 = bufs w
    \<and> pitcher_memory_count (wmem w2) = pitcher_memory_count (wmem w)"
  using lib.lifetime [OF assms(1,3-8,2,9-11)] by (simp add: pitcher_memory_count_def)

theorem buffer_lifetime_witness:
  "\<exists>w1 w2. pitcher_new_buffer lib_env (Some demo_desc) demo_heap = Some (16, w1)
     \<and> pitcher_memory_count (wmem w1) = 3
     \<and> run_refs lib_env 16 ([True, False] @ [False]) w1 = Some w2
     \<and> bufs w2 16 = None \<and> pitcher_memory_count (wmem w2) = 0"
proof -
  obtain w1 where w1: "pitcher_new_buffer lib_env (Some demo_desc) demo_heap = Some (16, w1)"
    "total_count (wmem w1) = 3"
    using demo_new_buffer by blast
  have z: "total_count (wmem demo_heap) = 0" by (simp add: demo_heap_def)
  have "\<exists>w2. run_refs lib_env 16 ([True, False] @ [False]) w1 = Some w2 \<and> bufs w2 = bufs demo_heap
      \<and> pitcher_memory_count (wmem w2) = pitcher_memory_count (wmem demo_heap)"
    by (rule buffer_lifetime [OF demo_heap_simps(1) _ _ _ _ _ _ _ w1(1)]) (simp_all add: demo_desc_def MAX_PLANES_def)
  then show ?thesis using w1 z by (auto simp: pitcher_memory_count_def)
qed

text \<open>\<open>pitcher_new_buffer\<close> either returns a buffer with exactly one reference, at least one
  plane and every plane it reports initialised (and every allocation accounted to it), or returns
  \<open>NULL\<close> with the heap as it was.\<close>

theorem new_buffer_ready:
  fixes w :: "'e heap_scheme"
  assumes "never_null (wmem w)" and "bufs w (fst (pitcher_calloc (wmem w))) = None"
    and "desc_init_plane d = ALLOC_PLANE" and "desc_uninit_plane d = FREE_PLANE"
    and "desc_recycle d = AUTO_REMOVE" and "0 < plane_count d" and "plane_count d \<le> MAX_PLANES"
    and "length (plane_size d) = 8"
  shows "\<exists>b w1. pitcher_new_buffer lib_env (Some d) w = Some (b, w1)
    \<and> (if b = 0 then bufs w1 = bufs w \<and> total_count (wmem w1) = total_count (wmem w)
       else \<exists>e. bufs w1 = (bufs w)(b \<mapsto> e) \<and> pitcher_get_buffer_refcount b w1 = Some 1
         \<and> 0 < bcount (buffer e)
         \<and> total_count (wmem w1) = total_count (wmem w) + 1
             + int (length (filter (\<lambda>pl. virt pl \<noteq> 0) (take (unat (bcount (buffer e))) (planes (buffer e))))))"
proof -
  have sum: "sum_list (map (\<lambda>pl. of_bool (virt pl \<noteq> 0)) pls) = int (length (filter (\<lambda>pl. virt pl \<noteq> 0) pls))" for pls
    by (induction pls) simp_all
  show ?thesis
    using lib.new_buffer_cases [OF assms(1,3-8) refl assms(2)] unfolding sum
    by (auto simp: pitcher_get_buffer_refcount_def pitcher_get_obj_refcount_def buf_at_def)
qed

theorem new_buffer_ready_witness:
  "\<exists>w1 e. pitcher_new_buffer lib_env (Some demo_desc) demo_heap = Some (16, w1)
     \<and> pitcher_get_buffer_refcount 16 w1 = Some 1 \<and> bufs w1 = [16 \<mapsto> e] \<and> 0 < bcount (buffer e)"
proof -
  have "\<exists>b w1. pitcher_new_buffer lib_env (Some demo_desc) demo_heap = Some (b, w1)
    \<and> (if b = 0 then bufs w1 = bufs demo_heap \<and> total_count (wmem w1) = total_count (wmem demo_heap)
       else \<exists>e. bufs w1 = (bufs demo_heap)(b \<mapsto> e) \<and> pitcher_get_buffer_refcount b w1 = Some 1
         \<and> 0 < bcount (buffer e)
         \<and> total_count (wmem w1) = total_count (wmem demo_heap) + 1
             + int (length (filter (\<lambda>pl. virt pl \<noteq> 0) (take (unat (bcount (buffer e))) (planes (buffer e))))))"
    by (rule new_buffer_ready) (simp_all add: demo_desc_def MAX_PLANES_def)
  then show ?thesis using demo_new_buffer by auto
qed

end
