(* ===== verification/Pipe.thy ===== *)
theory Pipe
  imports Buffer
begin

text \<open>
  The pipes between units (\<open>pitcher/pipe.c\<close>): a queue of buffers, each holding one reference,
  with a skip ratio that drops a fraction of what is pushed and a callback that tells the
  receiver that something arrived.
\<close>

section \<open>Definitions\<close>

record pipe_skip =
  numerator :: u32
  denominator :: u32
  idx :: u32

record pitcher_pipe =
  psrc :: u64
  pdst :: u64
  pqueue :: "queue_t option"
  skip :: pipe_skip
  notify :: u64

record pipe_heap = heap +
  pipes :: "u64 \<Rightarrow> pitcher_pipe option"

record 'w pipe_env = "'w buf_env" +
  notify_fn :: "u64 \<Rightarrow> u64 \<Rightarrow> 'w \<Rightarrow> 'w option"

type_synonym 'e pworld = "'e pipe_heap_scheme"

definition pipe_at :: "u64 \<Rightarrow> 'e pworld \<Rightarrow> pitcher_pipe option" where
  "pipe_at p w = (if p = 0 then None else pipes w p)"

definition set_pipe :: "u64 \<Rightarrow> pitcher_pipe \<Rightarrow> 'e pworld \<Rightarrow> 'e pworld" where
  "set_pipe p pi w = w\<lparr>pipes := (pipes w)(p \<mapsto> pi)\<rparr>"

text \<open>A queue callback that works on the whole world, the allocator included.\<close>

definition on_world :: "(u64 \<Rightarrow> 'e heap_scheme \<Rightarrow> (bool \<times> 'e heap_scheme) option) \<Rightarrow> 'e heap_scheme queue_cb" where
  "on_world f = (\<lambda>x (m, w). do { (b, w) \<leftarrow> f x (w\<lparr>wmem := m\<rparr>); Some (b, wmem w, w) })"

text \<open>The greatest common divisor loop of \<open>pitcher_set_pipe_skip\<close>.\<close>

function skip_gcd :: "u32 \<Rightarrow> u32 \<Rightarrow> u32" where
  "skip_gcd m n = (if n = 0 then m else skip_gcd n (m mod n))"
  by auto
termination
  by (relation "measure (\<lambda>(m, n). unat n)")
    (auto simp: unat_mod_distrib unat_gt_0 mod_less_divisor)

declare skip_gcd.simps [simp del]

definition reduce_skip :: "u32 \<Rightarrow> u32 \<Rightarrow> u32 \<times> u32" where
  "reduce_skip num den =
     (if num \<noteq> 0 \<and> den \<noteq> 0
      then (let m = skip_gcd den num in (num div m, den div m))
      else (num, den))"

definition pitcher_set_pipe_skip :: "u64 \<Rightarrow> u32 \<Rightarrow> u32 \<Rightarrow> 'e pworld \<Rightarrow> (int \<times> 'e pworld) option" where
  "pitcher_set_pipe_skip p num den w =
     do {
       pi \<leftarrow> pipe_at p w;
       if den = 0 \<or> den < num then Some (err RET_E_INVAL, w)
       else
         let (n, d) = reduce_skip num den
         in Some (ret_val RET_OK, set_pipe p (pi\<lparr>skip := (skip pi)\<lparr>numerator := n, denominator := d\<rparr>\<rparr>) w)
     }"

definition pitcher_new_pipe :: "'e pworld \<Rightarrow> (u64 \<times> 'e pworld) option" where
  "pitcher_new_pipe w =
     (case pitcher_calloc (wmem w) of (p, m) \<Rightarrow>
        if p = 0 then Some (0, w\<lparr>wmem := m\<rparr>)
        else
          (case pitcher_init_queue m of
             (None, m) \<Rightarrow> Some (0, w\<lparr>wmem := pitcher_free m\<rparr>)
           | (Some q, m) \<Rightarrow>
               do {
                 (_, w) \<leftarrow> pitcher_set_pipe_skip p 0 1
                   (set_pipe p \<lparr>psrc = 0, pdst = 0, pqueue = Some q,
                      skip = \<lparr>numerator = 0, denominator = 0, idx = 0\<rparr>, notify = 0\<rparr> (w\<lparr>wmem := m\<rparr>));
                 Some (p, w)
               }))"

text \<open>\<open>__clear_queue_item\<close>.\<close>

definition clear_queue_item ::
    "('e heap_scheme, 'x) buf_env_scheme \<Rightarrow> u64 \<Rightarrow> 'e heap_scheme \<Rightarrow> (bool \<times> 'e heap_scheme) option" where
  "clear_queue_item env x w =
     do { w \<leftarrow> (if x \<noteq> 0 then pitcher_put_buffer env x w else Some w); Some (True, w) }"

text \<open>Clearing the queue of a pipe; the callback drops one reference of each buffer.\<close>

definition clear_pipe_queue ::
    "('e pworld, 'x) buf_env_scheme \<Rightarrow> u64 \<Rightarrow> 'e pworld \<Rightarrow> 'e pworld option" where
  "clear_pipe_queue env p w =
     do {
       pi \<leftarrow> pipe_at p w;
       (q, m, w) \<leftarrow> pitcher_queue_clear (pqueue pi) (Some (on_world (clear_queue_item env))) (wmem w) w;
       pi \<leftarrow> pipe_at p w;
       Some (set_pipe p (pi\<lparr>pqueue := q\<rparr>) (w\<lparr>wmem := m\<rparr>))
     }"

definition pitcher_del_pipe ::
    "('e pworld, 'x) buf_env_scheme \<Rightarrow> u64 \<Rightarrow> 'e pworld \<Rightarrow> 'e pworld option" where
  "pitcher_del_pipe env p w =
     do {
       pi \<leftarrow> pipe_at p w;
       w \<leftarrow> (if pqueue pi \<noteq> None
             then do {
               w \<leftarrow> clear_pipe_queue env p w;
               pi \<leftarrow> pipe_at p w;
               Some (set_pipe p (pi\<lparr>pqueue := None\<rparr>) (w\<lparr>wmem := pitcher_destroy_queue (pqueue pi) (wmem w)\<rparr>))
             }
             else Some w);
       Some (w\<lparr>pipes := (pipes w)(p := None), wmem := pitcher_free (wmem w)\<rparr>)
     }"

definition pitcher_get_pipe_dst :: "u64 \<Rightarrow> 'e pworld \<Rightarrow> u64 option" where
  "pitcher_get_pipe_dst p w = map_option pdst (pipe_at p w)"

definition pitcher_set_pipe_dst :: "u64 \<Rightarrow> u64 \<Rightarrow> 'e pworld \<Rightarrow> 'e pworld option" where
  "pitcher_set_pipe_dst p dst w = do { pi \<leftarrow> pipe_at p w; Some (set_pipe p (pi\<lparr>pdst := dst\<rparr>) w) }"

definition pitcher_get_pipe_src :: "u64 \<Rightarrow> 'e pworld \<Rightarrow> u64 option" where
  "pitcher_get_pipe_src p w = map_option psrc (pipe_at p w)"

definition pitcher_set_pipe_src :: "u64 \<Rightarrow> u64 \<Rightarrow> 'e pworld \<Rightarrow> 'e pworld option" where
  "pitcher_set_pipe_src p src w = do { pi \<leftarrow> pipe_at p w; Some (set_pipe p (pi\<lparr>psrc := src\<rparr>) w) }"

definition check_is_need_skip :: "pipe_skip \<Rightarrow> bool \<times> pipe_skip" where
  "check_is_need_skip s =
     (if numerator s = 0 \<or> denominator s = 0 then (False, s)
      else (\<not> idx s < denominator s - numerator s,
            s\<lparr>idx := (idx s + 1) mod denominator s\<rparr>))"

definition pitcher_pipe_push_back ::
    "('e pworld, 'x) pipe_env_scheme \<Rightarrow> u64 \<Rightarrow> u64 \<Rightarrow> 'e pworld \<Rightarrow> (int \<times> 'e pworld) option" where
  "pitcher_pipe_push_back env p b w =
     do {
       pi \<leftarrow> pipe_at p w;
       if b = 0 then Some (err RET_E_NULL_POINTER, w)
       else
         let (skipped, s) = check_is_need_skip (skip pi);
             pi = pi\<lparr>skip := s\<rparr>;
             w = set_pipe p pi w
         in if skipped then Some (ret_val RET_OK, w)
            else do {
              (_, w) \<leftarrow> pitcher_get_buffer b w;
              let (ret, q, m) = pitcher_queue_push_back (pqueue pi) b (wmem w);
              let w = set_pipe p (pi\<lparr>pqueue := q\<rparr>) (w\<lparr>wmem := m\<rparr>);
              w \<leftarrow> (if pdst pi \<noteq> 0 \<and> notify pi \<noteq> 0 then notify_fn env (notify pi) (pdst pi) w
                    else Some w);
              Some (ret, w)
            }
     }"

definition pitcher_pipe_pop :: "u64 \<Rightarrow> 'e pworld \<Rightarrow> (u64 \<times> 'e pworld) option" where
  "pitcher_pipe_pop p w =
     do {
       pi \<leftarrow> pipe_at p w;
       let (ret, x, q, m) = pitcher_queue_pop (pqueue pi) (wmem w);
       let w = set_pipe p (pi\<lparr>pqueue := q\<rparr>) (w\<lparr>wmem := m\<rparr>);
       if ret < 0 then Some (0, w)
       else do { x \<leftarrow> x; Some (x, w) }
     }"

definition pitcher_pipe_poll :: "u64 \<Rightarrow> 'e pworld \<Rightarrow> bool option" where
  "pitcher_pipe_poll p w =
     do { pi \<leftarrow> pipe_at p w; Some (pitcher_queue_is_empty (pqueue pi) = 0) }"

definition pitcher_pipe_clear ::
    "('e pworld, 'x) buf_env_scheme \<Rightarrow> u64 \<Rightarrow> 'e pworld \<Rightarrow> (int \<times> 'e pworld) option" where
  "pitcher_pipe_clear env p w = do { w \<leftarrow> clear_pipe_queue env p w; Some (ret_val RET_OK, w) }"

definition pitcher_set_pipe_notify :: "u64 \<Rightarrow> u64 \<Rightarrow> 'e pworld \<Rightarrow> (int \<times> 'e pworld) option" where
  "pitcher_set_pipe_notify p f w =
     do { pi \<leftarrow> pipe_at p w; Some (ret_val RET_OK, set_pipe p (pi\<lparr>notify := f\<rparr>) w) }"


section \<open>The skip ratio\<close>

lemma unat_skip_gcd: "unat (skip_gcd m n) = gcd (unat n) (unat m)"
proof (induction m n rule: skip_gcd.induct)
  case (1 m n)
  show ?case
  proof (cases "n = 0")
    case True
    then show ?thesis by (simp add: skip_gcd.simps)
  next
    case False
    then have "unat (skip_gcd m n) = gcd (unat (m mod n)) (unat n)"
      using 1 by (subst skip_gcd.simps) simp
    then show ?thesis by (simp add: unat_mod_distrib gcd.commute flip: gcd_red_nat)
  qed
qed

text \<open>\<open>pitcher_set_pipe_skip\<close> accepts exactly the ratios between 0 and 1 and stores them in
  lowest terms: the stored numerator and denominator have no common divisor and the same quotient.\<close>

theorem set_pipe_skip_reduces:
  assumes "pipe_at p w = Some pi"
  shows "\<exists>w'. pitcher_set_pipe_skip p num den w = Some (if den = 0 \<or> den < num then err RET_E_INVAL else 0, w')
    \<and> (if den = 0 \<or> den < num then w' = w
       else \<exists>pi'. pipe_at p w' = Some pi' \<and> idx (skip pi') = idx (skip pi)
         \<and> 0 < denominator (skip pi') \<and> numerator (skip pi') \<le> denominator (skip pi')
         \<and> unat (numerator (skip pi')) * unat den = unat num * unat (denominator (skip pi'))
         \<and> (0 < num \<longrightarrow> coprime (unat (numerator (skip pi'))) (unat (denominator (skip pi')))))"
proof (cases "den = 0 \<or> den < num")
  case True
  then show ?thesis using assms by (simp add: pitcher_set_pipe_skip_def)
next
  case False
  define n d where nd: "n = fst (reduce_skip num den)" "d = snd (reduce_skip num den)"
  have p0: "p \<noteq> 0" using assms by (auto simp: pipe_at_def)
  have "0 < d \<and> n \<le> d \<and> unat n * unat den = unat num * unat d
     \<and> (0 < num \<longrightarrow> coprime (unat n) (unat d))"
  proof (cases "num = 0")
    case True
    then show ?thesis using False nd by (auto simp: reduce_skip_def word_gt_0)
  next
    case num0: False
    let ?g = "skip_gcd den num"
    have g: "unat ?g = gcd (unat num) (unat den)" by (rule unat_skip_gcd)
    have n: "unat n = unat num div unat ?g" and d: "unat d = unat den div unat ?g"
      using num0 False nd by (simp_all add: reduce_skip_def Let_def unat_div_distrib)
    have pos: "0 < unat ?g" using num0 g by (simp add: unat_gt_0)
    then have "gcd (unat num) (unat den) \<noteq> 0" by (simp add: g)
    from gcd_coprime_exists [OF this, folded g]
    obtain a b where ab: "unat num = a * unat ?g" "unat den = b * unat ?g" "coprime a b" by blast
    have u: "unat n = a" "unat d = b" using n d pos unfolding ab(1,2) by simp_all
    have "a * unat ?g \<le> b * unat ?g" using False unfolding ab(1,2) [symmetric] by (simp add: word_less_nat_alt)
    then have le: "a \<le> b" using pos by simp
    have "b * unat ?g \<noteq> 0" using False unfolding ab(2) [symmetric] by (simp add: unat_eq_0)
    then have "0 < b" by simp
    moreover have "a * (b * unat ?g) = a * unat ?g * b" by simp
    ultimately show ?thesis using le u ab(3) unfolding word_le_nat_alt word_less_nat_alt u ab(1,2)
      by simp
  qed
  then show ?thesis using assms False nd p0
    by (auto simp: pitcher_set_pipe_skip_def set_pipe_def pipe_at_def split: prod.splits)
qed

theorem set_pipe_skip_reduces_witness:
  "\<exists>w'. pitcher_set_pipe_skip 5 6 8
      (\<lparr>wmem = demo_mem, bufs = Map.empty, pipes = [5 \<mapsto>
         \<lparr>psrc = 0, pdst = 0, pqueue = None, skip = \<lparr>numerator = 0, denominator = 1, idx = 0\<rparr>, notify = 0\<rparr>]\<rparr>)
      = Some (0, w')
    \<and> (\<exists>pi'. pipe_at 5 w' = Some pi' \<and> unat (numerator (skip pi')) * 8 = 6 * unat (denominator (skip pi')))"
  (is "\<exists>w'. pitcher_set_pipe_skip 5 6 8 ?w = _ \<and> _")
proof -
  have at: "pipe_at 5 ?w = Some \<lparr>psrc = 0, pdst = 0, pqueue = None, skip = \<lparr>numerator = 0, denominator = 1, idx = 0\<rparr>, notify = 0\<rparr>"
    by (simp add: pipe_at_def)
  show ?thesis using set_pipe_skip_reduces [OF at, of 6 8] by auto
qed

text \<open>The decisions for \<open>k\<close> buffers in a row.\<close>

fun skip_run :: "nat \<Rightarrow> pipe_skip \<Rightarrow> bool list \<times> pipe_skip" where
  "skip_run 0 s = ([], s)"
| "skip_run (Suc k) s =
     (case check_is_need_skip s of (b, s) \<Rightarrow> (case skip_run k s of (bs, s) \<Rightarrow> (b # bs, s)))"

lemma skip_step:
  assumes "0 < numerator s" and "numerator s \<le> denominator s" and "idx s < denominator s"
  shows "fst (check_is_need_skip s) \<longleftrightarrow> unat (denominator s) - unat (numerator s) \<le> unat (idx s)"
    and "numerator (snd (check_is_need_skip s)) = numerator s"
    and "denominator (snd (check_is_need_skip s)) = denominator s"
    and "unat (idx (snd (check_is_need_skip s))) = (unat (idx s) + 1) mod unat (denominator s)"
    and "idx (snd (check_is_need_skip s)) < denominator s"
proof -
  have nz: "numerator s \<noteq> 0" "denominator s \<noteq> 0" using assms by auto
  have ls: "unat (idx s) + 1 < 2 ^ 32"
    using assms(3) unat_less_u32 [of "denominator s"] by (simp add: word_less_nat_alt)
  then have u: "unat (idx s + 1) = unat (idx s) + 1" using unat_plus_no_ovf [of "idx s" 1] by simp
  show "fst (check_is_need_skip s) \<longleftrightarrow> unat (denominator s) - unat (numerator s) \<le> unat (idx s)"
    using nz assms by (simp add: check_is_need_skip_def not_less word_le_nat_alt unat_minus_le)
  show "numerator (snd (check_is_need_skip s)) = numerator s"
    "denominator (snd (check_is_need_skip s)) = denominator s"
    using nz by (simp_all add: check_is_need_skip_def)
  show idx: "unat (idx (snd (check_is_need_skip s))) = (unat (idx s) + 1) mod unat (denominator s)"
    using nz u by (simp add: check_is_need_skip_def unat_mod_distrib)
  show "idx (snd (check_is_need_skip s)) < denominator s"
    using idx nz by (simp add: word_less_nat_alt unat_gt_0)
qed

lemma skip_run_eq:
  assumes "0 < numerator s" and "numerator s \<le> denominator s" and "idx s < denominator s"
  shows "fst (skip_run k s) = map (\<lambda>j. unat (denominator s) - unat (numerator s)
        \<le> (unat (idx s) + j) mod unat (denominator s)) [0..<k]
    \<and> numerator (snd (skip_run k s)) = numerator s \<and> denominator (snd (skip_run k s)) = denominator s
    \<and> unat (idx (snd (skip_run k s))) = (unat (idx s) + k) mod unat (denominator s)"
  using assms
proof (induction k arbitrary: s)
  case 0
  then show ?case by (simp add: word_less_nat_alt)
next
  case (Suc k)
  let ?s = "snd (check_is_need_skip s)" and ?d = "unat (denominator s)"
  note st = skip_step [OF Suc.prems]
  have lt: "unat (idx s) < ?d" using Suc.prems(3) by (simp add: word_less_nat_alt)
  have arith: "((unat (idx s) + 1) mod ?d + j) mod ?d = (unat (idx s) + Suc j) mod ?d" for j
    by (simp add: mod_simps)
  have upt: "[0..<Suc k] = 0 # map Suc [0..<k]" by (simp add: upt_conv_Cons map_Suc_upt del: upt_Suc)
  have m: "map (\<lambda>j. P ((unat (idx s) + j) mod ?d)) [0..<Suc k]
      = P (unat (idx s)) # map (\<lambda>j. P (((unat (idx s) + 1) mod ?d + j) mod ?d)) [0..<k]" for P
    by (simp only: upt list.map map_map o_def add_0_right mod_less [OF lt] arith)
  have end': "((unat (idx s) + 1) mod ?d + k) mod ?d = (unat (idx s) + Suc k) mod ?d" by (rule arith)
  have ih: "fst (skip_run k ?s) = map (\<lambda>j. ?d - unat (numerator s) \<le> ((unat (idx s) + 1) mod ?d + j) mod ?d) [0..<k]"
    "numerator (snd (skip_run k ?s)) = numerator s" "denominator (snd (skip_run k ?s)) = denominator s"
    "unat (idx (snd (skip_run k ?s))) = ((unat (idx s) + 1) mod ?d + k) mod ?d"
    using Suc.IH [of ?s] Suc.prems st(2-5) by simp_all
  have run: "skip_run (Suc k) s = (fst (check_is_need_skip s) # fst (skip_run k ?s), snd (skip_run k ?s))"
    by (simp split: prod.splits)
  show ?case unfolding run fst_conv snd_conv m ih st(1) end' by simp
qed

lemma length_filter_rotate1: "length (filter P (rotate1 xs)) = length (filter P xs)"
  by (cases xs) simp_all

text \<open>A full turn of the counter visits every residue once.\<close>

lemma count_full_turn:
  fixes d n i :: nat
  assumes "0 < d" and "n \<le> d"
  shows "length (filter (\<lambda>j. d - n \<le> (i + j) mod d) [0..<d]) = n"
proof -
  have "map (\<lambda>j. (i + j) mod d) [0..<d] = rotate i [0..<d]"
    using assms by (intro nth_equalityI) (simp_all add: nth_rotate)
  then have "length (filter (\<lambda>j. d - n \<le> (i + j) mod d) [0..<d])
      = length (filter ((\<le>) (d - n)) (rotate i [0..<d]))"
    by (metis (no_types, lifting) filter_map length_map o_def filter_cong)
  also have "\<dots> = length (filter ((\<le>) (d - n)) [0..<d])"
    by (induction i) (simp_all add: length_filter_rotate1)
  also have "\<dots> = card {j. j < d \<and> d - n \<le> j}"
    unfolding length_filter_conv_card by (rule arg_cong [where f = card]) auto
  also have "{j. j < d \<and> d - n \<le> j} = {d - n..<d}" by auto
  finally show ?thesis using assms by simp
qed


lemma skip_run_add:
  "skip_run (a + b) s = (let r = skip_run a s; r' = skip_run b (snd r) in (fst r @ fst r', snd r'))"
  by (induction a arbitrary: s) (simp_all add: Let_def split: prod.splits)

text \<open>A pipe drops exactly the configured fraction. Of \<open>k\<close> times \<open>denominator\<close> buffers pushed in a
  row, wherever in its cycle the counter stands, exactly \<open>k\<close> times \<open>numerator\<close> are skipped, and
  the counter is back where it was.\<close>

theorem skip_fraction_exact:
  assumes "0 < numerator s" and "numerator s \<le> denominator s" and "idx s < denominator s"
  shows "length (filter id (fst (skip_run (k * unat (denominator s)) s))) = k * unat (numerator s)
    \<and> snd (skip_run (k * unat (denominator s)) s) = s"
proof (induction k)
  case (Suc k)
  let ?d = "unat (denominator s)" and ?n = "unat (numerator s)"
  have d: "0 < ?d" "?n \<le> ?d" "unat (idx s) < ?d"
    using assms by (auto simp: word_le_nat_alt word_less_nat_alt)
  note eq = skip_run_eq [OF assms, of ?d]
  have one: "length (filter id (fst (skip_run ?d s))) = ?n"
    using eq count_full_turn [OF d(1,2), of "unat (idx s)"] by (simp add: filter_map o_def)
  have "idx (snd (skip_run ?d s)) = idx s" using eq d(3) by (intro word_eqI_unat) simp
  then have same: "snd (skip_run ?d s) = s" using eq by (simp add: pipe_skip.equality)
  show ?case using Suc one same skip_run_add [of ?d "k * ?d" s] by (simp add: Let_def id_def)
qed simp

theorem skip_fraction_exact_witness:
  "length (filter id (fst (skip_run (2 * unat (5 :: u32)) \<lparr>numerator = 2, denominator = 5, idx = 3\<rparr>))) = 2 * unat (2 :: u32)"
  using skip_fraction_exact [of "\<lparr>numerator = 2, denominator = 5, idx = 3\<rparr>" 2] by simp


section \<open>References in a pipe\<close>

text \<open>
  A pipe and its users: pushes, takes (a pop and a put of what came out, as \<open>pitcher_unit_run\<close>
  does after the run function), clears.
\<close>

datatype pipe_op = PPush u64 | PTake | PClear

fun pipe_step :: "('e pworld, 'x) pipe_env_scheme \<Rightarrow> u64 \<Rightarrow> pipe_op \<Rightarrow> 'e pworld \<Rightarrow> 'e pworld option" where
  "pipe_step env p (PPush b) w = map_option snd (pitcher_pipe_push_back env p b w)"
| "pipe_step env p PTake w =
     do { (b, w) \<leftarrow> pitcher_pipe_pop p w; if b \<noteq> 0 then pitcher_put_buffer env b w else Some w }"
| "pipe_step env p PClear w = map_option snd (pitcher_pipe_clear env p w)"

fun pipe_run :: "('e pworld, 'x) pipe_env_scheme \<Rightarrow> u64 \<Rightarrow> pipe_op list \<Rightarrow> 'e pworld \<Rightarrow> 'e pworld option" where
  "pipe_run env p [] w = Some w"
| "pipe_run env p (op # ops) w = do { w \<leftarrow> pipe_step env p op w; pipe_run env p ops w }"

text \<open>
  Every buffer's count is what others hold (\<open>ext\<close>) plus its occurrences in the list \<open>xs\<close>.
\<close>

definition refs_ok :: "(u64 \<Rightarrow> nat) \<Rightarrow> u64 set \<Rightarrow> u64 list \<Rightarrow> 'e heap_scheme \<Rightarrow> bool" where
  "refs_ok ext D xs w \<longleftrightarrow> dom (bufs w) = D \<and> set xs \<subseteq> D - {0}
     \<and> (\<forall>b e. bufs w b = Some e \<longrightarrow> unat (refcount (obj e)) = ext b + count_list xs b)"

definition pipe_inv :: "(u64 \<Rightarrow> nat) \<Rightarrow> u64 set \<Rightarrow> u64 \<Rightarrow> nat \<Rightarrow> 'e pworld \<Rightarrow> bool" where
  "pipe_inv ext D p n w \<longleftrightarrow> (\<exists>pi. pipe_at p w = Some pi \<and> qwf (pqueue pi)
     \<and> (pdst pi = 0 \<or> notify pi = 0) \<and> length (qels (pqueue pi)) \<le> n
     \<and> refs_ok ext D (qels (pqueue pi)) w \<and> never_null (wmem w))"

lemma set_pipe_simps [simp]:
  "bufs (set_pipe p pi w) = bufs w" "wmem (set_pipe p pi w) = wmem w"
  "pipes (set_pipe p pi w) = (pipes w)(p \<mapsto> pi)"
  by (simp_all add: set_pipe_def)

lemma refs_ok_cong: "bufs w' = bufs w \<Longrightarrow> refs_ok ext D xs w' = refs_ok ext D xs w"
  by (simp add: refs_ok_def)

lemma set_buf_pipes [simp]: "pipes (set_buf b e w) = pipes w"
  by (simp add: set_buf_def)

lemma count_list_le: "count_list xs b \<le> length xs"
  by (induction xs) auto

text \<open>Taking one reference puts one more occurrence on the list; dropping one takes it off.\<close>

lemma get_buffer_refs:
  assumes "refs_ok ext D xs w" and "b \<in> D" and "b \<noteq> 0" and "ext b + length xs + 1 < 2 ^ 32"
  shows "\<exists>w'. pitcher_get_buffer b w = Some (b, w') \<and> refs_ok ext D (xs @ [b]) w' \<and> wmem w' = wmem w
    \<and> pipe_heap.pipes w' = pipe_heap.pipes (w :: 'e pworld)"
proof -
  obtain e where e: "bufs w b = Some e" using assms(1,2) by (auto simp: refs_ok_def)
  let ?r = "refcount (obj e)"
  have r: "unat ?r = ext b + count_list xs b" using assms(1) e by (auto simp: refs_ok_def)
  have "unat (?r + 1) = unat ?r + 1"
    using r assms(4) count_list_le [of xs b] by (subst unat_plus_no_ovf) simp_all
  then show ?thesis
    using get_buffer_eq [OF assms(3) e] assms(1-3) e r by (auto simp: refs_ok_def)
qed

lemma put_buffer_refs:
  assumes "refs_ok ext D (b # xs) w" and "1 \<le> ext b"
  shows "\<exists>w'. pitcher_put_buffer env b w = Some w' \<and> refs_ok ext D xs w' \<and> wmem w' = wmem w
    \<and> pipe_heap.pipes w' = pipe_heap.pipes (w :: 'e pworld)"
proof -
  obtain e where e: "bufs w b = Some e" and b: "b \<noteq> 0" using assms(1) by (auto simp: refs_ok_def)
  let ?r = "refcount (obj e)"
  have r: "unat ?r = ext b + count_list xs b + 1" using assms(1) e by (auto simp: refs_ok_def)
  then have gt: "1 < ?r" using assms(2) by (simp add: word_less_nat_alt)
  have "unat (?r - 1) = unat ?r - 1" using unat_minus_le [of 1 ?r] gt by (simp add: order.strict_implies_order)
  then show ?thesis
    using put_buffer_eq [OF b e gt, of env] assms(1) e r by (auto simp: refs_ok_def)
qed

lemma clear_pipe_queue_refs:
  assumes "pipe_inv ext D p n (w :: 'e pworld)" and "\<forall>b. 1 \<le> ext b"
  shows "\<exists>w'. clear_pipe_queue env p w = Some w' \<and> pipe_inv ext D p 0 w'"
proof -
  obtain pi q where pi: "pipe_at p w = Some pi" "pqueue pi = Some q" "queue_wf q" "pdst pi = 0 \<or> notify pi = 0"
    "refs_ok ext D (elems q) w" "never_null (wmem w)"
    using assms(1) by (auto simp: pipe_inv_def qdefs split: option.splits)
  define P where "P = (\<lambda>xs (k :: int) (m, w' :: 'e pworld). refs_ok ext D xs w' \<and> never_null m \<and> pipes w' = pipes w)"
  have init: "P (elems q) (int (nodes q)) (wmem w, w)" using pi by (simp add: P_def)
  have step: "\<exists>m' s'. (case Some (on_world (clear_queue_item env)) of None \<Rightarrow> Some (m, v)
      | Some f \<Rightarrow> map_option snd (f x (m, v))) = Some (m', s') \<and> P xs k (m', s')"
    if "P (x # xs) k (m, v)" for x xs k m v
  proof -
    have p: "refs_ok ext D (x # xs) (v\<lparr>wmem := m\<rparr>)" "never_null m" "pipes v = pipes w"
      using that by (auto simp: P_def refs_ok_def)
    obtain w' where w': "pitcher_put_buffer env x (v\<lparr>wmem := m\<rparr>) = Some w'" "refs_ok ext D xs w'"
      "wmem w' = m" "pipes w' = pipes v"
      using put_buffer_refs [OF p(1)] assms(2) by auto
    have "x \<noteq> 0" using p(1) by (auto simp: refs_ok_def)
    then show ?thesis using w' p by (simp add: on_world_def clear_queue_item_def P_def)
  qed
  have free: "P xs (k - 1) (pitcher_free m, v)" if "P xs k (m, v)" for xs k m v
    using that by (simp add: P_def)
  obtain q' m' v where c: "pitcher_queue_clear (Some q) (Some (on_world (clear_queue_item env))) (wmem w) w = Some (Some q', m', v)"
    "queue_wf q'" "elems q' = []" "P [] (int (nodes q')) (m', v)"
    using pitcher_queue_clear_rule [where P = P, OF pi(3) init step free] by blast
  have "refs_ok ext D [] v" "never_null m'" "pipes v = pipes w" using c(4) by (simp_all add: P_def)
  then show ?thesis using c pi
    by (auto simp: clear_pipe_queue_def pipe_inv_def pipe_at_def qdefs refs_ok_def split: if_splits)
qed

lemma push_refs:
  assumes "pipe_inv ext D p n (w :: 'e pworld)" and "b \<in> D \<or> b = 0" and "ext b + n + 1 < 2 ^ 32"
  shows "\<exists>r w'. pitcher_pipe_push_back env p b w = Some (r, w') \<and> pipe_inv ext D p (Suc n) w'"
proof (cases "b = 0")
  case True
  then show ?thesis using assms(1) by (auto simp: pitcher_pipe_push_back_def pipe_inv_def)
next
  case False
  obtain pi where pi: "pipe_at p w = Some pi" "qwf (pqueue pi)" "pdst pi = 0 \<or> notify pi = 0"
    "refs_ok ext D (qels (pqueue pi)) w" "never_null (wmem w)" "length (qels (pqueue pi)) \<le> n"
    using assms(1) by (auto simp: pipe_inv_def)
  have p: "p \<noteq> 0" using pi(1) by (auto simp: pipe_at_def)
  obtain sk s where sk: "check_is_need_skip (skip pi) = (sk, s)" by force
  let ?w = "set_pipe p (pi\<lparr>skip := s\<rparr>) w"
  have rw: "refs_ok ext D (qels (pqueue pi)) ?w" using pi(4) by (simp add: refs_ok_def)
  show ?thesis
  proof (cases sk)
    case True
    then show ?thesis using pi rw sk False p
      by (auto simp: pitcher_pipe_push_back_def pipe_inv_def pipe_at_def refs_ok_def)
  next
    case no_skip: False
    obtain w1 where g: "pitcher_get_buffer b ?w = Some (b, w1)"
      "refs_ok ext D (qels (pqueue pi) @ [b]) w1" "wmem w1 = wmem w" "pipes w1 = pipes ?w"
      using get_buffer_refs [OF rw _ False] assms(2,3) pi(6) False by auto
    obtain r q m where q: "pitcher_queue_push_back (pqueue pi) b (wmem w) = (r, q, m)" by (rule prod_cases3)
    note pq = qfifo.push_never_null [OF pi(2,5) q]
    let ?w2 = "set_pipe p (pi\<lparr>skip := s, pqueue := q\<rparr>) (w1\<lparr>wmem := m\<rparr>)"
    have "pitcher_pipe_push_back env p b w = Some (r, ?w2)"
      using pi(1,3) sk no_skip False g(1,3) q by (auto simp: pitcher_pipe_push_back_def)
    moreover have "pipe_inv ext D p (Suc n) ?w2"
      using pq pi(3,6) g(2) p by (auto simp: pipe_inv_def pipe_at_def refs_ok_def)
    ultimately show ?thesis by blast
  qed
qed

lemma take_refs:
  assumes "pipe_inv ext D p n (w :: 'e pworld)" and "\<forall>b. 1 \<le> ext b"
  shows "\<exists>w'. pipe_step env p PTake w = Some w' \<and> pipe_inv ext D p n w'"
proof -
  obtain pi where pi: "pipe_at p w = Some pi" "qwf (pqueue pi)" "pdst pi = 0 \<or> notify pi = 0"
    "refs_ok ext D (qels (pqueue pi)) w" "never_null (wmem w)" "length (qels (pqueue pi)) \<le> n"
    using assms(1) by (auto simp: pipe_inv_def)
  have p: "p \<noteq> 0" using pi(1) by (auto simp: pipe_at_def)
  show ?thesis
  proof (cases "qels (pqueue pi)")
    case Nil
    then show ?thesis using pi p qfifo.pop_empty [OF pi(2) Nil, of "wmem w"]
      by (auto simp: pitcher_pipe_pop_def pipe_inv_def pipe_at_def refs_ok_def)
  next
    case (Cons b xs)
    obtain q m where q: "pitcher_queue_pop (pqueue pi) (wmem w) = (0, Some b, q, m)" "qwf q" "qels q = xs" "never_null m"
      using qfifo.pop_first [OF pi(2) Cons, of "wmem w"] pi(5) by auto
    let ?w = "set_pipe p (pi\<lparr>pqueue := q\<rparr>) (w\<lparr>wmem := m\<rparr>)"
    have r: "refs_ok ext D (b # xs) ?w" using pi(4) Cons by (simp add: refs_ok_def)
    obtain w2 where w2: "pitcher_put_buffer env b ?w = Some w2" "refs_ok ext D xs w2" "wmem w2 = m" "pipes w2 = pipes ?w"
      using put_buffer_refs [OF r] assms(2) by auto
    have "b \<noteq> 0" using r by (auto simp: refs_ok_def)
    then show ?thesis using pi q w2 Cons p
      by (auto simp: pitcher_pipe_pop_def pipe_inv_def pipe_at_def)
  qed
qed

lemma pipe_step_refs:
  assumes "pipe_inv ext D p n w" and "\<forall>b. 1 \<le> ext b \<and> ext b + n + 1 < 2 ^ 32"
    and "case op of PPush b \<Rightarrow> b \<in> D \<or> b = 0 | _ \<Rightarrow> True"
  shows "\<exists>w'. pipe_step env p op w = Some w' \<and> pipe_inv ext D p (Suc n) w'"
proof (cases op)
  case (PPush b)
  have "b \<in> D \<or> b = 0" "ext b + n + 1 < 2 ^ 32" using assms(2,3) PPush by auto
  from push_refs [OF assms(1) this, of env] show ?thesis using PPush by auto
next
  case PTake
  have "\<forall>b. 1 \<le> ext b" using assms(2) by blast
  from take_refs [OF assms(1) this, of env] show ?thesis using PTake by (auto simp: pipe_inv_def)
next
  case PClear
  have "\<forall>b. 1 \<le> ext b" using assms(2) by blast
  from clear_pipe_queue_refs [OF assms(1) this, of env] show ?thesis using PClear
    by (auto simp: pitcher_pipe_clear_def pipe_inv_def)
qed


definition demo_buf :: ext_buffer where
  "demo_buf = \<lparr>buffer = \<lparr>bcount = 1, planes = [zero_plane], index = 0, flags = 0, priv = 0, format = 0, crop = 0\<rparr>,
     obj = \<lparr>refcount = 1, obj_name = [], release = RELEASE_BUFFER\<rparr>, init_plane = ALLOC_PLANE,
     uninit_plane = FREE_PLANE, recycle = AUTO_REMOVE, barg = 0\<rparr>"

definition demo_pipe :: pitcher_pipe where
  "demo_pipe = \<lparr>psrc = 0, pdst = 0, pqueue = Some \<lparr>queue = [], idles = [], idle_num = 0, count = 0\<rparr>,
     skip = \<lparr>numerator = 0, denominator = 1, idx = 0\<rparr>, notify = 0\<rparr>"

definition demo_pworld :: pipe_heap where
  "demo_pworld = \<lparr>wmem = demo_mem, bufs = [7 \<mapsto> demo_buf], pipes = [5 \<mapsto> demo_pipe]\<rparr>"

lemma demo_pipe_inv: "pipe_inv (\<lambda>_. 1) {7} 5 0 demo_pworld"
  by (auto simp: pipe_inv_def pipe_at_def demo_pworld_def demo_pipe_def demo_buf_def qdefs queue_wf_def
      elems_def refs_ok_def dom_def split: if_splits)


text \<open>When the node for the queue cannot be allocated, \<open>pitcher_pipe_push_back\<close> returns
  \<open>-RET_E_NO_MEMORY\<close> but keeps the reference it took: the buffer is not in the pipe and its
  count is one too high, so it is never released.\<close>

theorem pipe_push_leaks:
  assumes "pipe_at p w = Some pi" and "pqueue pi = Some q" and "queue_wf q" and "idles q = []"
    and "\<not> alloc_ok (wmem w)" and "numerator (skip pi) = 0" and "notify pi = 0"
    and "b \<noteq> 0" and "bufs w b = Some e"
  shows "\<exists>w' pi'. pitcher_pipe_push_back env p b w = Some (err RET_E_NO_MEMORY, w')
    \<and> pipe_at p w' = Some pi' \<and> qels (pqueue pi') = qels (pqueue pi)
    \<and> pitcher_get_buffer_refcount b w' = Some (refcount (obj e) + 1)"
proof -
  have p: "p \<noteq> 0" using assms(1) by (auto simp: pipe_at_def)
  have at: "bufs (set_pipe p pi w) b = Some e" using assms(9) by simp
  have q: "\<exists>m. pitcher_queue_push_back (Some q) b (wmem w) = (err RET_E_NO_MEMORY, Some q, m)"
    using assms(4,5) by (simp add: pitcher_queue_push_back_def queue_ops mem_defs alloc_ok_def)
  then obtain m where m: "pitcher_queue_push_back (Some q) b (wmem w) = (err RET_E_NO_MEMORY, Some q, m)" by blast
  show ?thesis
    using assms(1,2,6,7,8) p m get_buffer_eq [OF assms(8) at]
    by (simp add: pitcher_pipe_push_back_def check_is_need_skip_def pipe_at_def qdefs
        pitcher_get_buffer_refcount_def pitcher_get_obj_refcount_def buf_at_def)
qed

theorem pipe_push_leaks_witness:
  "\<exists>w' pi'. pitcher_pipe_push_back \<lparr>init_plane_fn = \<lambda>_ _ _ _ _. None, uninit_plane_fn = \<lambda>_ _ _ _ _. None,
       recycle_fn = \<lambda>_ _ _ _. None, notify_fn = \<lambda>_ _ _. None\<rparr> 5 7
       (demo_pworld\<lparr>wmem := demo_mem\<lparr>calloc_res := \<lambda>_. 0\<rparr>\<rparr>) = Some (err RET_E_NO_MEMORY, w')
     \<and> pipe_at 5 w' = Some pi' \<and> qels (pqueue pi') = qels (pqueue demo_pipe)
     \<and> pitcher_get_buffer_refcount 7 w' = Some (refcount (obj demo_buf) + 1)"
  by (rule pipe_push_leaks [where q = "\<lparr>queue = [], idles = [], idle_num = 0, count = 0\<rparr>"])
    (simp_all add: pipe_at_def demo_pworld_def demo_pipe_def queue_wf_def alloc_ok_def)

end
