(* ===== verification/PUnit.thy ===== *)
theory PUnit
  imports Pipe "HOL-Library.Sublist"
begin

text \<open>
  The processing units (\<open>pitcher/unit.c\<close>): a descriptor with the operations of the unit, one
  input pipe, up to sixteen output pipes, and the queue of the unit's idle buffers.

  The unit operations behind the function pointers of a descriptor are fields of \<open>unit_env\<close>.
\<close>

section \<open>Definitions\<close>

record pitcher_unit_desc =
  ud_name :: string
  ud_init :: u64
  ud_cleanup :: u64
  ud_alloc_buffer :: u64
  ud_start :: u64
  ud_stop :: u64
  ud_check_ready :: u64
  ud_runfunc :: u64
  ud_buffer_count :: u32
  ud_fd :: int
  ud_events :: u32

record pitcher_unit =
  udesc :: pitcher_unit_desc
  uarg :: u64
  uin :: u64
  outs :: "u64 list"
  uidles :: "queue_t option"
  ubuffer_count :: u32
  enable :: bool

definition MAX_UNIT_OUTPUT_COUNT :: nat where
  "MAX_UNIT_OUTPUT_COUNT = 16"

record unit_heap = pipe_heap +
  units :: "u64 \<Rightarrow> pitcher_unit option"

type_synonym 'e uworld = "'e unit_heap_scheme"

record 'w unit_env = "'w pipe_env" +
  init_fn :: "u64 \<Rightarrow> u64 \<Rightarrow> 'w \<Rightarrow> (int \<times> 'w) option"
  cleanup_fn :: "u64 \<Rightarrow> u64 \<Rightarrow> 'w \<Rightarrow> (int \<times> 'w) option"
  alloc_buffer_fn :: "u64 \<Rightarrow> u64 \<Rightarrow> 'w \<Rightarrow> (u64 \<times> 'w) option"
  start_fn :: "u64 \<Rightarrow> u64 \<Rightarrow> 'w \<Rightarrow> (int \<times> 'w) option"
  stop_fn :: "u64 \<Rightarrow> u64 \<Rightarrow> 'w \<Rightarrow> (int \<times> 'w) option"
  check_ready_fn :: "u64 \<Rightarrow> u64 \<Rightarrow> 'w \<Rightarrow> (int \<times> int \<times> 'w) option"
  runfunc_fn :: "u64 \<Rightarrow> u64 \<Rightarrow> u64 \<Rightarrow> 'w \<Rightarrow> (int \<times> 'w) option"

type_synonym ('e, 'x) uenv = "('e uworld, 'x) unit_env_scheme"

definition unit_at :: "u64 \<Rightarrow> 'e uworld \<Rightarrow> pitcher_unit option" where
  "unit_at u w = (if u = 0 then None else units w u)"

definition set_unit :: "u64 \<Rightarrow> pitcher_unit \<Rightarrow> 'e uworld \<Rightarrow> 'e uworld" where
  "set_unit u un w = w\<lparr>units := (units w)(u \<mapsto> un)\<rparr>"

definition free_unit :: "u64 \<Rightarrow> 'e uworld \<Rightarrow> 'e uworld" where
  "free_unit u w = w\<lparr>units := (units w)(u := None), wmem := pitcher_free (wmem w)\<rparr>"

text \<open>\<open>SAFE_RELEASE(unit->idles, pitcher_destroy_queue)\<close>.\<close>

definition release_idles :: "u64 \<Rightarrow> 'e uworld \<Rightarrow> 'e uworld option" where
  "release_idles u w =
     do {
       un \<leftarrow> unit_at u w;
       Some (set_unit u (un\<lparr>uidles := None\<rparr>) (w\<lparr>wmem := pitcher_destroy_queue (uidles un) (wmem w)\<rparr>))
     }"

definition pitcher_new_unit ::
    "('e, 'x) uenv \<Rightarrow> pitcher_unit_desc option \<Rightarrow> u64 \<Rightarrow> 'e uworld \<Rightarrow> (u64 \<times> 'e uworld) option" where
  "pitcher_new_unit env dsc arg w =
     (case dsc of
        None \<Rightarrow> Some (0, w)
      | Some d \<Rightarrow>
          if ud_check_ready d = 0 \<or> ud_runfunc d = 0 then Some (0, w)
          else
            (case pitcher_calloc (wmem w) of (u, m) \<Rightarrow>
               if u = 0 then Some (0, w\<lparr>wmem := m\<rparr>)
               else
                 (case pitcher_init_queue m of (q, m) \<Rightarrow>
                    let w = set_unit u
                          \<lparr>udesc = d, uarg = arg, uin = 0, outs = replicate MAX_UNIT_OUTPUT_COUNT 0,
                           uidles = q, ubuffer_count = 0, enable = False\<rparr> (w\<lparr>wmem := m\<rparr>)
                    in if q = None then do { w \<leftarrow> release_idles u w; Some (0, free_unit u w) }
                       else if ud_init d \<noteq> 0
                       then do {
                         (ret, w) \<leftarrow> init_fn env (ud_init d) arg w;
                         if ret < 0 then do { w \<leftarrow> release_idles u w; Some (0, free_unit u w) }
                         else Some (u, w)
                       }
                       else Some (u, w))))"

text \<open>
  Clearing the idle queue with \<open>__clear_buffer\<close> or \<open>__del_buffer_func\<close>, which both drop the
  reference of the queue.
\<close>

definition clear_idles :: "('e, 'x) uenv \<Rightarrow> u64 \<Rightarrow> 'e uworld \<Rightarrow> 'e uworld option" where
  "clear_idles env u w =
     do {
       un \<leftarrow> unit_at u w;
       (q, m, w) \<leftarrow> pitcher_queue_clear (uidles un) (Some (on_world (clear_queue_item env))) (wmem w) w;
       un \<leftarrow> unit_at u w;
       Some (set_unit u (un\<lparr>uidles := q\<rparr>) (w\<lparr>wmem := m\<rparr>))
     }"

definition pitcher_del_unit :: "('e, 'x) uenv \<Rightarrow> u64 \<Rightarrow> 'e uworld \<Rightarrow> 'e uworld option" where
  "pitcher_del_unit env u w =
     (if u = 0 then Some w
      else
        do {
          un \<leftarrow> unit_at u w;
          w \<leftarrow> (if ud_cleanup (udesc un) \<noteq> 0
                then map_option snd (cleanup_fn env (ud_cleanup (udesc un)) (uarg un) w) else Some w);
          un \<leftarrow> unit_at u w;
          w \<leftarrow> (if uidles un \<noteq> None then clear_idles env u w else Some w);
          w \<leftarrow> release_idles u w;
          Some (free_unit u w)
        })"

definition pitcher_set_unit_input :: "u64 \<Rightarrow> u64 \<Rightarrow> 'e uworld \<Rightarrow> (int \<times> 'e uworld) option" where
  "pitcher_set_unit_input u p w =
     do { un \<leftarrow> unit_at u w; Some (ret_val RET_OK, set_unit u (un\<lparr>uin := p\<rparr>) w) }"

text \<open>The first free slot from \<open>i\<close> on.\<close>

fun free_slot :: "u64 list \<Rightarrow> nat \<Rightarrow> nat option" where
  "free_slot [] i = None"
| "free_slot (x # xs) i = (if x = 0 then Some i else free_slot xs (Suc i))"

definition pitcher_add_unit_output :: "u64 \<Rightarrow> u64 \<Rightarrow> 'e uworld \<Rightarrow> (int \<times> 'e uworld) option" where
  "pitcher_add_unit_output u p w =
     do {
       un \<leftarrow> unit_at u w;
       if List.member (outs un) p then Some (ret_val RET_OK, w)
       else
         (case free_slot (outs un) 0 of
            Some i \<Rightarrow> Some (ret_val RET_OK, set_unit u (un\<lparr>outs := (outs un)[i := p]\<rparr>) w)
          | None \<Rightarrow> Some (err RET_E_FULL, w))
     }"

definition pitcher_rm_unit_output :: "u64 \<Rightarrow> u64 \<Rightarrow> 'e uworld \<Rightarrow> (int \<times> 'e uworld) option" where
  "pitcher_rm_unit_output u p w =
     do {
       un \<leftarrow> unit_at u w;
       Some (ret_val RET_OK,
             set_unit u (un\<lparr>outs := map (\<lambda>x. if x = p then 0 else x) (outs un)\<rparr>) w)
     }"

text \<open>The loop of \<open>__alloc_buffer\<close>: \<open>n\<close> buffers to go, \<open>i\<close> made so far.\<close>

fun alloc_buffers :: "('e, 'x) uenv \<Rightarrow> u64 \<Rightarrow> nat \<Rightarrow> nat \<Rightarrow> 'e uworld \<Rightarrow> (nat \<times> 'e uworld) option" where
  "alloc_buffers env u 0 i w = Some (i, w)"
| "alloc_buffers env u (Suc n) i w =
     do {
       un \<leftarrow> unit_at u w;
       (b, w) \<leftarrow> alloc_buffer_fn env (ud_alloc_buffer (udesc un)) (uarg un) w;
       if b = 0 then Some (i, w)
       else do {
         un \<leftarrow> unit_at u w;
         let (_, q, m) = pitcher_queue_push_back (uidles un) b (wmem w);
         alloc_buffers env u n (Suc i) (set_unit u (un\<lparr>uidles := q\<rparr>) (w\<lparr>wmem := m\<rparr>))
       }
     }"

definition alloc_buffer :: "('e, 'x) uenv \<Rightarrow> u64 \<Rightarrow> 'e uworld \<Rightarrow> (int \<times> 'e uworld) option" where
  "alloc_buffer env u w =
     do {
       un \<leftarrow> unit_at u w;
       if ud_buffer_count (udesc un) = 0 then Some (ret_val RET_OK, w)
       else if ud_alloc_buffer (udesc un) = 0 then Some (err RET_E_NOSYS, w)
       else do {
         (i, w) \<leftarrow> alloc_buffers env u (unat (ud_buffer_count (udesc un))) 0 w;
         un \<leftarrow> unit_at u w;
         let w = set_unit u (un\<lparr>ubuffer_count := of_nat i\<rparr>) w;
         Some (if i = 0 then err RET_E_NO_MEMORY else ret_val RET_OK, w)
       }
     }"

definition free_buffer :: "('e, 'x) uenv \<Rightarrow> u64 \<Rightarrow> 'e uworld \<Rightarrow> (int \<times> 'e uworld) option" where
  "free_buffer env u w =
     do {
       un \<leftarrow> unit_at u w;
       if ubuffer_count un = 0 then Some (ret_val RET_OK, w)
       else do { w \<leftarrow> clear_idles env u w; Some (ret_val RET_OK, w) }
     }"

definition clear_input_buffer :: "('e, 'x) uenv \<Rightarrow> u64 \<Rightarrow> 'e uworld \<Rightarrow> (int \<times> 'e uworld) option" where
  "clear_input_buffer env u w =
     do {
       un \<leftarrow> unit_at u w;
       if uin un = 0 then Some (ret_val RET_OK, w) else pitcher_pipe_clear env (uin un) w
     }"

definition pitcher_unit_start :: "('e, 'x) uenv \<Rightarrow> u64 \<Rightarrow> 'e uworld \<Rightarrow> (int \<times> 'e uworld) option" where
  "pitcher_unit_start env u w =
     do {
       (ret, w) \<leftarrow> alloc_buffer env u w;
       if ret < 0 then Some (ret, w)
       else do {
         un \<leftarrow> unit_at u w;
         (ret, w) \<leftarrow> (if ud_start (udesc un) \<noteq> 0 then start_fn env (ud_start (udesc un)) (uarg un) w
                      else Some (ret_val RET_OK, w));
         if ret < 0 then do { (_, w) \<leftarrow> free_buffer env u w; Some (ret, w) }
         else do {
           un \<leftarrow> unit_at u w;
           Some (ret, set_unit u (un\<lparr>enable := True\<rparr>) w)
         }
       }
     }"

definition pitcher_unit_stop :: "('e, 'x) uenv \<Rightarrow> u64 \<Rightarrow> 'e uworld \<Rightarrow> (int \<times> 'e uworld) option" where
  "pitcher_unit_stop env u w =
     do {
       un \<leftarrow> unit_at u w;
       (ret, w) \<leftarrow> (if ud_stop (udesc un) \<noteq> 0 then stop_fn env (ud_stop (udesc un)) (uarg un) w
                    else Some (ret_val RET_OK, w));
       if ret < 0 then Some (ret, w)
       else do {
         un \<leftarrow> unit_at u w;
         (ret, w) \<leftarrow> free_buffer env u (set_unit u (un\<lparr>enable := False\<rparr>) w);
         (_, w) \<leftarrow> clear_input_buffer env u w;
         Some (ret, w)
       }
     }"

text \<open>The result, the end flag, and the state.\<close>

definition pitcher_unit_check_ready :: "('e, 'x) uenv \<Rightarrow> u64 \<Rightarrow> 'e uworld \<Rightarrow> (int \<times> int \<times> 'e uworld) option" where
  "pitcher_unit_check_ready env u w =
     do {
       un \<leftarrow> unit_at u w;
       if ud_check_ready (udesc un) = 0 then None
       else check_ready_fn env (ud_check_ready (udesc un)) (uarg un) w
     }"

definition pitcher_unit_run :: "('e, 'x) uenv \<Rightarrow> u64 \<Rightarrow> 'e uworld \<Rightarrow> (int \<times> 'e uworld) option" where
  "pitcher_unit_run env u w =
     do {
       un \<leftarrow> unit_at u w;
       if ud_runfunc (udesc un) = 0 then None
       else if \<not> enable un then Some (err RET_E_NOT_READY, w)
       else do {
         (b, w) \<leftarrow> (if uin un \<noteq> 0 then pitcher_pipe_pop (uin un) w else Some (0, w));
         un \<leftarrow> unit_at u w;
         (ret, w) \<leftarrow> runfunc_fn env (ud_runfunc (udesc un)) (uarg un) b w;
         w \<leftarrow> (if b \<noteq> 0 then pitcher_put_buffer env b w else Some w);
         Some (ret, w)
       }
     }"

definition pitcher_is_unit_idle_empty :: "u64 \<Rightarrow> 'e uworld \<Rightarrow> int option" where
  "pitcher_is_unit_idle_empty u w =
     do { un \<leftarrow> unit_at u w; q \<leftarrow> uidles un; Some (pitcher_queue_is_empty (Some q)) }"

definition pitcher_get_unit_idle_buffer :: "u64 \<Rightarrow> 'e uworld \<Rightarrow> (u64 \<times> 'e uworld) option" where
  "pitcher_get_unit_idle_buffer u w =
     do {
       un \<leftarrow> unit_at u w;
       q \<leftarrow> uidles un;
       let (ret, x, q, m) = pitcher_queue_pop (Some q) (wmem w);
       let w = set_unit u (un\<lparr>uidles := q\<rparr>) (w\<lparr>wmem := m\<rparr>);
       if ret < 0 then Some (0, w) else do { x \<leftarrow> x; Some (x, w) }
     }"

definition pitcher_put_unit_buffer_idle :: "u64 \<Rightarrow> u64 \<Rightarrow> 'e uworld \<Rightarrow> 'e uworld option" where
  "pitcher_put_unit_buffer_idle u b w =
     do {
       un \<leftarrow> unit_at u w;
       q \<leftarrow> uidles un;
       if \<not> enable un then Some w
       else if b = 0 then Some w
       else do {
         (_, w) \<leftarrow> pitcher_get_buffer b w;
         let (_, q, m) = pitcher_queue_push_back (Some q) b (wmem w);
         Some (set_unit u (un\<lparr>uidles := q\<rparr>) (w\<lparr>wmem := m\<rparr>))
       }
     }"

text \<open>The loop of \<open>pitcher_unit_push_back_output\<close> over the output slots from \<open>i\<close> on, \<open>n\<close> of them.\<close>

fun push_outputs :: "('e, 'x) uenv \<Rightarrow> u64 \<Rightarrow> nat \<Rightarrow> nat \<Rightarrow> u64 \<Rightarrow> 'e uworld \<Rightarrow> 'e uworld option" where
  "push_outputs env u 0 i b w = Some w"
| "push_outputs env u (Suc n) i b w =
     do {
       un \<leftarrow> unit_at u w;
       p \<leftarrow> nth_opt (outs un) i;
       w \<leftarrow> (if p = 0 then Some w else map_option snd (pitcher_pipe_push_back env p b w));
       push_outputs env u n (Suc i) b w
     }"

definition pitcher_unit_push_back_output :: "('e, 'x) uenv \<Rightarrow> u64 \<Rightarrow> u64 \<Rightarrow> 'e uworld \<Rightarrow> 'e uworld option" where
  "pitcher_unit_push_back_output env u b w =
     do {
       un \<leftarrow> unit_at u w;
       if b = 0 then Some w else push_outputs env u MAX_UNIT_OUTPUT_COUNT 0 b w
     }"

definition pitcher_get_unit_source :: "u64 \<Rightarrow> 'e uworld \<Rightarrow> u64 option" where
  "pitcher_get_unit_source u w = map_option uin (unit_at u w)"



section \<open>Connections\<close>

lemma set_unit_simps [simp]:
  "bufs (set_unit u un w) = bufs w" "wmem (set_unit u un w) = wmem w" "pipes (set_unit u un w) = pipes w"
  "units (set_unit u un w) = (units w)(u \<mapsto> un)"
  by (simp_all add: set_unit_def)

lemma set_pipe_units [simp]: "units (set_pipe p pi w) = units w"
  by (simp add: set_pipe_def)

lemma set_buf_units [simp]: "units (set_buf b e w) = units w"
  by (simp add: set_buf_def)

definition connected :: "pitcher_unit \<Rightarrow> u64 set" where
  "connected un = set (outs un) - {0}"

text \<open>Sixteen slots, no pipe in two of them.\<close>

definition outs_wf :: "pitcher_unit \<Rightarrow> bool" where
  "outs_wf un \<longleftrightarrow> length (outs un) = MAX_UNIT_OUTPUT_COUNT \<and> distinct (filter (\<lambda>p. p \<noteq> 0) (outs un))"

lemma free_slot_Some:
  "free_slot xs i = Some j \<Longrightarrow> \<exists>k. j = i + k \<and> k < length xs \<and> xs ! k = 0"
proof (induction xs arbitrary: i)
  case (Cons x xs)
  show ?case
  proof (cases "x = 0")
    case True
    then show ?thesis using Cons.prems by auto
  next
    case False
    then obtain k where "j = Suc i + k" "k < length xs" "xs ! k = 0" using Cons.IH [of "Suc i"] Cons.prems by auto
    then show ?thesis by (intro exI [of _ "Suc k"]) auto
  qed
qed simp

lemma free_slot_None: "free_slot xs i = None \<longleftrightarrow> 0 \<notin> set xs"
  by (induction xs arbitrary: i) auto

lemma filter_update_zero:
  assumes "k < length xs" and "xs ! k = 0" and "p \<noteq> 0"
  shows "\<exists>ys zs. filter (\<lambda>p. p \<noteq> 0) xs = ys @ zs \<and> filter (\<lambda>p. p \<noteq> 0) (xs[k := p]) = ys @ p # zs"
  using assms by (subst id_take_nth_drop [OF assms(1)]) (auto simp: upd_conv_take_nth_drop)

lemma outs_update:
  assumes "outs_wf un" and "k < length (outs un)" and "outs un ! k = 0" and "p \<noteq> 0" and "p \<notin> set (outs un)"
  shows "connected (un\<lparr>outs := (outs un)[k := p]\<rparr>) = insert p (connected un) \<and> outs_wf (un\<lparr>outs := (outs un)[k := p]\<rparr>)"
proof -
  obtain ys zs where f: "filter (\<lambda>p. p \<noteq> 0) (outs un) = ys @ zs"
    "filter (\<lambda>p. p \<noteq> 0) ((outs un)[k := p]) = ys @ p # zs"
    using filter_update_zero [OF assms(2-4)] by blast
  have c: "connected v = set (filter (\<lambda>p. p \<noteq> 0) (outs v))" for v by (auto simp: connected_def)
  have "p \<notin> set (filter (\<lambda>p. p \<noteq> 0) (outs un))" using assms(5) by simp
  then show ?thesis using assms(1) f unfolding c outs_wf_def by auto
qed

lemma length_filter_all: "length (filter P xs) = length xs \<longleftrightarrow> (\<forall>x \<in> set xs. P x)"
  using length_filter_less [of _ xs P] by (auto simp: order.strict_iff_order filter_id_conv)

text \<open>The outputs of a unit are a set of at most sixteen pipes. Adding a pipe twice changes
  nothing, adding a new one succeeds exactly when a slot is free and adds that pipe only, and
  \<open>-RET_E_FULL\<close> is returned with nothing changed otherwise; removing a pipe removes that pipe only.\<close>

theorem unit_outputs_are_a_set:
  assumes "unit_at u w = Some un" and "outs_wf un" and "p \<noteq> 0"
  shows "(\<exists>r w' un'. pitcher_add_unit_output u p w = Some (r, w') \<and> unit_at u w' = Some un' \<and> outs_wf un'
      \<and> (if p \<in> connected un \<or> card (connected un) < MAX_UNIT_OUTPUT_COUNT
         then r = 0 \<and> connected un' = insert p (connected un)
         else r = err RET_E_FULL \<and> w' = w))
    \<and> (\<exists>w' un'. pitcher_rm_unit_output u p w = Some (0, w') \<and> unit_at u w' = Some un' \<and> outs_wf un'
      \<and> connected un' = connected un - {p})"
proof
  have u: "u \<noteq> 0" using assms(1) by (auto simp: unit_at_def)
  have card: "card (connected un) = length (filter (\<lambda>p. p \<noteq> 0) (outs un))"
    using assms(2) distinct_card [of "filter (\<lambda>p. p \<noteq> 0) (outs un)"]
    by (auto simp: outs_wf_def connected_def set_diff_eq)
  have full: "0 \<notin> set (outs un) \<longleftrightarrow> card (connected un) = MAX_UNIT_OUTPUT_COUNT"
    unfolding card using assms(2) length_filter_all [of "\<lambda>p. p \<noteq> 0" "outs un"] by (auto simp: outs_wf_def)
  have le: "card (connected un) \<le> MAX_UNIT_OUTPUT_COUNT"
    unfolding card using assms(2) length_filter_le [of "\<lambda>p. p \<noteq> 0" "outs un"] by (simp add: outs_wf_def)
  show "\<exists>r w' un'. pitcher_add_unit_output u p w = Some (r, w') \<and> unit_at u w' = Some un' \<and> outs_wf un'
      \<and> (if p \<in> connected un \<or> card (connected un) < MAX_UNIT_OUTPUT_COUNT
         then r = 0 \<and> connected un' = insert p (connected un) else r = err RET_E_FULL \<and> w' = w)"
  proof (cases "p \<in> set (outs un)")
    case True
    then show ?thesis using assms by (auto simp: pitcher_add_unit_output_def connected_def)
  next
    case False
    show ?thesis
    proof (cases "free_slot (outs un) 0")
      case None
      then have "card (connected un) = MAX_UNIT_OUTPUT_COUNT" using full free_slot_None by blast
      moreover have "p \<notin> connected un" using False by (simp add: connected_def)
      moreover have "pitcher_add_unit_output u p w = Some (err RET_E_FULL, w)"
        using assms(1) False None by (simp add: pitcher_add_unit_output_def)
      ultimately show ?thesis using assms(1,2) by auto
    next
      case (Some k)
      then have k: "k < length (outs un)" "outs un ! k = 0" using free_slot_Some [of "outs un" 0 k] by auto
      have "card (connected un) < MAX_UNIT_OUTPUT_COUNT" using full le nth_mem [OF k(1)] k(2) by (metis le_neq_implies_less)
      then show ?thesis using outs_update [OF assms(2) k assms(3) False] assms(1) u Some False
        by (auto simp: pitcher_add_unit_output_def unit_at_def)
    qed
  qed
  have "filter (\<lambda>x. x \<noteq> 0) (map (\<lambda>x. if x = p then 0 else x) xs) = filter (\<lambda>x. x \<noteq> p) (filter (\<lambda>x. x \<noteq> 0) xs)" for xs
    using assms(3) by (induction xs) auto
  then show "\<exists>w' un'. pitcher_rm_unit_output u p w = Some (0, w') \<and> unit_at u w' = Some un' \<and> outs_wf un'
      \<and> connected un' = connected un - {p}"
    using assms u distinct_filter [of "filter (\<lambda>x. x \<noteq> 0) (outs un)" "\<lambda>x. x \<noteq> p"]
    by (auto simp: pitcher_rm_unit_output_def unit_at_def outs_wf_def connected_def)
qed

definition demo_unit :: pitcher_unit where
  "demo_unit = \<lparr>udesc = \<lparr>ud_name = ''demo'', ud_init = 0, ud_cleanup = 0, ud_alloc_buffer = 0, ud_start = 0,
     ud_stop = 0, ud_check_ready = 1, ud_runfunc = 1, ud_buffer_count = 1, ud_fd = -1, ud_events = 0\<rparr>,
     uarg = 0, uin = 0, outs = 5 # replicate 15 0,
     uidles = Some \<lparr>queue = [\<lparr>item = 7\<rparr>], idles = [], idle_num = 0, count = 1\<rparr>,
     ubuffer_count = 1, enable = True\<rparr>"

definition demo_uworld :: unit_heap where
  "demo_uworld = \<lparr>wmem = demo_mem, bufs = [7 \<mapsto> demo_buf], pipes = [5 \<mapsto> demo_pipe], units = [3 \<mapsto> demo_unit]\<rparr>"

text \<open>An environment in which no callback may be called.\<close>

definition null_uenv :: "unit_heap unit_env" where
  "null_uenv = \<lparr>init_plane_fn = \<lambda>_ _ _ _ _. None, uninit_plane_fn = \<lambda>_ _ _ _ _. None, recycle_fn = \<lambda>_ _ _ _. None,
     notify_fn = \<lambda>_ _ _. None, init_fn = \<lambda>_ _ _. None, cleanup_fn = \<lambda>_ _ _. None, alloc_buffer_fn = \<lambda>_ _ _. None,
     start_fn = \<lambda>_ _ _. None, stop_fn = \<lambda>_ _ _. None, check_ready_fn = \<lambda>_ _ _. None, runfunc_fn = \<lambda>_ _ _ _. None\<rparr>"

lemma demo_unit_at: "unit_at 3 demo_uworld = Some demo_unit"
  by (simp add: unit_at_def demo_uworld_def)

lemma demo_outs_wf: "outs_wf demo_unit"
  by (simp add: outs_wf_def demo_unit_def MAX_UNIT_OUTPUT_COUNT_def)

theorem unit_outputs_are_a_set_witness:
  "\<exists>w' un'. pitcher_add_unit_output 3 6 demo_uworld = Some (0, w') \<and> unit_at 3 w' = Some un'
     \<and> connected un' = {5, 6}"
proof -
  have c: "connected demo_unit = {5}" by (auto simp: connected_def demo_unit_def)
  have p: "(6 :: u64) \<noteq> 0" by simp
  from unit_outputs_are_a_set [OF demo_unit_at demo_outs_wf p]
  obtain r w' un' where "pitcher_add_unit_output 3 6 demo_uworld = Some (r, w')" "unit_at 3 w' = Some un'"
    "if 6 \<in> connected demo_unit \<or> card (connected demo_unit) < MAX_UNIT_OUTPUT_COUNT
     then r = 0 \<and> connected un' = insert 6 (connected demo_unit) else r = err RET_E_FULL \<and> w' = demo_uworld"
    by blast
  then show ?thesis by (auto simp: c MAX_UNIT_OUTPUT_COUNT_def)
qed



section \<open>Delivery\<close>

text \<open>A pipe that skips nothing and notifies nobody.\<close>

definition plain_pipe :: "pitcher_pipe \<Rightarrow> bool" where
  "plain_pipe pi \<longleftrightarrow> qwf (pqueue pi) \<and> numerator (skip pi) = 0 \<and> (pdst pi = 0 \<or> notify pi = 0)"

definition got :: "u64 \<Rightarrow> pitcher_pipe \<Rightarrow> pitcher_pipe \<Rightarrow> bool" where
  "got b pi pi' \<longleftrightarrow> plain_pipe pi' \<and> qels (pqueue pi') = qels (pqueue pi) @ [b]"

lemma push_plain:
  fixes w :: "'e uworld"
  assumes "p \<noteq> 0" and "pipes w p = Some pi" and "plain_pipe pi" and "never_null (wmem w)" and "b \<noteq> 0" and "bufs w b = Some e"
  shows "\<exists>w' pi'. pitcher_pipe_push_back env p b w = Some (0, w') \<and> pipes w' = (pipes w)(p \<mapsto> pi') \<and> got b pi pi'
    \<and> bufs w' = (bufs w)(b \<mapsto> set_refs (refcount (obj e) + 1) e) \<and> never_null (wmem w') \<and> units w' = units w"
proof -
  obtain r q m where q: "pitcher_queue_push_back (pqueue pi) b (wmem w) = (r, q, m)" by (rule prod_cases3)
  have wf: "qwf (pqueue pi)" using assms(3) by (simp add: plain_pipe_def)
  note pq = qfifo.push_never_null [OF wf assms(4) q]
  have at: "bufs (set_pipe p pi w) b = Some e" using assms(6) by simp
  let ?w = "set_buf b (set_refs (refcount (obj e) + 1) e) (set_pipe p pi w)"
  have "pitcher_pipe_push_back env p b w = Some (0, set_pipe p (pi\<lparr>pqueue := q\<rparr>) (?w\<lparr>wmem := m\<rparr>))"
    using assms q pq get_buffer_eq [OF assms(5) at]
    by (auto simp: pitcher_pipe_push_back_def check_is_need_skip_def plain_pipe_def pipe_at_def)
  then show ?thesis using pq assms(3)
    by (intro exI [of _ "set_pipe p (pi\<lparr>pqueue := q\<rparr>) (?w\<lparr>wmem := m\<rparr>)"] exI [of _ "pi\<lparr>pqueue := q\<rparr>"])
      (simp add: got_def plain_pipe_def)
qed

text \<open>The pipes in \<open>S\<close> got the buffer, the others did not change.\<close>

definition delivered :: "u64 \<Rightarrow> u64 set \<Rightarrow> 'e uworld \<Rightarrow> 'e uworld \<Rightarrow> bool" where
  "delivered b S w w' \<longleftrightarrow>
     (\<forall>p \<in> S. \<exists>pi pi'. pipes w p = Some pi \<and> pipes w' p = Some pi' \<and> got b pi pi')
     \<and> (\<forall>p. p \<notin> S \<longrightarrow> pipes w' p = pipes w p)"

lemma delivered_insert:
  assumes "pipes w p = Some pi" and "pipes w1 = (pipes w)(p \<mapsto> pi')" and "got b pi pi'" and "p \<notin> S"
    and "delivered b S w1 w2"
  shows "delivered b (insert p S) w w2"
  unfolding delivered_def
proof (intro conjI ballI allI impI)
  fix q assume q: "q \<in> insert p S"
  show "\<exists>pi pi'. pipes w q = Some pi \<and> pipes w2 q = Some pi' \<and> got b pi pi'"
  proof (cases "q = p")
    case True
    then have "pipes w2 q = Some pi'" using assms(2,4,5) by (simp add: delivered_def)
    then show ?thesis using True assms(1,3) by blast
  next
    case False
    then show ?thesis using q assms(2,5) by (auto simp: delivered_def)
  qed
next
  fix q assume "q \<notin> insert p S"
  then show "pipes w2 q = pipes w q" using assms(2,5) by (simp add: delivered_def)
qed

lemma push_outputs_delivers:
  fixes w :: "'e uworld"
  assumes "unit_at u w = Some un" and "i + n \<le> length (outs un)"
    and "distinct (filter (\<lambda>p. p \<noteq> 0) (take n (drop i (outs un))))"
    and "\<And>p. p \<in> set (take n (drop i (outs un))) \<Longrightarrow> p \<noteq> 0 \<Longrightarrow> \<exists>pi. pipes w p = Some pi \<and> plain_pipe pi"
    and "never_null (wmem w)" and "b \<noteq> 0" and "bufs w b = Some e"
  shows "\<exists>w'. push_outputs env u n i b w = Some w'
    \<and> delivered b (set (take n (drop i (outs un))) - {0}) w w'
    \<and> bufs w' b = Some (set_refs (refcount (obj e) + of_nat (length (filter (\<lambda>p. p \<noteq> 0) (take n (drop i (outs un)))))) e)"
  using assms
proof (induction n arbitrary: i w e)
  case 0
  then show ?case by (simp add: delivered_def)
next
  case (Suc n)
  let ?p = "outs un ! i" and ?rest = "take n (drop (Suc i) (outs un))"
  have d: "take (Suc n) (drop i (outs un)) = ?p # ?rest"
    using Suc.prems(2) by (simp add: drop_Cons_nth)
  have len: "Suc i + n \<le> length (outs un)" using Suc.prems(2) by simp
  have dist: "distinct (filter (\<lambda>p. p \<noteq> 0) ?rest)" using Suc.prems(3) unfolding d by (simp split: if_splits)
  show ?case
  proof (cases "?p = 0")
    case True
    have push: "push_outputs env u (Suc n) i b w = push_outputs env u n (Suc i) b w"
      using Suc.prems(1,2) True by simp
    have live: "\<exists>pi. pipes w p = Some pi \<and> plain_pipe pi" if "p \<in> set ?rest" "p \<noteq> 0" for p
      using Suc.prems(4) [of p] that unfolding d by simp
    show ?thesis
      using Suc.IH [OF Suc.prems(1) len dist live Suc.prems(5,6,7)] True unfolding push d by simp
  next
    case False
    obtain pi where pi: "pipes w ?p = Some pi" "plain_pipe pi" using Suc.prems(4) d False by auto
    obtain w1 pi' where w1: "pitcher_pipe_push_back env ?p b w = Some (0, w1)" "pipes w1 = (pipes w)(?p \<mapsto> pi')" "got b pi pi'"
      "bufs w1 = (bufs w)(b \<mapsto> set_refs (refcount (obj e) + 1) e)" "never_null (wmem w1)" "units w1 = units w"
      using push_plain [OF False pi Suc.prems(5,6,7), of env] by blast
    have push: "push_outputs env u (Suc n) i b w = push_outputs env u n (Suc i) b w1"
      using Suc.prems(1,2) False w1(1) by simp
    have notin: "?p \<notin> set ?rest" using Suc.prems(3) False unfolding d by simp
    have u1: "unit_at u w1 = Some un" using Suc.prems(1) w1(6) by (simp add: unit_at_def split: if_splits)
    have live: "\<exists>pi. pipes w1 p = Some pi \<and> plain_pipe pi" if "p \<in> set ?rest" "p \<noteq> 0" for p
      using Suc.prems(4) [of p] that notin w1(2) unfolding d by auto
    have b1: "bufs w1 b = Some (set_refs (refcount (obj e) + 1) e)" using w1(4) by simp
    obtain w2 where w2: "push_outputs env u n (Suc i) b w1 = Some w2" "delivered b (set ?rest - {0}) w1 w2"
      "bufs w2 b = Some (set_refs (refcount (obj e) + 1 + of_nat (length (filter (\<lambda>p. p \<noteq> 0) ?rest))) e)"
      using Suc.IH [OF u1 len dist live w1(5) Suc.prems(6) b1] by auto
    have "delivered b (insert ?p (set ?rest - {0})) w w2"
      using delivered_insert [OF pi(1) w1(2,3) _ w2(2)] notin by simp
    moreover have "set (?p # ?rest) - {0} = insert ?p (set ?rest - {0})" using False by auto
    ultimately show ?thesis using push w2(1,3) False unfolding d by (simp add: add.assoc)
  qed
qed





section \<open>Stopping and recycling\<close>

text \<open>The allocations a buffer stands for: itself and those of its planes.\<close>

definition buf_cost :: "(buf_ref \<Rightarrow> int) \<Rightarrow> ext_buffer \<Rightarrow> int" where
  "buf_cost owns e = 1 + sum_list (map owns (take (unat (bcount (buffer e))) (planes (buffer e))))"

text \<open>A buffer nobody else holds, with the handlers at the given addresses.\<close>

definition sole :: "u64 \<Rightarrow> u64 \<Rightarrow> ext_buffer \<Rightarrow> bool" where
  "sole fu fr e \<longleftrightarrow> refcount (obj e) = 1 \<and> release (obj e) = RELEASE_BUFFER \<and> recycle e = fr
     \<and> uninit_plane e = fu \<and> unat (bcount (buffer e)) \<le> length (planes (buffer e))"

text \<open>
  The unit's part of the contract: the plane and recycle handlers leave pipes and units alone.
\<close>

locale unit_callbacks = buf_callbacks env fi fu fr owns
  for env :: "('e uworld, 'x) unit_env_scheme" and fi fu fr :: u64 and owns :: "buf_ref \<Rightarrow> int" +
  assumes uninit_frame: "uninit_plane_fn env fu pl i a w = Some (r, pl', w') \<Longrightarrow>
      pipes w' = pipes w \<and> units w' = units w \<and> same_alloc (wmem w) (wmem w')"
begin

lemma uninit_planes_frame:
  "uninit_planes env b n i w = Some w' \<Longrightarrow> buf_at b w = Some e \<Longrightarrow> uninit_plane e = fu \<Longrightarrow>
   pipes w' = pipes w \<and> units w' = units w \<and> same_alloc (wmem w) (wmem w')"
proof (induction n arbitrary: i w e)
  case (Suc n)
  obtain r w1 where w1: "on_plane (uninit_plane_fn env fu) b i w = Some (r, w1)" "uninit_planes env b n (Suc i) w1 = Some w'"
    using Suc.prems by (auto simp: bind_eq_Some_conv)
  obtain pl r2 pl' w2 e2 where w2: "uninit_plane_fn env fu pl (of_nat i) (barg e) w = Some (r2, pl', w2)"
    "buf_at b w2 = Some e2" "w1 = set_buf b (e2\<lparr>buffer := (buffer e2)\<lparr>planes := (planes (buffer e2))[i := pl']\<rparr>\<rparr>) w2"
    using w1(1) Suc.prems(2) by (auto simp: on_plane_def bind_eq_Some_conv)
  have fr: "pipes w2 = pipes w \<and> units w2 = units w \<and> same_alloc (wmem w) (wmem w2)" using uninit_frame [OF w2(1)] .
  have "bufs w2 = bufs w" using uninit_ok [of pl "of_nat i" "barg e" w] w2(1) by auto
  then have e2: "e2 = e" "b \<noteq> 0" using w2(2) Suc.prems(2) by (auto simp: buf_at_def split: if_splits)
  let ?e = "e\<lparr>buffer := (buffer e)\<lparr>planes := (planes (buffer e))[i := pl']\<rparr>\<rparr>"
  have "buf_at b w1 = Some ?e" "uninit_plane ?e = fu" using w2(3) e2 Suc.prems(3) by (simp_all add: buf_at_def)
  from Suc.IH [OF w1(2) this] show ?case using fr w2(3) by (simp add: same_alloc_def)
qed simp

lemma put_sole:
  assumes "b \<noteq> 0" and "bufs w b = Some e" and "sole fu fr e"
  shows "\<exists>w'. pitcher_put_buffer env b w = Some w' \<and> bufs w' = (bufs w)(b := None)
    \<and> total_count (wmem w') = total_count (wmem w) - buf_cost owns e
    \<and> pipes w' = pipes w \<and> units w' = units w \<and> same_alloc (wmem w) (wmem w')"
proof -
  have bs: "bufs w = ((bufs w)(b := None))(b \<mapsto> e)" using assms(2) by auto
  obtain w' where w': "pitcher_put_buffer env b w = Some w'" "bufs w' = (bufs w)(b := None)"
    "total_count (wmem w') = total_count (wmem w) - buf_cost owns e"
    using put_last_frees [OF assms(1) bs] assms(3) by (auto simp: sole_def buf_cost_def)
  let ?e = "(set_refs 0 e)\<lparr>buffer := (buffer e)\<lparr>flags := 0\<rparr>\<rparr>"
  let ?w = "set_buf b ?e w"
  obtain r where r: "recycle_fn env fr b (barg e) ?w = Some (r, True, ?w)" using recycle_ok by blast
  have "pitcher_put_buffer env b w = release_buffer env b (set_buf b (set_refs 0 e) w)"
    using put_buffer_last [OF assms(1,2)] assms(3) by (simp add: sole_def)
  also have "\<dots> = do { w2 \<leftarrow> uninit_planes env b (unat (bcount (buffer e))) 0 ?w;
      Some (w2\<lparr>bufs := (bufs w2)(b := None), wmem := pitcher_free (wmem w2)\<rparr>) }"
    using assms r nonnull by (simp add: release_buffer_def buf_at_def Let_def sole_def)
  finally have "do { w2 \<leftarrow> uninit_planes env b (unat (bcount (buffer e))) 0 ?w;
      Some (w2\<lparr>bufs := (bufs w2)(b := None), wmem := pitcher_free (wmem w2)\<rparr>) } = Some w'"
    using w'(1) by simp
  then obtain w2 where w2: "uninit_planes env b (unat (bcount (buffer e))) 0 ?w = Some w2"
    "w' = w2\<lparr>bufs := (bufs w2)(b := None), wmem := pitcher_free (wmem w2)\<rparr>"
    by (auto simp: bind_eq_Some_conv)
  have "pipes w2 = pipes w \<and> units w2 = units w \<and> same_alloc (wmem w) (wmem w2)"
    using uninit_planes_frame [OF w2(1), of ?e] assms by (simp add: buf_at_def sole_def)
  then show ?thesis using w' w2(2) by simp
qed

text \<open>Clearing the idle queue frees every buffer on it.\<close>

lemma clear_idles_frees:
  assumes "unit_at u w = Some un" and "uidles un = Some q" and "queue_wf q"
    and "distinct (elems q)" and "0 \<notin> set (elems q)" and "\<forall>b \<in> set (elems q). \<exists>e. bufs w b = Some e \<and> sole fu fr e"
  shows "\<exists>w' q'. clear_idles env u w = Some w' \<and> units w' = (units w)(u \<mapsto> un\<lparr>uidles := Some q'\<rparr>)
    \<and> queue_wf q' \<and> elems q' = [] \<and> bufs w' = bufs w |` (- set (elems q)) \<and> pipes w' = pipes w
    \<and> total_count (wmem w') - int (nodes q') = total_count (wmem w) - int (nodes q)
        - (\<Sum>b\<leftarrow>elems q. buf_cost owns (the (bufs w b)))"
proof -
  define P where "P = (\<lambda>xs (k :: int) (m :: mem, v :: 'e uworld). pipes v = pipes w \<and> units v = units w
    \<and> suffix xs (elems q) \<and> bufs v = bufs w |` (- (set (elems q) - set xs))
    \<and> total_count m - k - (\<Sum>b\<leftarrow>xs. buf_cost owns (the (bufs w b)))
        = total_count (wmem w) - int (nodes q) - (\<Sum>b\<leftarrow>elems q. buf_cost owns (the (bufs w b))))"
  have init: "P (elems q) (int (nodes q)) (wmem w, w)"
    by (simp add: P_def restrict_map_def)
  have step: "\<exists>m' s'. (case Some (on_world (clear_queue_item env)) of None \<Rightarrow> Some (m, v)
      | Some f \<Rightarrow> map_option snd (f x (m, v))) = Some (m', s') \<and> P xs k (m', s')"
    if p: "P (x # xs) k (m, v)" for x xs k m v
  proof -
    have suf: "suffix (x # xs) (elems q)" and bv: "bufs v = bufs w |` (- (set (elems q) - set (x # xs)))"
      using p by (auto simp: P_def)
    have x: "x \<in> set (elems q)" "x \<notin> set xs" using suf assms(4) by (auto simp: suffix_def)
    then obtain e where e: "bufs w x = Some e" "sole fu fr e" using assms(6) by blast
    have x0: "x \<noteq> 0" using x(1) assms(5) by auto
    have "bufs (v\<lparr>wmem := m\<rparr>) x = Some e" using bv e(1) by simp
    then obtain w' where w': "pitcher_put_buffer env x (v\<lparr>wmem := m\<rparr>) = Some w'" "bufs w' = (bufs v)(x := None)"
      "total_count (wmem w') = total_count m - buf_cost owns e" "pipes w' = pipes v" "units w' = units v"
      using put_sole [OF x0 _ e(2), of "v\<lparr>wmem := m\<rparr>"] by auto
    have "bufs w' = bufs w |` (- (set (elems q) - set xs))"
      using w'(2) bv x by (auto simp: restrict_map_def fun_eq_iff)
    then have "P xs k (wmem w', w')"
      using p w' e(1) suf by (auto simp: P_def suffix_ConsD)
    then show ?thesis using w'(1) x0 by (simp add: on_world_def clear_queue_item_def)
  qed
  have free: "P xs (k - 1) (pitcher_free m, v)" if "P xs k (m, v)" for xs k m v
    using that by (simp add: P_def)
  obtain q' m' v where c: "pitcher_queue_clear (Some q) (Some (on_world (clear_queue_item env))) (wmem w) w = Some (Some q', m', v)"
    "queue_wf q'" "elems q' = []" "P [] (int (nodes q')) (m', v)"
    using pitcher_queue_clear_rule [where P = P, OF assms(3) init step free] by blast
  have u: "u \<noteq> 0" "units w u = Some un" using assms(1) by (auto simp: unit_at_def split: if_splits)
  let ?w = "set_unit u (un\<lparr>uidles := Some q'\<rparr>) (v\<lparr>wmem := m'\<rparr>)"
  have v: "units v = units w" "pipes v = pipes w" "bufs v = bufs w |` (- set (elems q))"
    "total_count m' - int (nodes q') = total_count (wmem w) - int (nodes q) - (\<Sum>b\<leftarrow>elems q. buf_cost owns (the (bufs w b)))"
    using c(4) by (simp_all add: P_def)
  have "clear_idles env u w = Some ?w" using assms(1,2) c(1) u v(1) by (simp add: clear_idles_def unit_at_def)
  then show ?thesis using c(2,3) v by (intro exI [of _ ?w] exI [of _ q']) simp
qed

end

text \<open>Any unit environment with the library's buffer handlers.\<close>

definition lib_uenv :: "('e uworld, 'x) unit_env_scheme \<Rightarrow> ('e uworld, 'x) unit_env_scheme" where
  "lib_uenv rest = rest\<lparr>init_plane_fn := init_plane_fn lib_env, uninit_plane_fn := uninit_plane_fn lib_env,
     recycle_fn := recycle_fn lib_env\<rparr>"

interpretation ulib: unit_callbacks "lib_uenv rest" ALLOC_PLANE FREE_PLANE AUTO_REMOVE "\<lambda>pl. of_bool (virt pl \<noteq> 0)"
  for rest :: "('e uworld, 'x) unit_env_scheme"
proof
  fix pl :: buf_ref and w :: "'e uworld" and i a
  assume "virt pl = 0" "never_null (wmem w)"
  from lib.init_ok [OF this] show "\<exists>r pl' w'. init_plane_fn (lib_uenv rest) ALLOC_PLANE pl i a w = Some (r, pl', w')
      \<and> bufs w' = bufs w \<and> never_null (wmem w') \<and> total_count (wmem w') = total_count (wmem w) + of_bool (virt pl' \<noteq> 0)
      \<and> (r < 0 \<longrightarrow> of_bool (virt pl' \<noteq> 0) = (0 :: int))"
    by (simp add: lib_uenv_def)
next
  fix pl :: buf_ref and w :: "'e uworld" and i a
  show "\<exists>r pl' w'. uninit_plane_fn (lib_uenv rest) FREE_PLANE pl i a w = Some (r, pl', w') \<and> bufs w' = bufs w
      \<and> total_count (wmem w') = total_count (wmem w) - of_bool (virt pl \<noteq> 0)"
    using lib.uninit_ok [of pl i a w] by (simp add: lib_uenv_def)
next
  fix b a and w :: "'e uworld"
  show "\<exists>r. recycle_fn (lib_uenv rest) AUTO_REMOVE b a w = Some (r, True, w)"
    using lib.recycle_ok [of b a w] by (simp add: lib_uenv_def)
next
  fix pl i a r pl' and w w' :: "'e uworld"
  assume "uninit_plane_fn (lib_uenv rest) FREE_PLANE pl i a w = Some (r, pl', w')"
  then show "pipes w' = pipes w \<and> units w' = units w \<and> same_alloc (wmem w) (wmem w')"
    by (auto simp: lib_uenv_def lib_defs split: if_splits)
qed (fact lib.nonnull)+

text \<open>Stopping a unit gives everything back. A unit without input whose idle queue holds buffers
  nobody else references is disabled by \<open>pitcher_unit_stop\<close>, its idle queue is empty afterwards,
  exactly the buffers of that queue are freed, and the allocation count drops by exactly what
  they and their planes and the discarded queue nodes were.\<close>

theorem unit_stop_frees_idles:
  assumes "unit_at u w = Some un" and "uidles un = Some q" and "queue_wf q"
    and "ud_stop (udesc un) = 0" and "uin un = 0" and "ubuffer_count un \<noteq> 0"
    and "distinct (elems q)" and "0 \<notin> set (elems q)"
    and "\<forall>b \<in> set (elems q). \<exists>e. bufs w b = Some e \<and> sole FREE_PLANE AUTO_REMOVE e"
  shows "\<exists>w' un' q'. pitcher_unit_stop (lib_uenv rest) u w = Some (0, w') \<and> unit_at u w' = Some un'
    \<and> \<not> enable un' \<and> uidles un' = Some q' \<and> elems q' = [] \<and> bufs w' = bufs w |` (- set (elems q))
    \<and> total_count (wmem w') - int (nodes q') = total_count (wmem w) - int (nodes q)
        - (\<Sum>b\<leftarrow>elems q. buf_cost (\<lambda>pl. of_bool (virt pl \<noteq> 0)) (the (bufs w b)))"
proof -
  have u: "u \<noteq> 0" "units w u = Some un" using assms(1) by (auto simp: unit_at_def split: if_splits)
  let ?un = "un\<lparr>enable := False\<rparr>"
  let ?w = "set_unit u ?un w"
  have at: "unit_at u ?w = Some ?un" using u by (simp add: unit_at_def)
  have q: "uidles ?un = Some q" using assms(2) by simp
  have b: "\<forall>b \<in> set (elems q). \<exists>e. bufs ?w b = Some e \<and> sole FREE_PLANE AUTO_REMOVE e" using assms(9) by simp
  from ulib.clear_idles_frees [OF at q assms(3,7,8) b, of rest]
  obtain w' q' where w': "clear_idles (lib_uenv rest) u ?w = Some w'" "units w' u = Some (?un\<lparr>uidles := Some q'\<rparr>)"
    "elems q' = []" "bufs w' = bufs w |` (- set (elems q))"
    "total_count (wmem w') - int (nodes q') = total_count (wmem w) - int (nodes q)
        - (\<Sum>b\<leftarrow>elems q. buf_cost (\<lambda>pl. of_bool (virt pl \<noteq> 0)) (the (bufs w b)))"
    by auto
  have "pitcher_unit_stop (lib_uenv rest) u w = Some (0, w')"
    using assms(1,4-6) at w'(1,2) u
    by (simp add: pitcher_unit_stop_def free_buffer_def clear_input_buffer_def unit_at_def)
  then show ?thesis using w' u by (auto simp: unit_at_def)
qed

theorem unit_stop_frees_idles_witness:
  "\<exists>w' un'. pitcher_unit_stop (lib_uenv null_uenv) 3 demo_uworld = Some (0, w')
     \<and> unit_at 3 w' = Some un' \<and> \<not> enable un' \<and> bufs w' 7 = None"
proof -
  let ?q = "\<lparr>queue = [\<lparr>item = 7\<rparr>], idles = [], idle_num = 0, count = 1\<rparr>"
  have "\<exists>w' un' q'. pitcher_unit_stop (lib_uenv null_uenv) 3 demo_uworld = Some (0, w')
    \<and> unit_at 3 w' = Some un' \<and> \<not> enable un' \<and> uidles un' = Some q' \<and> elems q' = []
    \<and> bufs w' = bufs demo_uworld |` (- set (elems ?q))
    \<and> total_count (wmem w') - int (nodes q') = total_count (wmem demo_uworld) - int (nodes ?q)
        - (\<Sum>b\<leftarrow>elems ?q. buf_cost (\<lambda>pl. of_bool (virt pl \<noteq> 0)) (the (bufs demo_uworld b)))"
    by (rule unit_stop_frees_idles [OF demo_unit_at])
      (simp_all add: demo_unit_def demo_uworld_def queue_wf_def elems_def sole_def demo_buf_def zero_plane_def)
  then show ?thesis by (auto simp: elems_def restrict_map_def)
qed

text \<open>A recycled buffer comes back to its unit in order and with one reference. When the recycle
  handler of a buffer puts it back on the idle queue of an enabled unit, dropping the last
  reference leaves the buffer alive with count 1 and cleared flags, at the end of the idle
  queue; while the unit is disabled (stopped or not yet started) putting a buffer back changes
  nothing, so a stopping unit does not refill the queue it is draining.\<close>

theorem recycle_requeues:
  assumes "unit_at u w = Some un" and "uidles un = Some q" and "queue_wf q" and "never_null (wmem w)"
    and "b \<noteq> 0" and "bufs w b = Some e" and "refcount (obj e) = 1" and "release (obj e) = RELEASE_BUFFER"
    and "recycle e \<noteq> 0"
    and handler: "\<And>v. recycle_fn env (recycle e) b (barg e) v
      = map_option (\<lambda>v. (0, False, v)) (pitcher_put_unit_buffer_idle u b v)"
  shows "if enable un
    then \<exists>w' un' e'. pitcher_put_buffer env b w = Some w' \<and> unit_at u w' = Some un'
      \<and> qels (uidles un') = elems q @ [b] \<and> bufs w' b = Some e' \<and> refcount (obj e') = 1 \<and> flags (buffer e') = 0
    else pitcher_put_unit_buffer_idle u b w = Some w"
proof (cases "enable un")
  case False
  then show ?thesis using assms(1,2) by (simp add: pitcher_put_unit_buffer_idle_def)
next
  case True
  have u: "u \<noteq> 0" "units w u = Some un" using assms(1) by (auto simp: unit_at_def split: if_splits)
  let ?e = "(set_refs 0 e)\<lparr>buffer := (buffer e)\<lparr>flags := 0\<rparr>\<rparr>"
  let ?w = "set_buf b ?e w"
  obtain r q1 m where q1: "pitcher_queue_push_back (Some q) b (wmem w) = (r, q1, m)" by (rule prod_cases3)
  have wf: "qwf (Some q)" using assms(3) by (simp add: qwf_def)
  note pq = qfifo.push_never_null [OF wf assms(4) q1]
  have at: "bufs ?w b = Some ?e" by simp
  let ?w2 = "set_unit u (un\<lparr>uidles := q1\<rparr>) ((set_buf b (set_refs 1 ?e) ?w)\<lparr>wmem := m\<rparr>)"
  have idle: "pitcher_put_unit_buffer_idle u b ?w = Some ?w2"
    using u assms(2,5) True q1 get_buffer_eq [OF assms(5) at]
    by (simp add: pitcher_put_unit_buffer_idle_def unit_at_def)
  have "pitcher_put_buffer env b w = Some ?w2"
    using put_buffer_last [OF assms(5-8), of env] assms(5,9) handler idle
    by (simp add: release_buffer_def buf_at_def Let_def)
  then show ?thesis using True pq u
    by (auto simp: unit_at_def qels_def)
qed

theorem recycle_requeues_witness:
  "\<exists>w'. pitcher_put_buffer
     \<lparr>init_plane_fn = \<lambda>_ _ _ _ _. None, uninit_plane_fn = \<lambda>_ _ _ _ _. None,
      recycle_fn = \<lambda>_ b _ v. map_option (\<lambda>v. (0, False, v)) (pitcher_put_unit_buffer_idle 3 b v)\<rparr> 7
     demo_uworld = Some w' \<and> bufs w' 7 \<noteq> None"
proof -
  let ?env = "\<lparr>init_plane_fn = \<lambda>_ _ _ _ _. None, uninit_plane_fn = \<lambda>_ _ _ _ _. None,
      recycle_fn = \<lambda>_ b _ v. map_option (\<lambda>v. (0, False, v)) (pitcher_put_unit_buffer_idle 3 b v)\<rparr>
      :: unit_heap buf_env"
  let ?q = "\<lparr>queue = [\<lparr>item = 7\<rparr>], idles = [], idle_num = 0, count = 1\<rparr>"
  have a: "uidles demo_unit = Some ?q" "queue_wf ?q" "never_null (wmem demo_uworld)" "(7 :: u64) \<noteq> 0"
    "bufs demo_uworld 7 = Some demo_buf" "refcount (obj demo_buf) = 1" "release (obj demo_buf) = RELEASE_BUFFER"
    "recycle demo_buf \<noteq> 0" "enable demo_unit"
    by (simp_all add: demo_unit_def queue_wf_def demo_uworld_def demo_buf_def AUTO_REMOVE_def)
  show ?thesis
    using recycle_requeues [OF demo_unit_at a(1-8), of ?env] a(9) by auto
qed

end
