(* ===== verification/Loop.thy ===== *)
theory Loop
  imports PUnit
begin

text \<open>
  The event loop (\<open>pitcher/loop.c\<close>): file descriptors to poll and timer tasks, each with a node
  on one of two queues, and the loop that runs them.

  The operating system calls (\<open>epoll_create\<close>, \<open>epoll_ctl\<close>, \<open>epoll_wait\<close>, \<open>fcntl\<close>, \<open>close\<close>,
  \<open>gettid\<close>, \<open>kill\<close> and the clock) and the callbacks of tasks and descriptors are fields of
  \<open>loop_env\<close>. A callback of the loop may start another channel and so append to the queue that
  is being walked; \<open>queue_walk\<close> therefore walks the queue in place.
\<close>

section \<open>Walking a queue in place\<close>

text \<open>
  \<open>pitcher_queue_enumerate\<close> on a queue that lives in the world: \<open>getq\<close> and \<open>setq\<close> read and write
  it. \<open>list_for_each_entry_safe\<close> fetches the successor before the body runs, so a node appended
  while the last one is handled is not visited. If the callback itself removed nodes at or before
  the position, the saved pointers are stale: the result is \<open>None\<close>. So it is if the walk never ends.
\<close>

partial_function (option) queue_walk ::
    "('e heap_scheme \<Rightarrow> queue_t option) \<Rightarrow> (queue_t \<Rightarrow> 'e heap_scheme \<Rightarrow> 'e heap_scheme)
      \<Rightarrow> (u64 \<Rightarrow> 'e heap_scheme \<Rightarrow> (bool \<times> 'e heap_scheme) option) \<Rightarrow> nat \<Rightarrow> 'e heap_scheme
      \<Rightarrow> 'e heap_scheme option" where
  "queue_walk getq setq f i w =
     do {
       q \<leftarrow> getq w;
       if i < length (queue q)
       then do {
         let n = queue q ! i;
         let is_last = (Suc i = length (queue q));
         (del, w) \<leftarrow> f (item n) w;
         q \<leftarrow> getq w;
         if \<not> (i < length (queue q) \<and> queue q ! i = n) then None
         else if del
         then (case put_idle_node (remove_queue_node q i) (Some n) (wmem w) of
                 (q, m) \<Rightarrow>
                   let w = setq q (w\<lparr>wmem := m\<rparr>)
                   in if is_last then Some w else queue_walk getq setq f i w)
         else if is_last then Some w else queue_walk getq setq f (Suc i) w
       }
       else Some w
     }"

text \<open>\<open>pitcher_queue_enumerate\<close>: nothing happens on a \<open>NULL\<close> queue.\<close>

definition queue_enumerate_world ::
    "('e heap_scheme \<Rightarrow> queue_t option) \<Rightarrow> (queue_t \<Rightarrow> 'e heap_scheme \<Rightarrow> 'e heap_scheme)
      \<Rightarrow> (u64 \<Rightarrow> 'e heap_scheme \<Rightarrow> (bool \<times> 'e heap_scheme) option) \<Rightarrow> 'e heap_scheme
      \<Rightarrow> 'e heap_scheme option" where
  "queue_enumerate_world getq setq f w =
     (case getq w of None \<Rightarrow> Some w | Some _ \<Rightarrow> queue_walk getq setq f 0 w)"


section \<open>State\<close>

record pitcher_poll_fd =
  pf_func :: u64
  pf_fd :: int
  pf_events :: u32
  pf_timeout :: u32
  pf_priv :: u64

record pitcher_timer_task =
  tt_func :: u64
  tt_priv :: u64
  tt_interval :: u32
  tt_times :: int

record pitcher_loop_t =
  epoll_fd :: int
  running :: int
  pools :: "queue_t option"
  tasks :: "queue_t option"
  ltimeout :: u32
  tid :: int
  ltv :: u64
  left_time :: u32

record pitcher_loop_node =
  nkey :: u64
  ntv :: u64
  ntimeout :: u32
  ntimes :: int
  nloop :: u64

record loop_heap = unit_heap +
  loops :: "u64 \<Rightarrow> pitcher_loop_t option"
  lnodes :: "u64 \<Rightarrow> pitcher_loop_node option"
  pfds :: "u64 \<Rightarrow> pitcher_poll_fd option"
  ttasks :: "u64 \<Rightarrow> pitcher_timer_task option"

type_synonym 'e lworld = "'e loop_heap_scheme"

datatype epoll_op = EPOLL_CTL_ADD u32 u64 | EPOLL_CTL_DEL

record 'w loop_env = "'w unit_env" +
  epoll_create_fn :: "'w \<Rightarrow> int \<times> 'w"
  fcntl_getfd_fn :: "int \<Rightarrow> 'w \<Rightarrow> u32 \<times> 'w"
  fcntl_fn :: "int \<Rightarrow> u32 \<Rightarrow> 'w \<Rightarrow> int \<times> 'w"
  close_fn :: "int \<Rightarrow> 'w \<Rightarrow> 'w"
  epoll_ctl_fn :: "int \<Rightarrow> int \<Rightarrow> epoll_op \<Rightarrow> 'w \<Rightarrow> int \<times> 'w"
  epoll_wait_fn :: "int \<Rightarrow> nat \<Rightarrow> u32 \<Rightarrow> 'w \<Rightarrow> (u32 \<times> u64) list \<times> 'w"
  gettid_fn :: "'w \<Rightarrow> int"
  kill_fn :: "int \<Rightarrow> 'w \<Rightarrow> 'w"
  clock_fn :: "'w \<Rightarrow> u64 \<times> 'w"
  task_fn :: "u64 \<Rightarrow> u64 \<Rightarrow> 'w \<Rightarrow> (bool \<times> 'w) option"
  poll_fn :: "u64 \<Rightarrow> u64 \<Rightarrow> u32 \<Rightarrow> 'w \<Rightarrow> (bool \<times> 'w) option"

type_synonym ('e, 'x) lenv = "('e lworld, 'x) loop_env_scheme"

definition LOOP_TIMEOUT_DEFAULT :: u32 where "LOOP_TIMEOUT_DEFAULT = 1"
definition NSEC_PER_MSEC :: u64 where "NSEC_PER_MSEC = 1000000"
definition FD_CLOEXEC :: u32 where "FD_CLOEXEC = 1"
definition ECOUNT :: nat where "ECOUNT = 3"

definition loop_at :: "u64 \<Rightarrow> 'e lworld \<Rightarrow> pitcher_loop_t option" where
  "loop_at l w = (if l = 0 then None else loops w l)"

definition set_loop :: "u64 \<Rightarrow> pitcher_loop_t \<Rightarrow> 'e lworld \<Rightarrow> 'e lworld" where
  "set_loop l lo w = w\<lparr>loops := (loops w)(l \<mapsto> lo)\<rparr>"

definition node_at :: "u64 \<Rightarrow> 'e lworld \<Rightarrow> pitcher_loop_node option" where
  "node_at n w = (if n = 0 then None else lnodes w n)"

definition set_node :: "u64 \<Rightarrow> pitcher_loop_node \<Rightarrow> 'e lworld \<Rightarrow> 'e lworld" where
  "set_node n nd w = w\<lparr>lnodes := (lnodes w)(n \<mapsto> nd)\<rparr>"

definition free_node :: "u64 \<Rightarrow> 'e lworld \<Rightarrow> 'e lworld" where
  "free_node n w = w\<lparr>lnodes := (lnodes w)(n := None), wmem := pitcher_free (wmem w)\<rparr>"

definition pools_of :: "u64 \<Rightarrow> 'e lworld \<Rightarrow> queue_t option" where
  "pools_of l w = Option.bind (loop_at l w) pools"

definition set_pools :: "u64 \<Rightarrow> queue_t \<Rightarrow> 'e lworld \<Rightarrow> 'e lworld" where
  "set_pools l q w = (case loop_at l w of None \<Rightarrow> w | Some lo \<Rightarrow> set_loop l (lo\<lparr>pools := Some q\<rparr>) w)"

definition tasks_of :: "u64 \<Rightarrow> 'e lworld \<Rightarrow> queue_t option" where
  "tasks_of l w = Option.bind (loop_at l w) tasks"

definition set_tasks :: "u64 \<Rightarrow> queue_t \<Rightarrow> 'e lworld \<Rightarrow> 'e lworld" where
  "set_tasks l q w = (case loop_at l w of None \<Rightarrow> w | Some lo \<Rightarrow> set_loop l (lo\<lparr>tasks := Some q\<rparr>) w)"


section \<open>Nodes\<close>

text \<open>\<open>assert(loop)\<close> and \<open>assert(loop->epoll_fd >= 0)\<close>.\<close>

definition open_loop_at :: "u64 \<Rightarrow> 'e lworld \<Rightarrow> pitcher_loop_t option" where
  "open_loop_at l w = do { lo \<leftarrow> loop_at l w; if epoll_fd lo < 0 then None else Some lo }"

definition free_poll_node :: "('e, 'x) lenv \<Rightarrow> u64 \<Rightarrow> 'e lworld \<Rightarrow> 'e lworld option" where
  "free_poll_node env n w =
     (if n = 0 then Some w
      else do {
        nd \<leftarrow> node_at n w;
        w \<leftarrow> (if nloop nd \<noteq> 0 \<and> nkey nd \<noteq> 0
              then do {
                lo \<leftarrow> loop_at (nloop nd) w;
                pf \<leftarrow> pfds w (nkey nd);
                Some (snd (epoll_ctl_fn env (epoll_fd lo) (pf_fd pf) EPOLL_CTL_DEL w))
              }
              else Some w);
        Some (free_node n w)
      })"

definition del_task :: "u64 \<Rightarrow> u64 \<Rightarrow> 'e lworld \<Rightarrow> (bool \<times> 'e lworld) option" where
  "del_task key n w =
     (if n = 0 then Some (True, w)
      else do {
        nd \<leftarrow> node_at n w;
        if key \<noteq> 0 \<and> nkey nd \<noteq> key then Some (False, w) else Some (True, free_node n w)
      })"

definition del_poll :: "('e, 'x) lenv \<Rightarrow> u64 \<Rightarrow> u64 \<Rightarrow> 'e lworld \<Rightarrow> (bool \<times> 'e lworld) option" where
  "del_poll env key n w =
     (if n = 0 then Some (True, w)
      else do {
        nd \<leftarrow> node_at n w;
        if key \<noteq> 0 \<and> nkey nd \<noteq> key then Some (False, w)
        else do { w \<leftarrow> free_poll_node env n w; Some (True, w) }
      })"


section \<open>Timers\<close>

text \<open>
  The bookkeeping of \<open>__timer_func\<close> before the callback: the time since the last look in
  milliseconds, whether the task is due, and the node after it.
\<close>

definition timer_advance :: "u64 \<Rightarrow> pitcher_timer_task \<Rightarrow> pitcher_loop_node \<Rightarrow> bool \<times> pitcher_loop_node" where
  "timer_advance now t nd =
     (let delta = (now - ntv nd) div NSEC_PER_MSEC;
          nd = nd\<lparr>ntv := now\<rparr>
      in if tt_interval t = 0 \<or> ucast (ntimeout nd) \<le> delta
         then (True, nd\<lparr>ntimeout := tt_interval t, ntimes := (if 0 < ntimes nd then ntimes nd - 1 else ntimes nd)\<rparr>)
         else (False, nd\<lparr>ntimeout := ucast (ucast (ntimeout nd) - delta)\<rparr>))"

definition shorten_left :: "u64 \<Rightarrow> u32 \<Rightarrow> 'e lworld \<Rightarrow> 'e lworld option" where
  "shorten_left l t w =
     do {
       lo \<leftarrow> loop_at l w;
       Some (if t < left_time lo then set_loop l (lo\<lparr>left_time := t\<rparr>) w else w)
     }"

definition loop_timer_func :: "('e, 'x) lenv \<Rightarrow> u64 \<Rightarrow> u64 \<Rightarrow> 'e lworld \<Rightarrow> (bool \<times> 'e lworld) option" where
  "loop_timer_func env l n w =
     (if l = 0 then Some (False, w)
      else if n = 0 then Some (True, w)
      else do {
        nd \<leftarrow> node_at n w;
        if nkey nd = 0 then Some (True, free_node n w)
        else do {
          t \<leftarrow> ttasks w (nkey nd);
          lo \<leftarrow> loop_at l w;
          let (due, nd) = timer_advance (ltv lo) t nd;
          let w = set_node n nd w;
          (is_del, w) \<leftarrow> (if due \<and> tt_func t \<noteq> 0 then task_fn env (tt_func t) (nkey nd) w
                           else Some (False, w));
          nd \<leftarrow> node_at n w;
          if is_del \<or> ntimes nd = 0 then Some (True, free_node n w)
          else do { w \<leftarrow> shorten_left l (ntimeout nd) w; Some (False, w) }
        }
      })"

definition process_timer :: "('e, 'x) lenv \<Rightarrow> u64 \<Rightarrow> 'e lworld \<Rightarrow> (int \<times> 'e lworld) option" where
  "process_timer env l w =
     do {
       w \<leftarrow> queue_enumerate_world (tasks_of l) (set_tasks l) (loop_timer_func env l) w;
       Some (ret_val RET_OK, w)
     }"


section \<open>Polling\<close>

definition epoll_func :: "('e, 'x) lenv \<Rightarrow> u64 \<Rightarrow> u64 \<Rightarrow> 'e lworld \<Rightarrow> (bool \<times> 'e lworld) option" where
  "epoll_func env l n w =
     (if l = 0 then Some (False, w)
      else if n = 0 then Some (True, w)
      else do {
        nd \<leftarrow> node_at n w;
        if nkey nd = 0 then Some (True, free_node n w)
        else do {
          pf \<leftarrow> pfds w (nkey nd);
          lo \<leftarrow> loop_at l w;
          let delta = (ltv lo - ntv nd) div NSEC_PER_MSEC;
          let due = (ucast (ntimeout nd) \<le> delta);
          let nd = nd\<lparr>ntv := ltv lo,
                      ntimeout := (if due then pf_timeout pf else ucast (ucast (ntimeout nd) - delta))\<rparr>;
          let w = set_node n nd w;
          (is_del, w) \<leftarrow> (if due \<and> pf_func pf \<noteq> 0 then poll_fn env (pf_func pf) (nkey nd) 0 w
                           else Some (False, w));
          if is_del then do { w \<leftarrow> free_poll_node env n w; Some (True, w) }
          else do {
            nd \<leftarrow> node_at n w;
            w \<leftarrow> shorten_left l (ntimeout nd) w;
            Some (False, w)
          }
        }
      })"

definition delete_polls :: "('e, 'x) lenv \<Rightarrow> u64 \<Rightarrow> u64 \<Rightarrow> 'e lworld \<Rightarrow> 'e lworld option" where
  "delete_polls env l key w = queue_enumerate_world (pools_of l) (set_pools l) (del_poll env key) w"

text \<open>The events \<open>epoll_wait\<close> delivered: their flags and the node of each.\<close>

fun process_events :: "('e, 'x) lenv \<Rightarrow> u64 \<Rightarrow> (u32 \<times> u64) list \<Rightarrow> 'e lworld \<Rightarrow> 'e lworld option" where
  "process_events env l [] w = Some w"
| "process_events env l ((ev, n) # evs) w =
     (if n = 0 then process_events env l evs w
      else do {
        nd \<leftarrow> node_at n w;
        if nkey nd = 0 then process_events env l evs w
        else do {
          pf \<leftarrow> pfds w (nkey nd);
          (is_del, w) \<leftarrow> (if pf_func pf \<noteq> 0 then poll_fn env (pf_func pf) (nkey nd) ev w
                           else Some (False, w));
          w \<leftarrow> (if is_del then delete_polls env l (nkey nd) w else Some w);
          process_events env l evs w
        }
      })"

definition process_poll :: "('e, 'x) lenv \<Rightarrow> u64 \<Rightarrow> 'e lworld \<Rightarrow> (int \<times> 'e lworld) option" where
  "process_poll env l w =
     do {
       w \<leftarrow> queue_enumerate_world (pools_of l) (set_pools l) (epoll_func env l) w;
       lo \<leftarrow> loop_at l w;
       let (evs, w) = epoll_wait_fn env (epoll_fd lo) ECOUNT (left_time lo) w;
       w \<leftarrow> process_events env l evs w;
       Some (ret_val RET_OK, w)
     }"

definition pre_process :: "('e, 'x) lenv \<Rightarrow> u64 \<Rightarrow> 'e lworld \<Rightarrow> (int \<times> 'e lworld) option" where
  "pre_process env l w =
     do {
       lo \<leftarrow> loop_at l w;
       let (now, w) = clock_fn env (set_loop l (lo\<lparr>left_time := ltimeout lo\<rparr>) w);
       lo \<leftarrow> loop_at l w;
       Some (ret_val RET_OK, set_loop l (lo\<lparr>ltv := now\<rparr>) w)
     }"


section \<open>The loop\<close>

text \<open>The error exit of \<open>pitcher_open_loop\<close>.\<close>

definition open_loop_error :: "('e, 'x) lenv \<Rightarrow> u64 \<Rightarrow> 'e lworld \<Rightarrow> (u64 \<times> 'e lworld) option" where
  "open_loop_error env l w =
     do {
       lo \<leftarrow> loop_at l w;
       let w = w\<lparr>wmem := pitcher_destroy_queue (tasks lo) (pitcher_destroy_queue (pools lo) (wmem w))\<rparr>;
       let w = (if 0 \<le> epoll_fd lo then close_fn env (epoll_fd lo) w else w);
       Some (0, w\<lparr>loops := (loops w)(l := None), wmem := pitcher_free (wmem w)\<rparr>)
     }"

definition pitcher_open_loop :: "('e, 'x) lenv \<Rightarrow> 'e lworld \<Rightarrow> (u64 \<times> 'e lworld) option" where
  "pitcher_open_loop env w =
     (case pitcher_calloc (wmem w) of (l, m) \<Rightarrow>
        let w = w\<lparr>wmem := m\<rparr> in
        if l = 0 then Some (0, w)
        else
          let lo = \<lparr>epoll_fd = -1, running = 0, pools = None, tasks = None, ltimeout = 0, tid = 0,
                    ltv = 0, left_time = 0\<rparr>;
              (fd, w) = epoll_create_fn env (set_loop l lo w);
              lo = lo\<lparr>epoll_fd := fd\<rparr>;
              w = set_loop l lo w
          in if fd = 0 then open_loop_error env l w
             else
               let (fl, w) = fcntl_getfd_fn env fd w;
                   (r, w) = fcntl_fn env fd (fl OR FD_CLOEXEC) w
               in if r = -1 then open_loop_error env l w
                  else
                    (case pitcher_init_queue (wmem w) of (q, m) \<Rightarrow>
                       let lo = lo\<lparr>pools := q\<rparr>; w = set_loop l lo (w\<lparr>wmem := m\<rparr>) in
                       if q = None then open_loop_error env l w
                       else
                         (case pitcher_init_queue (wmem w) of (q, m) \<Rightarrow>
                            let lo = lo\<lparr>tasks := q\<rparr>; w = set_loop l lo (w\<lparr>wmem := m\<rparr>) in
                            if q = None then open_loop_error env l w
                            else Some (l, set_loop l
                                   (lo\<lparr>running := 0, ltimeout := LOOP_TIMEOUT_DEFAULT\<rparr>) w))))"

text \<open>
  \<open>pitcher_close_loop\<close>. The callbacks free the nodes and touch neither queue, so the snapshot
  form of the clear is used.
\<close>

definition pitcher_close_loop :: "('e, 'x) lenv \<Rightarrow> u64 \<Rightarrow> 'e lworld \<Rightarrow> 'e lworld option" where
  "pitcher_close_loop env l w =
     do {
       lo \<leftarrow> open_loop_at l w;
       if running lo \<noteq> 0 then None
       else do {
         (q, m, w) \<leftarrow> pitcher_queue_clear (tasks lo) (Some (on_world (del_task 0))) (wmem w) w;
         let w = set_loop l (lo\<lparr>tasks := q\<rparr>) (w\<lparr>wmem := m\<rparr>);
         (q, m, w) \<leftarrow> pitcher_queue_clear (pools lo) (Some (on_world (del_poll env 0))) (wmem w) w;
         lo \<leftarrow> loop_at l w;
         let w = w\<lparr>wmem := pitcher_destroy_queue (tasks lo) (pitcher_destroy_queue q m)\<rparr>;
         let w = close_fn env (epoll_fd lo) w;
         Some (w\<lparr>loops := (loops w)(l := None), wmem := pitcher_free (wmem w)\<rparr>)
       }
     }"

definition pitcher_loop_start :: "u64 \<Rightarrow> 'e lworld \<Rightarrow> (int \<times> 'e lworld) option" where
  "pitcher_loop_start l w =
     do { lo \<leftarrow> open_loop_at l w; Some (ret_val RET_OK, set_loop l (lo\<lparr>running := 1\<rparr>) w) }"

definition pitcher_loop_stop :: "('e, 'x) lenv \<Rightarrow> u64 \<Rightarrow> 'e lworld \<Rightarrow> (int \<times> 'e lworld) option" where
  "pitcher_loop_stop env l w =
     do {
       lo \<leftarrow> open_loop_at l w;
       let w = set_loop l (lo\<lparr>running := 0\<rparr>) w;
       Some (ret_val RET_OK,
             if tid lo \<noteq> 0 \<and> tid lo \<noteq> gettid_fn env w then kill_fn env (tid lo) w else w)
     }"

text \<open>One turn of the loop, and the loop. \<open>__post_process\<close> does nothing.\<close>

definition loop_iter :: "('e, 'x) lenv \<Rightarrow> u64 \<Rightarrow> 'e lworld \<Rightarrow> 'e lworld option" where
  "loop_iter env l w =
     do {
       (_, w) \<leftarrow> pre_process env l w;
       (_, w) \<leftarrow> process_timer env l w;
       (_, w) \<leftarrow> process_poll env l w;
       Some w
     }"

partial_function (option) loop_while :: "('e, 'x) lenv \<Rightarrow> u64 \<Rightarrow> 'e lworld \<Rightarrow> 'e lworld option" where
  "loop_while env l w =
     do {
       lo \<leftarrow> loop_at l w;
       if running lo \<noteq> 0 then do { w \<leftarrow> loop_iter env l w; loop_while env l w } else Some w
     }"

definition pitcher_loop_run :: "('e, 'x) lenv \<Rightarrow> u64 \<Rightarrow> 'e lworld \<Rightarrow> (int \<times> 'e lworld) option" where
  "pitcher_loop_run env l w =
     do {
       lo \<leftarrow> open_loop_at l w;
       w \<leftarrow> loop_while env l (set_loop l (lo\<lparr>tid := gettid_fn env w\<rparr>) w);
       lo \<leftarrow> loop_at l w;
       Some (ret_val RET_OK, set_loop l (lo\<lparr>tid := 0\<rparr>) w)
     }"

definition pitcher_loop_add_poll_fd :: "('e, 'x) lenv \<Rightarrow> u64 \<Rightarrow> u64 \<Rightarrow> 'e lworld \<Rightarrow> (int \<times> 'e lworld) option" where
  "pitcher_loop_add_poll_fd env l p w =
     do {
       lo \<leftarrow> open_loop_at l w;
       if p = 0 then Some (err RET_E_INVAL, w)
       else do {
         pf \<leftarrow> pfds w p;
         if pf_func pf = 0 \<or> pf_fd pf < 0 \<or> pf_events pf = 0 then Some (err RET_E_INVAL, w)
         else
           let pf = (if pf_timeout pf = 0 then pf\<lparr>pf_timeout := LOOP_TIMEOUT_DEFAULT\<rparr> else pf);
               (n, m) = pitcher_calloc (wmem w);
               w = w\<lparr>wmem := m, pfds := (pfds w)(p \<mapsto> pf)\<rparr>
           in if n = 0 then Some (err RET_E_NO_MEMORY, w)
              else
                let (now, w) = clock_fn env w;
                    w = set_node n \<lparr>nkey = p, ntv = now, ntimeout = pf_timeout pf, ntimes = 0, nloop = l\<rparr> w;
                    (ret, w) = epoll_ctl_fn env (epoll_fd lo) (pf_fd pf) (EPOLL_CTL_ADD (pf_events pf) n) w
                in if ret < 0 then Some (err RET_E_INVAL, free_node n w)
                   else do {
                     lo \<leftarrow> loop_at l w;
                     let (ret, q, m) = pitcher_queue_push_back (pools lo) n (wmem w);
                     let w = set_loop l (lo\<lparr>pools := q\<rparr>) (w\<lparr>wmem := m\<rparr>);
                     if ret < 0 then Some (ret, free_node n w) else Some (ret_val RET_OK, w)
                   }
       }
     }"

definition pitcher_loop_del_poll_fd :: "('e, 'x) lenv \<Rightarrow> u64 \<Rightarrow> u64 \<Rightarrow> 'e lworld \<Rightarrow> (int \<times> 'e lworld) option" where
  "pitcher_loop_del_poll_fd env l p w =
     do { lo \<leftarrow> open_loop_at l w; w \<leftarrow> delete_polls env l p w; Some (ret_val RET_OK, w) }"

definition pitcher_loop_add_task :: "('e, 'x) lenv \<Rightarrow> u64 \<Rightarrow> u64 \<Rightarrow> 'e lworld \<Rightarrow> (int \<times> 'e lworld) option" where
  "pitcher_loop_add_task env l t w =
     do {
       lo \<leftarrow> open_loop_at l w;
       if t = 0 then Some (err RET_E_INVAL, w)
       else do {
         ta \<leftarrow> ttasks w t;
         if tt_func ta = 0 then Some (err RET_E_INVAL, w)
         else
           let (n, m) = pitcher_calloc (wmem w); w = w\<lparr>wmem := m\<rparr> in
           if n = 0 then Some (err RET_E_NO_MEMORY, w)
           else
             let ta = (if tt_interval ta = 0 then ta\<lparr>tt_interval := LOOP_TIMEOUT_DEFAULT\<rparr> else ta);
                 (now, w) = clock_fn env (w\<lparr>ttasks := (ttasks w)(t \<mapsto> ta)\<rparr>);
                 w = set_node n \<lparr>nkey = t, ntv = now, ntimeout = tt_interval ta, ntimes = tt_times ta, nloop = l\<rparr> w
             in do {
               lo \<leftarrow> loop_at l w;
               let (ret, q, m) = pitcher_queue_push_back (tasks lo) n (wmem w);
               let w = set_loop l (lo\<lparr>tasks := q\<rparr>) (w\<lparr>wmem := m\<rparr>);
               if ret < 0 then Some (ret, free_node n w) else Some (ret_val RET_OK, w)
             }
       }
     }"

definition pitcher_loop_del_task :: "u64 \<Rightarrow> u64 \<Rightarrow> 'e lworld \<Rightarrow> (int \<times> 'e lworld) option" where
  "pitcher_loop_del_task l t w =
     do {
       lo \<leftarrow> open_loop_at l w;
       w \<leftarrow> queue_enumerate_world (tasks_of l) (set_tasks l) (del_task t) w;
       Some (ret_val RET_OK, w)
     }"



section \<open>The walk is an enumeration\<close>

text \<open>
  A place in the world where a queue lives. The rule of the enumeration then holds for the walk,
  for callbacks that leave that queue alone.
\<close>

locale queue_slot =
  fixes getq :: "'e heap_scheme \<Rightarrow> queue_t option"
    and setq :: "queue_t \<Rightarrow> 'e heap_scheme \<Rightarrow> 'e heap_scheme"
  assumes get_set: "getq w \<noteq> None \<Longrightarrow> getq (setq q w) = Some q"
    and get_mem: "getq (w\<lparr>wmem := m\<rparr>) = getq w"
begin

lemma walk_rule_from:
  assumes "getq w = Some q" and "queue_wf q" and "queue q = front @ ns" and "P (map item front) (map item ns) w"
    and step: "\<And>ys x xs w. P ys (x # xs) w \<Longrightarrow> getq w \<noteq> None \<Longrightarrow>
      \<exists>b w'. f x w = Some (b, w') \<and> getq w' = getq w \<and> P (if b then ys else ys @ [x]) xs w'"
    and set: "\<And>ys xs w q. P ys xs w \<Longrightarrow> P ys xs (setq q w)"
    and free: "\<And>ys xs w. P ys xs w \<Longrightarrow> P ys xs (w\<lparr>wmem := pitcher_free (wmem w)\<rparr>)"
  shows "\<exists>w' q'. queue_walk getq setq f (length front) w = Some w' \<and> getq w' = Some q' \<and> queue_wf q' \<and> P (elems q') [] w'"
  using assms(1-4)
proof (induction ns arbitrary: front q w)
  case Nil
  then show ?case by (subst queue_walk.simps) (simp add: elems_def)
next
  case (Cons n ns)
  let ?i = "length front"
  have i: "?i < length (queue q)" "queue q ! ?i = n" using Cons.prems(3) by (simp_all add: nth_append)
  have last: "(Suc ?i = length (queue q)) = (ns = [])" using Cons.prems(3) by simp
  obtain b w1 where b: "f (item n) w = Some (b, w1)" "getq w1 = Some q"
    and p1: "P (if b then map item front else map item front @ [item n]) (map item ns) w1"
    using step [of "map item front" "item n" "map item ns" w] Cons.prems(1,4) by auto
  show ?case
  proof (cases b)
    case False
    have p: "P (map item (front @ [n])) (map item ns) w1" using p1 False by simp
    have q: "queue q = (front @ [n]) @ ns" using Cons.prems(3) by simp
    have eq: "queue_walk getq setq f ?i w = (if ns = [] then Some w1 else queue_walk getq setq f (length (front @ [n])) w1)"
      using Cons.prems(1) i b False last by (subst queue_walk.simps) simp
    show ?thesis
    proof (cases "ns = []")
      case True
      then show ?thesis using eq b(2) p q Cons.prems(2) by (simp add: elems_def)
    next
      case ns: False
      then show ?thesis using eq Cons.IH [OF b(2) Cons.prems(2) q p] by simp
    qed
  next
    case True
    obtain q2 m2 where put: "put_idle_node (remove_queue_node q ?i) (Some n) (wmem w1) = (q2, m2)" by force
    note rp = remove_put_props [OF Cons.prems(2,3) put]
    let ?w = "setq q2 (w1\<lparr>wmem := m2\<rparr>)"
    have p0: "P (map item front) (map item ns) w1" using p1 True by simp
    have "P (map item front) (map item ns) (w1\<lparr>wmem := m2\<rparr>)"
      using rp(3) p0 free [OF p0] by auto
    then have p: "P (map item front) (map item ns) ?w" by (rule set)
    have g: "getq ?w = Some q2" using b(2) get_mem by (intro get_set) simp
    have eq: "queue_walk getq setq f ?i w = (if ns = [] then Some ?w else queue_walk getq setq f ?i ?w)"
      using Cons.prems(1) i b True last put by (subst queue_walk.simps) (simp add: Let_def)
    show ?thesis
    proof (cases "ns = []")
      case True
      then show ?thesis using eq g p rp by (simp add: elems_def)
    next
      case ns: False
      then show ?thesis using eq Cons.IH [OF g rp(1,2) p] by simp
    qed
  qed
qed

lemma walk_rule:
  assumes "getq w = Some q" and "queue_wf q" and "P [] (elems q) w"
    and "\<And>ys x xs w. P ys (x # xs) w \<Longrightarrow> getq w \<noteq> None \<Longrightarrow>
      \<exists>b w'. f x w = Some (b, w') \<and> getq w' = getq w \<and> P (if b then ys else ys @ [x]) xs w'"
    and "\<And>ys xs w q. P ys xs w \<Longrightarrow> P ys xs (setq q w)"
    and "\<And>ys xs w. P ys xs w \<Longrightarrow> P ys xs (w\<lparr>wmem := pitcher_free (wmem w)\<rparr>)"
  shows "\<exists>w' q'. queue_enumerate_world getq setq f w = Some w' \<and> getq w' = Some q' \<and> queue_wf q' \<and> P (elems q') [] w'"
  using walk_rule_from [where front = "[]" and P = P and f = f, OF assms(1,2) _ _ assms(4-6)] assms(1,3)
  by (simp add: queue_enumerate_world_def elems_def)

end

lemma loop_slot_simps [simp]:
  "loops (set_loop l lo w) = (loops w)(l \<mapsto> lo)" "lnodes (set_loop l lo w) = lnodes w"
  "ttasks (set_loop l lo w) = ttasks w" "pfds (set_loop l lo w) = pfds w" "wmem (set_loop l lo w) = wmem w"
  "loops (w\<lparr>wmem := m\<rparr>) = loops w"
  by (simp_all add: set_loop_def)

interpretation pools_slot: queue_slot "pools_of l" "set_pools l" for l
  by unfold_locales (auto simp: pools_of_def set_pools_def loop_at_def bind_eq_Some_conv)

interpretation tasks_slot: queue_slot "tasks_of l" "set_tasks l" for l
  by unfold_locales (auto simp: tasks_of_def set_tasks_def loop_at_def bind_eq_Some_conv)


section \<open>Properties\<close>

lemma set_tasks_simps [simp]: "lnodes (set_tasks l q w) = lnodes w" "wmem (set_tasks l q w) = wmem w"
  by (simp_all add: set_tasks_def split: option.splits)

text \<open>\<open>pitcher_loop_del_task\<close> removes exactly the nodes of the task from the loop and frees
  them; the nodes of other tasks stay, in order.\<close>

theorem loop_del_task_exact:
  assumes "open_loop_at l w = Some lo" and "tasks lo = Some q" and "queue_wf q" and "t \<noteq> 0"
    and "0 \<notin> set (elems q)" and "distinct (elems q)" and "set (elems q) \<subseteq> dom (lnodes w)"
  shows "\<exists>w' q'. pitcher_loop_del_task l t w = Some (0, w') \<and> tasks_of l w' = Some q' \<and> queue_wf q'
    \<and> elems q' = filter (\<lambda>n. nkey (the (lnodes w n)) \<noteq> t) (elems q)
    \<and> lnodes w' = lnodes w |` (- {n \<in> set (elems q). nkey (the (lnodes w n)) = t})"
proof -
  let ?keep = "\<lambda>n. nkey (the (lnodes w n)) \<noteq> t"
  have l: "l \<noteq> 0" "loops w l = Some lo" using assms(1) by (auto simp: open_loop_at_def loop_at_def bind_eq_Some_conv split: if_splits)
  have getq: "tasks_of l w = Some q" using l assms(2) by (simp add: tasks_of_def loop_at_def)
  define P where "P = (\<lambda>ys xs (v :: 'a lworld). \<exists>zs. elems q = zs @ xs \<and> ys = filter ?keep zs
    \<and> lnodes v = lnodes w |` (- {n \<in> set zs. \<not> ?keep n}))"
  have init: "P [] (elems q) w" by (simp add: P_def restrict_map_def)
  have step: "\<exists>b v'. del_task t x v = Some (b, v') \<and> tasks_of l v' = tasks_of l v \<and> P (if b then ys else ys @ [x]) xs v'"
    if p: "P ys (x # xs) v" and "tasks_of l v \<noteq> None" for ys x xs v
  proof -
    obtain zs where zs: "elems q = zs @ x # xs" "ys = filter ?keep zs" "lnodes v = lnodes w |` (- {n \<in> set zs. \<not> ?keep n})"
      using p by (auto simp: P_def)
    have x: "x \<noteq> 0" "x \<notin> set zs" "x \<in> dom (lnodes w)" using zs(1) assms(5-7) by auto
    then obtain nd where nd: "lnodes w x = Some nd" by blast
    have at: "node_at x v = Some nd" using x zs(3) nd by (simp add: node_at_def restrict_map_def)
    show ?thesis
    proof (cases "nkey nd = t")
      case False
      have "{n \<in> set zs. \<not> ?keep n} = {n \<in> set (zs @ [x]). \<not> ?keep n}" using False nd by auto
      then have "P (ys @ [x]) xs v" using zs nd False by (auto simp: P_def intro!: exI [of _ "zs @ [x]"])
      then show ?thesis using at False x assms(4) by (auto simp: del_task_def)
    next
      case True
      let ?v = "free_node x v"
      have "lnodes ?v = lnodes w |` (- {n \<in> set (zs @ [x]). \<not> ?keep n})"
        using zs(3) nd True by (auto simp: free_node_def restrict_map_def fun_eq_iff)
      then have "P ys xs ?v" using zs nd True by (auto simp: P_def intro!: exI [of _ "zs @ [x]"])
      moreover have "tasks_of l ?v = tasks_of l v" by (simp add: free_node_def tasks_of_def loop_at_def)
      ultimately show ?thesis using at True x by (auto simp: del_task_def)
    qed
  qed
  have set: "P ys xs (set_tasks l q v)" if "P ys xs v" for ys xs v q using that by (simp add: P_def)
  have free: "P ys xs (v\<lparr>wmem := pitcher_free (wmem v)\<rparr>)" if "P ys xs v" for ys xs v using that by (simp add: P_def)
  from tasks_slot.walk_rule [where P = P and f = "del_task t", OF getq assms(3) init step set free]
  obtain w' q' where w': "queue_enumerate_world (tasks_of l) (set_tasks l) (del_task t) w = Some w'"
    "tasks_of l w' = Some q'" "queue_wf q'" "P (elems q') [] w'" by blast
  have "pitcher_loop_del_task l t w = Some (0, w')" using assms(1) w'(1) by (simp add: pitcher_loop_del_task_def)
  then show ?thesis using w' by (auto simp: P_def)
qed

definition demo_lworld :: loop_heap where
  "demo_lworld = \<lparr>wmem = demo_mem, bufs = Map.empty, pipes = Map.empty, units = Map.empty,
     loops = [9 \<mapsto> \<lparr>epoll_fd = 4, running = 1, pools = None,
       tasks = Some \<lparr>queue = [\<lparr>item = 21\<rparr>, \<lparr>item = 22\<rparr>], idles = [], idle_num = 0, count = 2\<rparr>,
       ltimeout = 1, tid = 0, ltv = 0, left_time = 0\<rparr>],
     lnodes = [21 \<mapsto> \<lparr>nkey = 31, ntv = 0, ntimeout = 1, ntimes = -1, nloop = 9\<rparr>,
               22 \<mapsto> \<lparr>nkey = 32, ntv = 0, ntimeout = 1, ntimes = -1, nloop = 9\<rparr>],
     pfds = Map.empty, ttasks = Map.empty\<rparr>"

theorem loop_del_task_exact_witness:
  "\<exists>w' q'. pitcher_loop_del_task 9 31 demo_lworld = Some (0, w') \<and> tasks_of 9 w' = Some q' \<and> elems q' = [22]
     \<and> lnodes w' 21 = None"
proof -
  let ?q = "\<lparr>queue = [\<lparr>item = 21\<rparr>, \<lparr>item = 22\<rparr>], idles = [], idle_num = 0, count = 2\<rparr>"
  let ?lo = "\<lparr>epoll_fd = 4, running = 1, pools = None, tasks = Some ?q, ltimeout = 1, tid = 0, ltv = 0, left_time = 0\<rparr>"
  have "\<exists>w' q'. pitcher_loop_del_task 9 31 demo_lworld = Some (0, w') \<and> tasks_of 9 w' = Some q' \<and> queue_wf q'
    \<and> elems q' = filter (\<lambda>n. nkey (the (lnodes demo_lworld n)) \<noteq> 31) (elems ?q)
    \<and> lnodes w' = lnodes demo_lworld |` (- {n \<in> set (elems ?q). nkey (the (lnodes demo_lworld n)) = 31})"
    by (rule loop_del_task_exact [where lo = ?lo])
      (simp_all add: open_loop_at_def loop_at_def demo_lworld_def queue_wf_def elems_def)
  then show ?thesis by (auto simp: elems_def demo_lworld_def restrict_map_def)
qed

text \<open>The looks of the loop at a timer node, at the given times.\<close>

fun timer_looks :: "pitcher_timer_task \<Rightarrow> u64 list \<Rightarrow> pitcher_loop_node \<Rightarrow> bool list \<times> pitcher_loop_node" where
  "timer_looks t [] nd = ([], nd)"
| "timer_looks t (now # ts) nd =
     (case timer_advance now t nd of (due, nd) \<Rightarrow>
        (case timer_looks t ts nd of (ds, nd) \<Rightarrow> (due # ds, nd)))"

text \<open>
  What is still to wait never falls behind: the remaining time and the time that passed since
  the arming at \<open>t0\<close> add up to at least the interval.
\<close>

definition armed :: "pitcher_timer_task \<Rightarrow> u64 \<Rightarrow> pitcher_loop_node \<Rightarrow> bool" where
  "armed t t0 nd \<longleftrightarrow> t0 \<le> ntv nd
     \<and> unat (tt_interval t) * 1000000 \<le> unat (ntimeout nd) * 1000000 + (unat (ntv nd) - unat t0)"

lemma unat_ucast_32_64: "unat (ucast (x :: u32) :: u64) = unat x"
proof -
  have "unat x < 2 ^ 64" using unat_less_u32 [of x] by simp
  then show ?thesis by (simp add: unsigned_ucast_eq take_bit_nat_eq_self)
qed

lemma unat_delta:
  assumes "ntv nd \<le> now"
  shows "unat ((now - ntv nd) div NSEC_PER_MSEC) = (unat now - unat (ntv nd)) div 1000000"
  using assms by (simp add: unat_div_distrib NSEC_PER_MSEC_def unat_minus_le)

lemma arm_arith:
  fixes i to d v t n c :: nat
  assumes "d * c \<le> n - v" and "d \<le> to" and "t \<le> v" and "v \<le> n" and "i * c \<le> to * c + (v - t)"
  shows "i * c \<le> (to - d) * c + (n - t)"
proof -
  obtain e where e: "to = e + d" using assms(2) by (metis le_add_diff_inverse2)
  have "to * c = e * c + d * c" by (simp add: e add_mult_distrib)
  then show ?thesis using assms unfolding e by simp
qed

lemma timer_advance_waits:
  assumes "armed t t0 nd" and "ntv nd \<le> now" and "timer_advance now t nd = (False, nd')"
  shows "armed t t0 nd'"
proof -
  let ?d = "(unat now - unat (ntv nd)) div 1000000"
  have lt: "(now - ntv nd) div NSEC_PER_MSEC < ucast (ntimeout nd)" and nd': "nd' = nd\<lparr>ntv := now, ntimeout := ucast (ucast (ntimeout nd) - (now - ntv nd) div NSEC_PER_MSEC)\<rparr>"
    using assms(3) by (auto simp: timer_advance_def Let_def split: if_splits)
  have uc: "unat (ucast (ntimeout nd) :: u64) = unat (ntimeout nd)" by (rule unat_ucast_32_64)
  have dl: "?d < unat (ntimeout nd)" using lt uc unat_delta [OF assms(2)] by (simp add: word_less_nat_alt)
  have "unat (ucast (ntimeout nd) - (now - ntv nd) div NSEC_PER_MSEC :: u64) = unat (ntimeout nd) - ?d"
    using lt uc unat_delta [OF assms(2)] by (simp add: unat_minus_le order.strict_implies_order)
  then have to: "unat (ntimeout nd') = unat (ntimeout nd) - ?d"
    using nd' unat_less_u32 [of "ntimeout nd"] by (simp add: unsigned_ucast_eq take_bit_nat_eq_self)
  have le: "unat t0 \<le> unat (ntv nd)" "unat (ntv nd) \<le> unat now"
    using assms(1,2) by (simp_all add: armed_def word_le_nat_alt)
  have d: "?d * 1000000 \<le> unat now - unat (ntv nd)" by (rule div_times_less_eq_dividend)
  have "ntv nd' = now" using nd' by simp
  then show ?thesis
    using assms(1) le arm_arith [OF d less_imp_le [OF dl] le] unfolding armed_def word_le_nat_alt to by simp
qed

lemma timer_advance_due:
  assumes "armed t t0 nd" and "ntv nd \<le> now" and "timer_advance now t nd = (True, nd')" and "tt_interval t \<noteq> 0"
  shows "unat (tt_interval t) * 1000000 \<le> unat now - unat t0"
proof -
  let ?d = "(unat now - unat (ntv nd)) div 1000000"
  have uc: "unat (ucast (ntimeout nd) :: u64) = unat (ntimeout nd)" by (rule unat_ucast_32_64)
  have "ucast (ntimeout nd) \<le> (now - ntv nd) div NSEC_PER_MSEC"
    using assms(3,4) by (auto simp: timer_advance_def Let_def split: if_splits)
  then have "unat (ntimeout nd) \<le> ?d" using uc unat_delta [OF assms(2)] by (simp add: word_le_nat_alt)
  then have "unat (ntimeout nd) * 1000000 \<le> ?d * 1000000" by simp
  also have "\<dots> \<le> unat now - unat (ntv nd)" by (rule div_times_less_eq_dividend)
  finally show ?thesis using assms(1,2) unfolding armed_def word_le_nat_alt by linarith
qed

lemma timer_advance_ntv: "timer_advance now t nd = (due, nd') \<Longrightarrow> ntv nd' = now \<and> (due \<longrightarrow> ntimeout nd' = tt_interval t)"
  by (auto simp: timer_advance_def Let_def split: if_splits)

lemma first_due:
  assumes "armed t t0 nd" and "sorted (ntv nd # ts @ [now])" and "tt_interval t \<noteq> 0"
    and "fst (timer_looks t (ts @ [now]) nd) = replicate (length ts) False @ [True]"
  shows "unat (tt_interval t) * 1000000 \<le> unat now - unat t0
    \<and> ntv (snd (timer_looks t (ts @ [now]) nd)) = now
    \<and> ntimeout (snd (timer_looks t (ts @ [now]) nd)) = tt_interval t"
  using assms(1,2,4)
proof (induction ts arbitrary: nd)
  case Nil
  obtain nd' where a: "timer_advance now t nd = (True, nd')" using Nil.prems(3) by (auto split: prod.splits)
  have "ntv nd \<le> now" using Nil.prems(2) by simp
  then show ?case using timer_advance_due [OF Nil.prems(1) _ a assms(3)] timer_advance_ntv [OF a] a by simp
next
  case (Cons x ts)
  obtain nd' where a: "timer_advance x t nd = (False, nd')" using Cons.prems(3) by (auto split: prod.splits)
  have "ntv nd \<le> x" using Cons.prems(2) by simp
  then have arm: "armed t t0 nd'" using timer_advance_waits [OF Cons.prems(1) _ a] by simp
  have sorted: "sorted (ntv nd' # ts @ [now])" using Cons.prems(2) timer_advance_ntv [OF a] by simp
  have looks: "timer_looks t ((x # ts) @ [now]) nd
      = (False # fst (timer_looks t (ts @ [now]) nd'), snd (timer_looks t (ts @ [now]) nd'))"
    using a by (simp split: prod.splits)
  have "fst (timer_looks t (ts @ [now]) nd') = replicate (length ts) False @ [True]"
    using Cons.prems(3) unfolding looks by simp
  from Cons.IH [OF arm sorted this] show ?case unfolding looks snd_conv .
qed



end
