(* ===== verification/Core.thy ===== *)
theory Core
  imports Loop
begin

text \<open>
  The pipeline (\<open>pitcher/core.c\<close>): a core holds channels, each around one unit, and the pipes that
  connect them, and runs them from an event loop. Channels have numbers, from a bitmap, and are linked in one
  list over all cores.

  Pointers into a structure are addresses at the offset of the member (on a 64-bit machine): the poll
  descriptor of a channel lies 104 bytes into it, the timer task of a core 24 bytes. \<open>None\<close> is, as in the other parts, an
  access to what is not there, a failed assertion or a call that does not return.
\<close>

unbundle bit_operations_syntax

section \<open>State\<close>

record pitcher_chn =
  cname :: string
  chnno :: u32
  cerror :: u32
  cunit :: u64
  cstate :: u32
  ccore :: u64
  ignore_pollerr :: u32
  preferred_fourcc :: u32

record pitcher_core =
  cpipes :: "queue_t option"
  cchns :: "queue_t option"
  cloop :: u64
  ctotal_count :: u32
  enable_count :: u32

record core_heap = loop_heap +
  chn_heap :: "u64 \<Rightarrow> pitcher_chn option"
  cores :: "u64 \<Rightarrow> pitcher_core option"
  chn_bitmap :: "u64 list"
  chns :: "u64 list"

type_synonym 'e cworld = "'e core_heap_scheme"
type_synonym ('e, 'x) cenv = "('e cworld, 'x) loop_env_scheme"

definition PITCHER_STATE_STOPPED :: u32 where "PITCHER_STATE_STOPPED = 0"
definition PITCHER_STATE_STOPPING :: u32 where "PITCHER_STATE_STOPPING = 1"
definition PITCHER_STATE_ACTIVE :: u32 where "PITCHER_STATE_ACTIVE = 2"
definition PITCHER_STATE_UNKNOWN :: u32 where "PITCHER_STATE_UNKNOWN = 3"

lemmas chn_states = PITCHER_STATE_STOPPED_def PITCHER_STATE_STOPPING_def PITCHER_STATE_ACTIVE_def
  PITCHER_STATE_UNKNOWN_def

text \<open>Offsets of members, and the addresses of the three functions the core hands out.\<close>

definition PFD_OFFSET :: u64 where "PFD_OFFSET = 104"
definition TASK_OFFSET :: u64 where "TASK_OFFSET = 24"
definition PROCESS_CHN_RUN :: u64 where "PROCESS_CHN_RUN = 0x401"
definition TIMER_FUNC :: u64 where "TIMER_FUNC = 0x402"
definition POLL_FUNC :: u64 where "POLL_FUNC = 0x403"
definition POLLERR :: u32 where "POLLERR = 8"
definition CHN_BITMAP_SIZE :: nat where "CHN_BITMAP_SIZE = 256"
definition BITS_PER_LONG :: nat where "BITS_PER_LONG = 64"

definition chn_at :: "u64 \<Rightarrow> 'e cworld \<Rightarrow> pitcher_chn option" where
  "chn_at a w = (if a = 0 then None else chn_heap w a)"

definition set_chn :: "u64 \<Rightarrow> pitcher_chn \<Rightarrow> 'e cworld \<Rightarrow> 'e cworld" where
  "set_chn a c w = w\<lparr>chn_heap := (chn_heap w)(a \<mapsto> c)\<rparr>"

definition core_at :: "u64 \<Rightarrow> 'e cworld \<Rightarrow> pitcher_core option" where
  "core_at a w = (if a = 0 then None else cores w a)"

definition set_core :: "u64 \<Rightarrow> pitcher_core \<Rightarrow> 'e cworld \<Rightarrow> 'e cworld" where
  "set_core a c w = w\<lparr>cores := (cores w)(a \<mapsto> c)\<rparr>"

definition core_chns :: "u64 \<Rightarrow> 'e cworld \<Rightarrow> queue_t option" where
  "core_chns a w = Option.bind (core_at a w) cchns"

definition set_core_chns :: "u64 \<Rightarrow> queue_t \<Rightarrow> 'e cworld \<Rightarrow> 'e cworld" where
  "set_core_chns a q w = (case core_at a w of None \<Rightarrow> w | Some c \<Rightarrow> set_core a (c\<lparr>cchns := Some q\<rparr>) w)"

definition core_pipes :: "u64 \<Rightarrow> 'e cworld \<Rightarrow> queue_t option" where
  "core_pipes a w = Option.bind (core_at a w) cpipes"

definition set_core_pipes :: "u64 \<Rightarrow> queue_t \<Rightarrow> 'e cworld \<Rightarrow> 'e cworld" where
  "set_core_pipes a q w = (case core_at a w of None \<Rightarrow> w | Some c \<Rightarrow> set_core a (c\<lparr>cpipes := Some q\<rparr>) w)"

text \<open>
  \<open>pitcher_queue_enumerate\<close> with a callback that removes nothing (it returns 0) and accumulates in
  what its argument points to. As in \<open>queue_walk\<close>, the successor is fetched before the callback runs.
\<close>

partial_function (option) queue_visit_from ::
    "('w \<Rightarrow> queue_t option) \<Rightarrow> (u64 \<Rightarrow> 'a \<Rightarrow> 'w \<Rightarrow> ('a \<times> 'w) option) \<Rightarrow> nat \<Rightarrow> 'a \<Rightarrow> 'w \<Rightarrow> ('a \<times> 'w) option" where
  "queue_visit_from getq f i a w =
     do {
       q \<leftarrow> getq w;
       if i < length (queue q)
       then do {
         let n = queue q ! i;
         let is_last = (Suc i = length (queue q));
         (a, w) \<leftarrow> f (item n) a w;
         q \<leftarrow> getq w;
         if \<not> (i < length (queue q) \<and> queue q ! i = n) then None
         else if is_last then Some (a, w) else queue_visit_from getq f (Suc i) a w
       }
       else Some (a, w)
     }"

definition queue_visit ::
    "('w \<Rightarrow> queue_t option) \<Rightarrow> (u64 \<Rightarrow> 'a \<Rightarrow> 'w \<Rightarrow> ('a \<times> 'w) option) \<Rightarrow> 'a \<Rightarrow> 'w \<Rightarrow> ('a \<times> 'w) option" where
  "queue_visit getq f a w = (case getq w of None \<Rightarrow> Some (a, w) | Some _ \<Rightarrow> queue_visit_from getq f 0 a w)"


section \<open>Channel numbers\<close>

text \<open>The inner loop of \<open>__get_chnno\<close>, from bit \<open>j\<close> on for \<open>n\<close> bits, and the outer loop.\<close>

fun free_bit :: "u64 \<Rightarrow> nat \<Rightarrow> nat \<Rightarrow> nat option" where
  "free_bit x 0 j = None"
| "free_bit x (Suc n) j = (if x AND push_bit j 1 \<noteq> 0 then free_bit x n (Suc j) else Some j)"

fun scan_bitmap :: "u64 list \<Rightarrow> nat \<Rightarrow> (nat \<times> nat) option" where
  "scan_bitmap [] i = None"
| "scan_bitmap (x # xs) i =
     (if x = NOT 0 then scan_bitmap xs (Suc i)
      else (case free_bit x BITS_PER_LONG 0 of
              Some j \<Rightarrow> Some (i, j)
            | None \<Rightarrow> scan_bitmap xs (Suc i)))"

definition get_chnno :: "'e cworld \<Rightarrow> int \<times> 'e cworld" where
  "get_chnno w =
     (case scan_bitmap (chn_bitmap w) 0 of
        None \<Rightarrow> (-1, w)
      | Some (i, j) \<Rightarrow>
          (int (i * BITS_PER_LONG + j),
           w\<lparr>chn_bitmap := (chn_bitmap w)[i := (chn_bitmap w ! i) OR push_bit j 1]\<rparr>))"

definition put_chnno :: "u32 \<Rightarrow> 'e cworld \<Rightarrow> 'e cworld" where
  "put_chnno n w =
     (let i = unat n div BITS_PER_LONG; j = unat n mod BITS_PER_LONG
      in if CHN_BITMAP_SIZE \<le> i then w
         else w\<lparr>chn_bitmap := (chn_bitmap w)[i := (chn_bitmap w ! i) AND NOT (push_bit j 1)]\<rparr>)"


section \<open>Channels\<close>

definition free_chn :: "('e, 'x) cenv \<Rightarrow> u64 \<Rightarrow> 'e cworld \<Rightarrow> 'e cworld option" where
  "free_chn env a w =
     (if a = 0 then Some w
      else do {
        c \<leftarrow> chn_at a w;
        let w = put_chnno (chnno c) (w\<lparr>chns := remove1 a (chns w)\<rparr>);
        w \<leftarrow> (if cunit c \<noteq> 0
              then do {
                w \<leftarrow> pitcher_del_unit env (cunit c) w;
                c \<leftarrow> chn_at a w;
                Some (set_chn a (c\<lparr>cunit := 0\<rparr>) w)
              }
              else Some w);
        Some (w\<lparr>chn_heap := (chn_heap w)(a := None), pfds := (pfds w)(a + PFD_OFFSET := None),
                wmem := pitcher_free (wmem w)\<rparr>)
      })"

definition del_chn_func :: "('e, 'x) cenv \<Rightarrow> u32 option \<Rightarrow> u64 \<Rightarrow> 'e cworld \<Rightarrow> (bool \<times> 'e cworld) option" where
  "del_chn_func env arg a w =
     (if a = 0 then Some (False, w)
      else do {
        c \<leftarrow> chn_at a w;
        if (case arg of None \<Rightarrow> False | Some n \<Rightarrow> chnno c \<noteq> n) then Some (False, w)
        else do { w \<leftarrow> free_chn env a w; Some (True, w) }
      })"

text \<open>
  \<open>__disconnect\<close>. The source and the destination of a pipe are channels here, and are passed on where
  units are expected.
\<close>

definition disconnect_func ::
    "('e, 'x) cenv \<Rightarrow> (u64 \<times> u64) option \<Rightarrow> u64 \<Rightarrow> 'e cworld \<Rightarrow> (bool \<times> 'e cworld) option" where
  "disconnect_func env ct p w =
     (if p = 0 then Some (False, w)
      else do {
        src \<leftarrow> pitcher_get_pipe_src p w;
        dst \<leftarrow> pitcher_get_pipe_dst p w;
        if (case ct of None \<Rightarrow> False | Some (s, d) \<Rightarrow> src \<noteq> s \<or> dst \<noteq> d) then Some (False, w)
        else do {
          (_, w) \<leftarrow> pitcher_set_unit_input dst 0 w;
          (_, w) \<leftarrow> pitcher_rm_unit_output src p w;
          w \<leftarrow> pitcher_del_pipe env p w;
          Some (True, w)
        }
      })"

definition pitcher_release :: "('e, 'x) cenv \<Rightarrow> u64 \<Rightarrow> 'e cworld \<Rightarrow> (int \<times> 'e cworld) option" where
  "pitcher_release env a w =
     (if a = 0 then Some (ret_val RET_OK, w)
      else do {
        c \<leftarrow> core_at a w;
        w \<leftarrow> (if cloop c \<noteq> 0
              then do {
                w \<leftarrow> pitcher_close_loop env (cloop c) w;
                c \<leftarrow> core_at a w;
                Some (set_core a (c\<lparr>cloop := 0\<rparr>) w)
              }
              else Some w);
        w \<leftarrow> queue_enumerate_world (core_pipes a) (set_core_pipes a) (disconnect_func env None) w;
        c \<leftarrow> core_at a w;
        let w = set_core a (c\<lparr>cpipes := None\<rparr>) (w\<lparr>wmem := pitcher_destroy_queue (cpipes c) (wmem w)\<rparr>);
        w \<leftarrow> queue_enumerate_world (core_chns a) (set_core_chns a) (del_chn_func env None) w;
        c \<leftarrow> core_at a w;
        let w = set_core a (c\<lparr>cchns := None\<rparr>) (w\<lparr>wmem := pitcher_destroy_queue (cchns c) (wmem w)\<rparr>);
        Some (ret_val RET_OK,
              w\<lparr>cores := (cores w)(a := None), ttasks := (ttasks w)(a + TASK_OFFSET := None),
                wmem := pitcher_free (wmem w)\<rparr>)
      })"

text \<open>\<open>pitcher_init\<close>. The core is used without a check that there is one.\<close>

definition pitcher_init :: "('e, 'x) cenv \<Rightarrow> 'e cworld \<Rightarrow> (u64 \<times> 'e cworld) option" where
  "pitcher_init env w =
     (case pitcher_calloc (wmem w) of (a, m) \<Rightarrow>
        if a = 0 then None
        else
          let c = \<lparr>cpipes = None, cchns = None, cloop = 0, ctotal_count = 0, enable_count = 0\<rparr>;
              w = w\<lparr>wmem := m, ttasks := (ttasks w)(a + TASK_OFFSET \<mapsto>
                     \<lparr>tt_func = 0, tt_priv = 0, tt_interval = 0, tt_times = 0\<rparr>)\<rparr>;
              (q, m) = pitcher_init_queue (wmem w);
              c = c\<lparr>cchns := q\<rparr>;
              w = set_core a c (w\<lparr>wmem := m\<rparr>)
          in if q = None then Some (0, w)
             else
               let (q, m) = pitcher_init_queue (wmem w);
                   c = c\<lparr>cpipes := q\<rparr>;
                   w = set_core a c (w\<lparr>wmem := m\<rparr>)
               in if q = None then do { (_, w) \<leftarrow> pitcher_release env a w; Some (0, w) }
                  else do {
                    (l, w) \<leftarrow> pitcher_open_loop env w;
                    c \<leftarrow> core_at a w;
                    let w = set_core a (c\<lparr>cloop := l\<rparr>) w;
                    if l = 0 then do { (_, w) \<leftarrow> pitcher_release env a w; Some (0, w) }
                    else Some (a, w)
                  })"

text \<open>\<open>__find_chn\<close>: 0 is the result when no channel has the number.\<close>

fun find_chn_in :: "u32 \<Rightarrow> u64 list \<Rightarrow> 'e cworld \<Rightarrow> u64 option" where
  "find_chn_in n [] w = Some 0"
| "find_chn_in n (a # as) w =
     do { c \<leftarrow> chn_at a w; if n = chnno c then Some a else find_chn_in n as w }"

definition find_chn :: "u32 \<Rightarrow> 'e cworld \<Rightarrow> u64 option" where
  "find_chn n w = find_chn_in n (chns w) w"

definition set_chn_status :: "u64 \<Rightarrow> u32 \<Rightarrow> 'e cworld \<Rightarrow> 'e cworld option" where
  "set_chn_status a s w =
     do { c \<leftarrow> chn_at a w; Some (if s < PITCHER_STATE_UNKNOWN then set_chn a (c\<lparr>cstate := s\<rparr>) w else w) }"

text \<open>The callbacks that look for a channel along the pipes; the accumulator is the member of \<open>ct\<close> they set.\<close>

definition find_source_chn :: "u64 \<Rightarrow> u64 \<Rightarrow> u64 \<Rightarrow> 'e cworld \<Rightarrow> (u64 \<times> 'e cworld) option" where
  "find_source_chn dst p acc w =
     (if p = 0 \<or> dst = 0 then Some (acc, w)
      else do {
        d \<leftarrow> pitcher_get_pipe_dst p w;
        if d = dst then do { s \<leftarrow> pitcher_get_pipe_src p w; Some (s, w) } else Some (acc, w)
      })"

definition find_sink_chn :: "u64 \<Rightarrow> u64 \<Rightarrow> u64 \<Rightarrow> 'e cworld \<Rightarrow> (u64 \<times> 'e cworld) option" where
  "find_sink_chn src p acc w =
     (if p = 0 \<or> src = 0 then Some (acc, w)
      else do {
        s \<leftarrow> pitcher_get_pipe_src p w;
        if s = src then do { d \<leftarrow> pitcher_get_pipe_dst p w; Some (d, w) } else Some (acc, w)
      })"

definition find_alive_sink_chn :: "u64 \<Rightarrow> u64 \<Rightarrow> u64 \<Rightarrow> 'e cworld \<Rightarrow> (u64 \<times> 'e cworld) option" where
  "find_alive_sink_chn src p acc w =
     (if p = 0 \<or> src = 0 then Some (acc, w)
      else do {
        s \<leftarrow> pitcher_get_pipe_src p w;
        if s = src
        then do {
          d \<leftarrow> pitcher_get_pipe_dst p w;
          c \<leftarrow> chn_at d w;
          Some (if cstate c \<noteq> PITCHER_STATE_STOPPED then d else acc, w)
        }
        else Some (acc, w)
      })"

text \<open>
  \<open>__get_source_chn\<close>, \<open>__get_sink_chn\<close> and \<open>__get_alive_sink_chn\<close> are the same but for the callback: find the
  channel, check the core, enumerate its pipes.
\<close>

definition get_related_chn ::
    "(u64 \<Rightarrow> u64 \<Rightarrow> u64 \<Rightarrow> 'e cworld \<Rightarrow> (u64 \<times> 'e cworld) option) \<Rightarrow> u32 \<Rightarrow> 'e cworld \<Rightarrow> u64 option" where
  "get_related_chn f n w =
     do {
       a \<leftarrow> find_chn n w;
       if a = 0 then Some 0
       else do {
         c \<leftarrow> chn_at a w;
         k \<leftarrow> core_at (ccore c) w;
         if cchns k = None \<or> cpipes k = None then Some 0
         else map_option fst (queue_visit (core_pipes (ccore c)) (f a) 0 w)
       }
     }"

definition get_source_chn :: "u32 \<Rightarrow> 'e cworld \<Rightarrow> u64 option" where
  "get_source_chn = get_related_chn find_source_chn"

definition get_sink_chn :: "u32 \<Rightarrow> 'e cworld \<Rightarrow> u64 option" where
  "get_sink_chn = get_related_chn find_sink_chn"

definition get_alive_sink_chn :: "u32 \<Rightarrow> 'e cworld \<Rightarrow> u64 option" where
  "get_alive_sink_chn = get_related_chn find_alive_sink_chn"


section \<open>Running the channels\<close>

definition start_chn :: "('e, 'x) cenv \<Rightarrow> u64 \<Rightarrow> 'e cworld \<Rightarrow> 'e cworld option" where
  "start_chn env a w =
     (if a = 0 then Some w
      else do {
        c \<leftarrow> chn_at a w;
        if cstate c = PITCHER_STATE_ACTIVE then Some w
        else do {
          (ret, w) \<leftarrow> pitcher_unit_start env (cunit c) w;
          w \<leftarrow> (if ret = 0
                then do {
                  w \<leftarrow> set_chn_status a PITCHER_STATE_ACTIVE w;
                  pf \<leftarrow> pfds w (a + PFD_OFFSET);
                  if pf_func pf \<noteq> 0
                  then do {
                    c \<leftarrow> chn_at a w;
                    k \<leftarrow> core_at (ccore c) w;
                    map_option snd (pitcher_loop_add_poll_fd env (cloop k) (a + PFD_OFFSET) w)
                  }
                  else Some w
                }
                else Some w);
          c \<leftarrow> chn_at a w;
          k \<leftarrow> core_at (ccore c) w;
          Some (set_core (ccore c)
            (k\<lparr>enable_count := (if cstate c = PITCHER_STATE_ACTIVE then enable_count k + 1 else enable_count k),
               ctotal_count := ctotal_count k + 1\<rparr>) w)
        }
      })"

definition stop_chn :: "('e, 'x) cenv \<Rightarrow> u64 \<Rightarrow> 'e cworld \<Rightarrow> 'e cworld option" where
  "stop_chn env a w =
     (if a = 0 then Some w
      else do {
        c \<leftarrow> chn_at a w;
        if cstate c = PITCHER_STATE_STOPPED then Some w
        else do {
          pf \<leftarrow> pfds w (a + PFD_OFFSET);
          w \<leftarrow> (if pf_func pf \<noteq> 0
                then do {
                  k \<leftarrow> core_at (ccore c) w;
                  map_option snd (pitcher_loop_del_poll_fd env (cloop k) (a + PFD_OFFSET) w)
                }
                else Some w);
          c \<leftarrow> chn_at a w;
          (_, w) \<leftarrow> pitcher_unit_stop env (cunit c) w;
          set_chn_status a PITCHER_STATE_STOPPED w
        }
      })"

definition pitcher_start_chn :: "('e, 'x) cenv \<Rightarrow> u32 \<Rightarrow> 'e cworld \<Rightarrow> (int \<times> 'e cworld) option" where
  "pitcher_start_chn env n w =
     do { a \<leftarrow> find_chn n w; if a = 0 then Some (0, w) else do { w \<leftarrow> start_chn env a w; Some (0, w) } }"

definition pitcher_stop_chn :: "('e, 'x) cenv \<Rightarrow> u32 \<Rightarrow> 'e cworld \<Rightarrow> (int \<times> 'e cworld) option" where
  "pitcher_stop_chn env n w =
     do { a \<leftarrow> find_chn n w; if a = 0 then Some (0, w) else do { w \<leftarrow> stop_chn env a w; Some (0, w) } }"

definition start_sink_chn :: "('e, 'x) cenv \<Rightarrow> u64 \<Rightarrow> u64 \<Rightarrow> unit \<Rightarrow> 'e cworld \<Rightarrow> (unit \<times> 'e cworld) option" where
  "start_sink_chn env src p acc w =
     (if p = 0 \<or> src = 0 then Some (acc, w)
      else do {
        s \<leftarrow> pitcher_get_pipe_src p w;
        if s \<noteq> src then Some (acc, w)
        else do {
          d \<leftarrow> pitcher_get_pipe_dst p w;
          if d = 0 then Some (acc, w)
          else do {
            c \<leftarrow> chn_at d w;
            if cstate c = PITCHER_STATE_STOPPED
            then do { (_, w) \<leftarrow> pitcher_start_chn env (chnno c) w; Some (acc, w) }
            else Some (acc, w)
          }
        }
      })"

definition process_chn_active :: "('e, 'x) cenv \<Rightarrow> u64 \<Rightarrow> 'e cworld \<Rightarrow> (int \<times> 'e cworld) option" where
  "process_chn_active env a w =
     (if a = 0 then Some (err RET_E_NULL_POINTER, w)
      else do {
        c \<leftarrow> chn_at a w;
        if cstate c \<noteq> PITCHER_STATE_ACTIVE then Some (ret_val RET_OK, w)
        else do {
          (ready, is_end, w) \<leftarrow> pitcher_unit_check_ready env (cunit c) w;
          w \<leftarrow> (if ready \<noteq> 0
                then do { c \<leftarrow> chn_at a w; map_option snd (pitcher_unit_run env (cunit c) w) }
                else Some w);
          w \<leftarrow> (if is_end \<noteq> 0 then set_chn_status a PITCHER_STATE_STOPPING w else Some w);
          Some (ret_val RET_OK, w)
        }
      })"

definition process_chn_stopping :: "('e, 'x) cenv \<Rightarrow> u64 \<Rightarrow> 'e cworld \<Rightarrow> (int \<times> 'e cworld) option" where
  "process_chn_stopping env a w =
     (if a = 0 then Some (err RET_E_NULL_POINTER, w)
      else do {
        c \<leftarrow> chn_at a w;
        if cstate c \<noteq> PITCHER_STATE_STOPPING then Some (ret_val RET_OK, w)
        else do {
          dst \<leftarrow> get_alive_sink_chn (chnno c) w;
          if dst \<noteq> 0 then Some (ret_val RET_OK, w)
          else do {
            (_, w) \<leftarrow> pitcher_unit_stop env (cunit c) w;
            w \<leftarrow> set_chn_status a PITCHER_STATE_STOPPED w;
            Some (ret_val RET_OK, w)
          }
        }
      })"

definition process_chn_run :: "('e, 'x) cenv \<Rightarrow> u64 \<Rightarrow> 'e cworld \<Rightarrow> (int \<times> 'e cworld) option" where
  "process_chn_run env a w =
     (if a = 0 then Some (err RET_E_NULL_POINTER, w)
      else do {
        c \<leftarrow> chn_at a w;
        (_, w) \<leftarrow> (if cstate c = PITCHER_STATE_ACTIVE then process_chn_active env a w
                   else if cstate c = PITCHER_STATE_STOPPING then process_chn_stopping env a w
                   else Some (ret_val RET_OK, w));
        Some (ret_val RET_OK, w)
      })"

definition run_chn :: "('e, 'x) cenv \<Rightarrow> u64 \<Rightarrow> u32 \<Rightarrow> 'e cworld \<Rightarrow> (u32 \<times> 'e cworld) option" where
  "run_chn env a cnt w =
     (if a = 0 then Some (cnt, w)
      else do {
        c \<leftarrow> chn_at a w;
        if cstate c = PITCHER_STATE_STOPPED then Some (cnt, w)
        else do {
          (_, w) \<leftarrow> process_chn_run env a w;
          c \<leftarrow> chn_at a w;
          Some (if cstate c \<noteq> PITCHER_STATE_STOPPED then cnt + 1 else cnt, w)
        }
      })"

text \<open>\<open>__timer_func\<close>: the flag says that the task is to be deleted.\<close>

definition core_timer_func :: "('e, 'x) cenv \<Rightarrow> u64 \<Rightarrow> 'e cworld \<Rightarrow> (bool \<times> 'e cworld) option" where
  "core_timer_func env t w =
     do {
       let a = t - TASK_OFFSET;
       k \<leftarrow> core_at a w;
       (cnt, w) \<leftarrow> queue_visit (core_chns a) (run_chn env) 0 w;
       if cnt = 0
       then do {
         k \<leftarrow> core_at a w;
         (_, w) \<leftarrow> pitcher_loop_stop env (cloop k) w;
         Some (True, w)
       }
       else Some (False, w)
     }"

definition core_poll_func :: "('e, 'x) cenv \<Rightarrow> u64 \<Rightarrow> u32 \<Rightarrow> 'e cworld \<Rightarrow> (bool \<times> 'e cworld) option" where
  "core_poll_func env p events w =
     (if p = 0 then None
      else do {
        let a = p - PFD_OFFSET;
        c \<leftarrow> chn_at a w;
        w \<leftarrow> (if cstate c \<noteq> PITCHER_STATE_STOPPED
              then do {
                pf \<leftarrow> pfds w p;
                w \<leftarrow> (if pf_events pf AND events \<noteq> 0 \<or> events = 0
                      then map_option snd (process_chn_run env a w) else Some w);
                c \<leftarrow> chn_at a w;
                Some (if events AND POLLERR \<noteq> 0 \<and> cstate c = PITCHER_STATE_ACTIVE \<and> ignore_pollerr c = 0
                      then set_chn a (c\<lparr>cerror := 1\<rparr>) w else w)
              }
              else Some w);
        c \<leftarrow> chn_at a w;
        Some (cstate c = PITCHER_STATE_STOPPED, w)
      })"

section \<open>The interface\<close>

definition visit_all :: "(u64 \<Rightarrow> 'w \<Rightarrow> 'w option) \<Rightarrow> u64 \<Rightarrow> unit \<Rightarrow> 'w \<Rightarrow> (unit \<times> 'w) option" where
  "visit_all f a u w = map_option (Pair ()) (f a w)"

text \<open>The check for the loop and the channels.\<close>

definition core_ready :: "pitcher_core \<Rightarrow> bool" where
  "core_ready k \<longleftrightarrow> cloop k \<noteq> 0 \<and> cchns k \<noteq> None"

definition pitcher_start :: "('e, 'x) cenv \<Rightarrow> u64 \<Rightarrow> 'e cworld \<Rightarrow> (int \<times> 'e cworld) option" where
  "pitcher_start env a w =
     do {
       k \<leftarrow> core_at a w;
       if \<not> core_ready k then Some (err RET_E_INVAL, w)
       else if pitcher_queue_is_empty (cchns k) \<noteq> 0 then Some (err RET_E_EMPTY, w)
       else do {
         (_, w) \<leftarrow> queue_visit (core_chns a) (visit_all (start_chn env)) ()
           (set_core a (k\<lparr>ctotal_count := 0, enable_count := 0\<rparr>) w);
         k \<leftarrow> core_at a w;
         (_, w) \<leftarrow> (if enable_count k < ctotal_count k
                    then queue_visit (core_chns a) (visit_all (stop_chn env)) () w else Some ((), w));
         t \<leftarrow> ttasks w (a + TASK_OFFSET);
         let w = w\<lparr>ttasks := (ttasks w)(a + TASK_OFFSET \<mapsto>
                    t\<lparr>tt_func := TIMER_FUNC, tt_interval := 0, tt_times := -1\<rparr>)\<rparr>;
         k \<leftarrow> core_at a w;
         (_, w) \<leftarrow> pitcher_loop_add_task env (cloop k) (a + TASK_OFFSET) w;
         k \<leftarrow> core_at a w;
         pitcher_loop_start (cloop k) w
       }
     }"

definition pitcher_run :: "('e, 'x) cenv \<Rightarrow> u64 \<Rightarrow> 'e cworld \<Rightarrow> (int \<times> 'e cworld) option" where
  "pitcher_run env a w =
     do {
       k \<leftarrow> core_at a w;
       if \<not> core_ready k then Some (err RET_E_INVAL, w) else pitcher_loop_run env (cloop k) w
     }"

definition pitcher_stop :: "('e, 'x) cenv \<Rightarrow> u64 \<Rightarrow> 'e cworld \<Rightarrow> (int \<times> 'e cworld) option" where
  "pitcher_stop env a w =
     do {
       k \<leftarrow> core_at a w;
       if \<not> core_ready k then Some (err RET_E_INVAL, w)
       else do {
         (_, w) \<leftarrow> pitcher_loop_stop env (cloop k) w;
         (_, w) \<leftarrow> queue_visit (core_chns a) (visit_all (stop_chn env)) () w;
         Some (ret_val RET_OK, w)
       }
     }"

definition pitcher_register_chn ::
    "('e, 'x) cenv \<Rightarrow> u64 \<Rightarrow> pitcher_unit_desc option \<Rightarrow> u64 \<Rightarrow> 'e cworld \<Rightarrow> (int \<times> 'e cworld) option" where
  "pitcher_register_chn env core dsc arg w =
     do {
       k \<leftarrow> core_at core w;
       let (n, w) = get_chnno w;
       if n < 0 then Some (err RET_E_FULL, w)
       else if cchns k = None then Some (err RET_E_INVAL, w)
       else
         (case pitcher_calloc (wmem w) of (a, m) \<Rightarrow>
            let w = w\<lparr>wmem := m\<rparr> in
            if a = 0 then Some (err RET_E_NO_MEMORY, w)
            else
              let c = \<lparr>cname = [], chnno = 0, cerror = 0, cunit = 0, cstate = 0, ccore = 0,
                       ignore_pollerr = 0, preferred_fourcc = 0\<rparr>;
                  pf = \<lparr>pf_func = 0, pf_fd = 0, pf_events = 0, pf_timeout = 0, pf_priv = 0\<rparr>;
                  w = set_chn a c (w\<lparr>pfds := (pfds w)(a + PFD_OFFSET \<mapsto> pf)\<rparr>)
              in do {
                (u, w) \<leftarrow> pitcher_new_unit env dsc arg w;
                if u = 0
                then Some (err RET_E_INVAL,
                           w\<lparr>chn_heap := (chn_heap w)(a := None), pfds := (pfds w)(a + PFD_OFFSET := None),
                             wmem := pitcher_free (wmem w)\<rparr>)
                else do {
                  d \<leftarrow> dsc;
                  let pf = (if 0 \<le> ud_fd d \<and> ud_events d \<noteq> 0
                            then pf\<lparr>pf_fd := ud_fd d, pf_events := ud_events d, pf_func := POLL_FUNC\<rparr> else pf);
                  let c = c\<lparr>cunit := u, cname := take 63 (ud_name d), chnno := of_int n, ccore := core\<rparr>;
                  w \<leftarrow> set_chn_status a PITCHER_STATE_STOPPED
                    (set_chn a c (w\<lparr>pfds := (pfds w)(a + PFD_OFFSET \<mapsto> pf)\<rparr>));
                  let w = w\<lparr>chns := chns w @ [a]\<rparr>;
                  k \<leftarrow> core_at core w;
                  (case pitcher_queue_push_back (cchns k) a (wmem w) of (_, q, m) \<Rightarrow>
                     Some (n, set_core core (k\<lparr>cchns := q\<rparr>) (w\<lparr>wmem := m\<rparr>)))
                }
              })
     }"

definition pitcher_unregister_chn :: "('e, 'x) cenv \<Rightarrow> u32 \<Rightarrow> 'e cworld \<Rightarrow> (int \<times> 'e cworld) option" where
  "pitcher_unregister_chn env n w =
     do {
       a \<leftarrow> find_chn n w;
       if a = 0 then Some (err RET_E_NOT_FOUND, w)
       else do {
         c \<leftarrow> chn_at a w;
         k \<leftarrow> core_at (ccore c) w;
         if cchns k = None then None
         else do {
           w \<leftarrow> queue_enumerate_world (core_chns (ccore c)) (set_core_chns (ccore c)) (del_chn_func env (Some n)) w;
           Some (ret_val RET_OK, w)
         }
       }
     }"

text \<open>
  The checks \<open>pitcher_connect\<close>, \<open>pitcher_disconnect\<close> and \<open>pitcher_set_skip\<close> begin with: a code, or the two
  channels and their core.
\<close>

definition check_pair :: "u32 \<Rightarrow> u32 \<Rightarrow> 'e cworld \<Rightarrow> (int + u64 \<times> u64 \<times> u64) option" where
  "check_pair src dst w =
     do {
       s \<leftarrow> find_chn src w;
       d \<leftarrow> find_chn dst w;
       if s = 0 \<or> d = 0 then Some (Inl (err RET_E_INVAL))
       else do {
         sc \<leftarrow> chn_at s w;
         dc \<leftarrow> chn_at d w;
         if ccore sc \<noteq> ccore dc then Some (Inl (err RET_E_NOT_MATCH))
         else do {
           k \<leftarrow> core_at (ccore sc) w;
           if cchns k = None \<or> cpipes k = None then Some (Inl (err RET_E_INVAL)) else Some (Inr (s, d, ccore sc))
         }
       }
     }"

definition pitcher_connect :: "u32 \<Rightarrow> u32 \<Rightarrow> 'e cworld \<Rightarrow> (int \<times> 'e cworld) option" where
  "pitcher_connect src dst w =
     do {
       r \<leftarrow> check_pair src dst w;
       (case r of
          Inl e \<Rightarrow> Some (e, w)
        | Inr (s, d, a) \<Rightarrow>
            do {
              sc \<leftarrow> chn_at s w;
              dc \<leftarrow> chn_at d w;
              p \<leftarrow> pitcher_get_unit_source (cunit dc) w;
              other \<leftarrow> (if p = 0 then Some False else map_option (\<lambda>x. x \<noteq> s) (pitcher_get_pipe_src p w));
              if other then Some (err RET_E_INVAL, w)
              else do {
                (p, w) \<leftarrow> pitcher_new_pipe w;
                if p = 0 then Some (err RET_E_NO_MEMORY, w)
                else do {
                  w \<leftarrow> pitcher_set_pipe_src p s w;
                  w \<leftarrow> pitcher_set_pipe_dst p d w;
                  (_, w) \<leftarrow> pitcher_set_pipe_notify p PROCESS_CHN_RUN w;
                  (_, w) \<leftarrow> pitcher_set_unit_input (cunit dc) p w;
                  (_, w) \<leftarrow> pitcher_add_unit_output (cunit sc) p w;
                  k \<leftarrow> core_at a w;
                  (case pitcher_queue_push_back (cpipes k) p (wmem w) of (_, q, m) \<Rightarrow>
                     Some (ret_val RET_OK, set_core a (k\<lparr>cpipes := q\<rparr>) (w\<lparr>wmem := m\<rparr>)))
                }
              }
            })
     }"

definition pitcher_disconnect :: "('e, 'x) cenv \<Rightarrow> u32 \<Rightarrow> u32 \<Rightarrow> 'e cworld \<Rightarrow> (int \<times> 'e cworld) option" where
  "pitcher_disconnect env src dst w =
     do {
       r \<leftarrow> check_pair src dst w;
       (case r of
          Inl e \<Rightarrow> Some (e, w)
        | Inr (s, d, a) \<Rightarrow>
            do {
              w \<leftarrow> queue_enumerate_world (core_pipes a) (set_core_pipes a) (disconnect_func env (Some (s, d))) w;
              Some (0, w)
            })
     }"

definition get_pipe_func :: "u64 \<Rightarrow> u64 \<Rightarrow> u64 \<Rightarrow> u64 \<Rightarrow> 'e cworld \<Rightarrow> (u64 \<times> 'e cworld) option" where
  "get_pipe_func src dst p acc w =
     (if p = 0 then Some (acc, w)
      else do {
        s \<leftarrow> pitcher_get_pipe_src p w;
        d \<leftarrow> pitcher_get_pipe_dst p w;
        Some (if s \<noteq> src \<or> d \<noteq> dst then acc else p, w)
      })"

definition pitcher_set_skip :: "u32 \<Rightarrow> u32 \<Rightarrow> u32 \<Rightarrow> u32 \<Rightarrow> 'e cworld \<Rightarrow> (int \<times> 'e cworld) option" where
  "pitcher_set_skip src dst num den w =
     do {
       r \<leftarrow> check_pair src dst w;
       (case r of
          Inl e \<Rightarrow> Some (e, w)
        | Inr (s, d, a) \<Rightarrow>
            do {
              (p, w) \<leftarrow> queue_visit (core_pipes a) (get_pipe_func s d) 0 w;
              if p = 0 then Some (err RET_E_NOT_MATCH, w)
              else pitcher_set_pipe_skip p (if den < num then den else num) den w
            })
     }"

text \<open>The accessors: an operation on the channel with the number, or a default when there is none.\<close>

definition on_chn :: "'a \<Rightarrow> (u64 \<Rightarrow> pitcher_chn \<Rightarrow> 'e cworld \<Rightarrow> ('a \<times> 'e cworld) option) \<Rightarrow> u32 \<Rightarrow> 'e cworld
    \<Rightarrow> ('a \<times> 'e cworld) option" where
  "on_chn dflt f n w =
     do { a \<leftarrow> find_chn n w; if a = 0 then Some (dflt, w) else do { c \<leftarrow> chn_at a w; f a c w } }"

definition pitcher_poll_idle_buffer :: "u32 \<Rightarrow> 'e cworld \<Rightarrow> (bool \<times> 'e cworld) option" where
  "pitcher_poll_idle_buffer = on_chn False (\<lambda>a c w.
     do { r \<leftarrow> pitcher_is_unit_idle_empty (cunit c) w; Some (r = 0, w) })"

definition pitcher_get_idle_buffer :: "u32 \<Rightarrow> 'e cworld \<Rightarrow> (u64 \<times> 'e cworld) option" where
  "pitcher_get_idle_buffer = on_chn 0 (\<lambda>a c w. pitcher_get_unit_idle_buffer (cunit c) w)"

definition pitcher_put_buffer_idle :: "u32 \<Rightarrow> u64 \<Rightarrow> 'e cworld \<Rightarrow> (unit \<times> 'e cworld) option" where
  "pitcher_put_buffer_idle n b = on_chn () (\<lambda>a c w. map_option (Pair ()) (pitcher_put_unit_buffer_idle (cunit c) b w)) n"

definition pitcher_push_back_output :: "('e, 'x) cenv \<Rightarrow> u32 \<Rightarrow> u64 \<Rightarrow> 'e cworld \<Rightarrow> (unit \<times> 'e cworld) option" where
  "pitcher_push_back_output env n b = on_chn () (\<lambda>a c w.
     if b = 0 then Some ((), w)
     else do {
       k \<leftarrow> core_at (ccore c) w;
       (_, w) \<leftarrow> queue_visit (core_pipes (ccore c)) (start_sink_chn env a) () w;
       c \<leftarrow> chn_at a w;
       map_option (Pair ()) (pitcher_unit_push_back_output env (cunit c) b w)
     }) n"

definition pitcher_get_status :: "u32 \<Rightarrow> 'e cworld \<Rightarrow> (u32 \<times> 'e cworld) option" where
  "pitcher_get_status = on_chn 0 (\<lambda>a c w. Some (cstate c, w))"

definition pitcher_is_active :: "u32 \<Rightarrow> 'e cworld \<Rightarrow> (bool \<times> 'e cworld) option" where
  "pitcher_is_active = on_chn False (\<lambda>a c w. Some (cstate c = PITCHER_STATE_ACTIVE, w))"

definition pitcher_is_error :: "u32 \<Rightarrow> 'e cworld \<Rightarrow> (u32 \<times> 'e cworld) option" where
  "pitcher_is_error = on_chn 0 (\<lambda>a c w. Some (cerror c, w))"

definition pitcher_set_error :: "u32 \<Rightarrow> 'e cworld \<Rightarrow> (unit \<times> 'e cworld) option" where
  "pitcher_set_error = on_chn () (\<lambda>a c w. Some ((), set_chn a (c\<lparr>cerror := 1\<rparr>) w))"

definition pitcher_get_source :: "u32 \<Rightarrow> 'e cworld \<Rightarrow> int option" where
  "pitcher_get_source n w =
     do {
       a \<leftarrow> get_source_chn n w;
       if a = 0 then Some (err RET_E_NOT_FOUND) else do { c \<leftarrow> chn_at a w; Some (sint (chnno c)) }
     }"

definition pitcher_get_sink :: "u32 \<Rightarrow> 'e cworld \<Rightarrow> int option" where
  "pitcher_get_sink n w =
     do {
       a \<leftarrow> get_sink_chn n w;
       if a = 0 then Some (err RET_E_NOT_FOUND) else do { c \<leftarrow> chn_at a w; Some (sint (chnno c)) }
     }"

definition pitcher_chn_poll_input :: "u32 \<Rightarrow> 'e cworld \<Rightarrow> (bool \<times> 'e cworld) option" where
  "pitcher_chn_poll_input = on_chn False (\<lambda>a c w.
     do {
       p \<leftarrow> pitcher_get_unit_source (cunit c) w;
       if p = 0 then Some (False, w) else do { r \<leftarrow> pitcher_pipe_poll p w; Some (r, w) }
     })"

definition pitcher_set_ignore_pollerr :: "u32 \<Rightarrow> u32 \<Rightarrow> 'e cworld \<Rightarrow> (unit \<times> 'e cworld) option" where
  "pitcher_set_ignore_pollerr n i = on_chn () (\<lambda>a c w. Some ((), set_chn a (c\<lparr>ignore_pollerr := i\<rparr>) w)) n"

definition pitcher_set_preferred_fourcc :: "u32 \<Rightarrow> u32 \<Rightarrow> 'e cworld \<Rightarrow> (unit \<times> 'e cworld) option" where
  "pitcher_set_preferred_fourcc n f = on_chn () (\<lambda>a c w. Some ((), set_chn a (c\<lparr>preferred_fourcc := f\<rparr>) w)) n"

definition pitcher_get_preferred_fourcc :: "u32 \<Rightarrow> 'e cworld \<Rightarrow> (u32 \<times> 'e cworld) option" where
  "pitcher_get_preferred_fourcc = on_chn 0 (\<lambda>a c w. Some (preferred_fourcc c, w))"

text \<open>
  The callbacks of pipes and loop are the functions of the core, and these may run the operations of the units
  (the client), which may call the interface again. \<open>core_env client base n\<close> is the environment in which such
  calls nest at most \<open>n\<close> deep: \<open>client env\<close> are the operations of units and system when the
  interface they call runs in \<open>env\<close>; in \<open>base\<close> none may be called.
\<close>

definition core_callbacks :: "('e, 'x) cenv \<Rightarrow> ('e, 'x) cenv \<Rightarrow> ('e, 'x) cenv" where
  "core_callbacks env rest = rest
     \<lparr>notify_fn := \<lambda>f a w. if f = PROCESS_CHN_RUN then map_option snd (process_chn_run env a w) else notify_fn rest f a w,
      task_fn := \<lambda>f t w. if f = TIMER_FUNC then core_timer_func env t w else task_fn rest f t w,
      poll_fn := \<lambda>f p ev w. if f = POLL_FUNC then core_poll_func env p ev w else poll_fn rest f p ev w\<rparr>"

fun core_env :: "(('e, 'x) cenv \<Rightarrow> ('e, 'x) cenv) \<Rightarrow> ('e, 'x) cenv \<Rightarrow> nat \<Rightarrow> ('e, 'x) cenv" where
  "core_env client base 0 = base"
| "core_env client base (Suc n) =
     core_callbacks (core_env client base n) (client (core_env client base n))"

end
