(* ===== verification/CoreChannels.thy ===== *)
theory CoreChannels
  imports Core
begin

text \<open>
  The channels of the pipeline and their numbers: the bitmap is a set of numbers, the list of channels a finite map from
  numbers to channels, and registering, unregistering and looking up act on that map.
\<close>

unbundle bit_operations_syntax

section \<open>The numbers are a set\<close>

definition chn_numbers :: "'e cworld \<Rightarrow> nat set" where
  "chn_numbers w = {n. n < CHN_BITMAP_SIZE * BITS_PER_LONG \<and> bit (chn_bitmap w ! (n div BITS_PER_LONG)) (n mod BITS_PER_LONG)}"

lemma and_mask_bit: "(x :: u64) AND 2 ^ j = 0 \<longleftrightarrow> \<not> bit x j"
  by (rule and_exp_eq_0_iff_not_bit)

lemma free_bit_Some:
  "free_bit x n j = Some k \<Longrightarrow> j \<le> k \<and> k < j + n \<and> \<not> bit x k \<and> (\<forall>m. j \<le> m \<and> m < k \<longrightarrow> bit x m)"
proof (induction x n j rule: free_bit.induct)
  case (2 x n j)
  show ?case
  proof (cases "bit x j")
    case True
    then have "free_bit x n (Suc j) = Some k" using "2.prems" by (simp add: and_mask_bit)
    with 2(1) True have "Suc j \<le> k \<and> k < Suc j + n \<and> \<not> bit x k \<and> (\<forall>m. Suc j \<le> m \<and> m < k \<longrightarrow> bit x m)"
      by (simp add: and_mask_bit)
    then show ?thesis using True by (metis Suc_leD Suc_le_eq add_Suc_shift le_neq_implies_less)
  next
    case False
    then have "k = j" using "2.prems" by (simp add: and_mask_bit)
    then show ?thesis using False by auto
  qed
qed simp

lemma free_bit_None: "free_bit x n j = None \<longleftrightarrow> (\<forall>m. j \<le> m \<and> m < j + n \<longrightarrow> bit x m)"
proof (induction x n j rule: free_bit.induct)
  case (2 x n j)
  show ?case
  proof (cases "bit x j")
    case True
    then have "free_bit x (Suc n) j = None \<longleftrightarrow> (\<forall>m. Suc j \<le> m \<and> m < Suc j + n \<longrightarrow> bit x m)"
      using 2 by (simp add: and_mask_bit)
    then show ?thesis using True by (metis Suc_leD Suc_le_eq add_Suc_shift le_neq_implies_less)
  qed (auto simp: and_mask_bit)
qed auto

lemma full_word: "(x :: u64) = - 1 \<longleftrightarrow> (\<forall>m < BITS_PER_LONG. bit x m)"
  by (auto simp: bit_eq_iff BITS_PER_LONG_def dest: bit_imp_le_length)

lemma scan_bitmap_Some:
  "scan_bitmap xs i = Some (k, j) \<Longrightarrow> i \<le> k \<and> k - i < length xs \<and> j < BITS_PER_LONG \<and> \<not> bit (xs ! (k - i)) j
     \<and> (\<forall>m < j. bit (xs ! (k - i)) m) \<and> (\<forall>h < k - i. xs ! h = NOT 0)"
proof (induction xs i rule: scan_bitmap.induct)
  case (2 x xs i)
  show ?case
  proof (cases "x = NOT 0")
    case True
    then have IH: "Suc i \<le> k" "k - Suc i < length xs" "j < BITS_PER_LONG" "\<not> bit (xs ! (k - Suc i)) j"
      "\<forall>m < j. bit (xs ! (k - Suc i)) m" "\<forall>h < k - Suc i. xs ! h = NOT 0"
      using "2.IH"(1) "2.prems" by simp_all
    have e: "k - i = Suc (k - Suc i)" using IH(1) by simp
    show ?thesis unfolding e using IH True by (auto simp: less_Suc_eq_0_disj)
  next
    case False
    then have "free_bit x BITS_PER_LONG 0 \<noteq> None" by (simp add: free_bit_None full_word)
    then have "free_bit x BITS_PER_LONG 0 = Some j" "k = i" using "2.prems" False by auto
    then show ?thesis using free_bit_Some [of x BITS_PER_LONG 0 j] by simp
  qed
qed simp

lemma scan_bitmap_None: "scan_bitmap xs i = None \<longleftrightarrow> (\<forall>x \<in> set xs. x = NOT 0)"
proof (induction xs i rule: scan_bitmap.induct)
  case (2 x xs i)
  show ?case
  proof (cases "x = NOT 0")
    case False
    then have "free_bit x BITS_PER_LONG 0 \<noteq> None" by (simp add: free_bit_None full_word)
    then show ?thesis using False by auto
  qed (use 2 in simp)
qed simp

lemma block_less:
  fixes m i j :: nat
  assumes "m < i * BITS_PER_LONG + j" and "j < BITS_PER_LONG"
  shows "m div BITS_PER_LONG < i \<or> (m div BITS_PER_LONG = i \<and> m mod BITS_PER_LONG < j)"
proof -
  define q r where "q = m div 64" and "r = m mod 64"
  have "m = q * 64 + r" by (simp add: q_def r_def)
  then have "q < i \<or> (q = i \<and> r < j)" using assms unfolding BITS_PER_LONG_def by linarith
  then show ?thesis by (simp add: q_def r_def BITS_PER_LONG_def)
qed

lemma get_chnno_ok:
  assumes "length (chn_bitmap w) = CHN_BITMAP_SIZE" and "get_chnno w = (n, w')"
  shows "if chn_numbers w = {..<CHN_BITMAP_SIZE * BITS_PER_LONG} then n = -1 \<and> w' = w
    else n = int (LEAST m. m \<notin> chn_numbers w) \<and> 0 \<le> n \<and> n < int (CHN_BITMAP_SIZE * BITS_PER_LONG)
      \<and> nat n \<notin> chn_numbers w \<and> chn_numbers w' = insert (nat n) (chn_numbers w)
      \<and> length (chn_bitmap w') = CHN_BITMAP_SIZE \<and> put_chnno (of_int n) w' = w \<and> chn_heap w' = chn_heap w \<and> chns w' = chns w"
proof (cases "scan_bitmap (chn_bitmap w) 0")
  case None
  then have "\<forall>x \<in> set (chn_bitmap w). x = NOT 0" by (simp add: scan_bitmap_None)
  then have "bit (chn_bitmap w ! (m div BITS_PER_LONG)) (m mod BITS_PER_LONG)" if "m < CHN_BITMAP_SIZE * BITS_PER_LONG" for m
    using that assms(1) full_word [of "chn_bitmap w ! (m div BITS_PER_LONG)"]
    by (simp add: BITS_PER_LONG_def less_mult_imp_div_less)
  then have "chn_numbers w = {..<CHN_BITMAP_SIZE * BITS_PER_LONG}" by (auto simp: chn_numbers_def)
  then show ?thesis using assms(2) None by (simp add: get_chnno_def)
next
  case (Some ij)
  obtain i j where ij: "ij = (i, j)" by force
  have s: "i < CHN_BITMAP_SIZE" "j < BITS_PER_LONG" "\<not> bit (chn_bitmap w ! i) j" "\<forall>m < j. bit (chn_bitmap w ! i) m"
    "\<forall>h < i. chn_bitmap w ! h = NOT 0"
    using scan_bitmap_Some [of "chn_bitmap w" 0 i j] Some ij assms(1) by simp_all
  let ?m = "i * BITS_PER_LONG + j"
  have B: "BITS_PER_LONG = 64" "CHN_BITMAP_SIZE = 256" by (simp_all add: BITS_PER_LONG_def CHN_BITMAP_SIZE_def)
  have dm: "?m div BITS_PER_LONG = i" "?m mod BITS_PER_LONG = j" using s(2) by (simp_all add: B)
  have lt: "?m < CHN_BITMAP_SIZE * BITS_PER_LONG" using s(1,2) by (simp add: B)
  have notin: "?m \<notin> chn_numbers w" using s(3) dm unfolding chn_numbers_def mem_Collect_eq by argo
  have below: "m \<in> chn_numbers w" if "m < ?m" for m
  proof -
    have "m div BITS_PER_LONG < i \<or> (m div BITS_PER_LONG = i \<and> m mod BITS_PER_LONG < j)"
      by (rule block_less) (use that s(2) in \<open>simp_all add: B\<close>)
    then have "bit (chn_bitmap w ! (m div BITS_PER_LONG)) (m mod BITS_PER_LONG)"
      using s(4,5) by (auto simp: B bit_not_iff)
    then show ?thesis using that lt by (simp add: chn_numbers_def)
  qed
  have least: "(LEAST m. m \<notin> chn_numbers w) = ?m"
    by (rule Least_equality) (use notin below in \<open>auto simp: not_less [symmetric]\<close>)
  let ?w = "w\<lparr>chn_bitmap := (chn_bitmap w)[i := (chn_bitmap w ! i) OR push_bit j 1]\<rparr>"
  have r: "n = int ?m" "w' = ?w" using assms(2) Some ij by (auto simp: get_chnno_def)
  have bits: "bit (chn_bitmap ?w ! (m div BITS_PER_LONG)) (m mod BITS_PER_LONG)
      \<longleftrightarrow> m = ?m \<or> bit (chn_bitmap w ! (m div BITS_PER_LONG)) (m mod BITS_PER_LONG)"
    if "m < CHN_BITMAP_SIZE * BITS_PER_LONG" for m
  proof (cases "m div BITS_PER_LONG = i")
    case True
    have "m = ?m \<longleftrightarrow> m mod BITS_PER_LONG = j" using True dm by (metis div_mult_mod_eq)
    moreover have "m mod BITS_PER_LONG < 64" by (simp add: B)
    ultimately show ?thesis using True s(1) assms(1) by (auto simp: bit_or_iff bit_exp_iff)
  next
    case False
    then show ?thesis using dm by auto
  qed
  have "chn_numbers ?w = insert ?m (chn_numbers w)" using bits lt by (auto simp: chn_numbers_def)
  moreover have "put_chnno (of_int n) ?w = w"
  proof -
    have "unat (of_nat m :: u32) = m" if "m < 16384" for m
      using that by (simp add: unsigned_of_nat take_bit_nat_eq_self)
    from this [of ?m] have u: "unat (of_int n :: u32) = ?m" using lt unfolding r of_int_of_nat_eq by (simp only: B)
    have "((chn_bitmap w ! i) OR push_bit j 1) AND NOT (push_bit j 1) = chn_bitmap w ! i"
      by (rule bit_eqI) (use s(3) in \<open>auto simp: bit_or_iff bit_and_iff bit_not_iff bit_exp_iff\<close>)
    then show ?thesis using s(1,2) assms(1) by (simp add: put_chnno_def u dm)
  qed
  moreover have "chn_numbers w \<noteq> {..<CHN_BITMAP_SIZE * BITS_PER_LONG}" using notin lt by auto
  moreover have "nat n = ?m" "0 \<le> n" "n < int (CHN_BITMAP_SIZE * BITS_PER_LONG)"
    unfolding r(1) nat_int of_nat_less_iff by (rule refl, simp, rule lt)
  moreover have "length (chn_bitmap ?w) = CHN_BITMAP_SIZE" using assms(1) by simp
  ultimately show ?thesis using r least notin by simp
qed

lemma put_chnno_ok:
  assumes "length (chn_bitmap w) = CHN_BITMAP_SIZE"
  shows "chn_numbers (put_chnno n w) = chn_numbers w - {unat n}" and "length (chn_bitmap (put_chnno n w)) = CHN_BITMAP_SIZE"
    and "chn_heap (put_chnno n w) = chn_heap w" and "chns (put_chnno n w) = chns w"
proof -
  let ?i = "unat n div BITS_PER_LONG" and ?j = "unat n mod BITS_PER_LONG"
  have B: "BITS_PER_LONG = 64" "CHN_BITMAP_SIZE = 256" by (simp_all add: BITS_PER_LONG_def CHN_BITMAP_SIZE_def)
  have bits: "bit (chn_bitmap (put_chnno n w) ! (m div BITS_PER_LONG)) (m mod BITS_PER_LONG)
      \<longleftrightarrow> m \<noteq> unat n \<and> bit (chn_bitmap w ! (m div BITS_PER_LONG)) (m mod BITS_PER_LONG)"
    if "m < CHN_BITMAP_SIZE * BITS_PER_LONG" for m
  proof (cases "m div BITS_PER_LONG = ?i")
    case True
    have "m = unat n \<longleftrightarrow> m mod BITS_PER_LONG = ?j" using True by (metis div_mult_mod_eq)
    moreover have "m mod BITS_PER_LONG < 64" by (simp add: B)
    moreover have "?i < CHN_BITMAP_SIZE" using that True by (simp add: B)
    ultimately show ?thesis using True assms
      by (auto simp: put_chnno_def Let_def bit_and_iff bit_not_iff bit_exp_iff)
  next
    case False
    then show ?thesis by (auto simp: put_chnno_def Let_def)
  qed
  then show "chn_numbers (put_chnno n w) = chn_numbers w - {unat n}" by (auto simp: chn_numbers_def)
qed (use assms in \<open>simp_all add: put_chnno_def Let_def\<close>)

section \<open>Visiting\<close>

lemma visit_rule_from:
  fixes w :: 'w
  assumes "getq w = Some q" and "queue q = front @ ns" and "P (map item front) acc w"
    and step: "\<And>ys x xs acc w. elems q = ys @ x # xs \<Longrightarrow> getq w = Some q \<Longrightarrow> P ys acc w \<Longrightarrow>
      \<exists>acc' w'. f x acc w = Some (acc', w') \<and> getq w' = getq w \<and> P (ys @ [x]) acc' w'"
  shows "\<exists>acc' w'. queue_visit_from getq f (length front) acc w = Some (acc', w') \<and> getq w' = Some q \<and> P (elems q) acc' w'"
  using assms(1-3)
proof (induction ns arbitrary: front acc w)
  case Nil
  then show ?case by (subst queue_visit_from.simps) (simp add: elems_def)
next
  case (Cons n ns)
  let ?i = "length front"
  have i: "?i < length (queue q)" "queue q ! ?i = n" using Cons.prems(2) by (simp_all add: nth_append)
  have last: "(Suc ?i = length (queue q)) = (ns = [])" using Cons.prems(2) by simp
  have "elems q = map item front @ item n # map item ns" using Cons.prems(2) by (simp add: elems_def)
  from step [OF this Cons.prems(1,3)] obtain acc1 w1
    where s: "f (item n) acc w = Some (acc1, w1)" "getq w1 = Some q" "P (map item (front @ [n])) acc1 w1"
    using Cons.prems(1) by auto
  have q: "queue q = (front @ [n]) @ ns" using Cons.prems(2) by simp
  have eq: "queue_visit_from getq f ?i acc w
      = (if ns = [] then Some (acc1, w1) else queue_visit_from getq f (length (front @ [n])) acc1 w1)"
    using Cons.prems(1) i s last by (subst queue_visit_from.simps) simp
  show ?case
  proof (cases "ns = []")
    case True
    then have "elems q = map item (front @ [n])" using q by (simp add: elems_def)
    then show ?thesis using eq s True by simp
  next
    case False
    then show ?thesis using eq Cons.IH [OF s(2) q s(3)] by simp
  qed
qed

lemma visit_rule:
  assumes "getq w = Some q" and "P [] acc w"
    and "\<And>ys x xs acc w. elems q = ys @ x # xs \<Longrightarrow> getq w = Some q \<Longrightarrow> P ys acc w \<Longrightarrow>
      \<exists>acc' w'. f x acc w = Some (acc', w') \<and> getq w' = getq w \<and> P (ys @ [x]) acc' w'"
  shows "\<exists>acc' w'. queue_visit getq f acc w = Some (acc', w') \<and> getq w' = Some q \<and> P (elems q) acc' w'"
  using visit_rule_from [where front = "[]" and P = P and f = f and acc = acc, OF assms(1) _ _ assms(3)] assms(1,2)
  by (simp add: queue_visit_def)

lemma set_chn_simps [simp]:
  "chn_heap (set_chn a c w) = (chn_heap w)(a \<mapsto> c)" "cores (set_chn a c w) = cores w" "chns (set_chn a c w) = chns w"
  "chn_bitmap (set_chn a c w) = chn_bitmap w" "pipes (set_chn a c w) = pipes w" "units (set_chn a c w) = units w"
  "loops (set_chn a c w) = loops w" "pfds (set_chn a c w) = pfds w" "ttasks (set_chn a c w) = ttasks w"
  "wmem (set_chn a c w) = wmem w" "lnodes (set_chn a c w) = lnodes w" "bufs (set_chn a c w) = bufs w"
  by (simp_all add: set_chn_def)

lemma set_core_simps [simp]:
  "chn_heap (set_core a k w) = chn_heap w" "cores (set_core a k w) = (cores w)(a \<mapsto> k)" "chns (set_core a k w) = chns w"
  "chn_bitmap (set_core a k w) = chn_bitmap w" "pipes (set_core a k w) = pipes w" "units (set_core a k w) = units w"
  "loops (set_core a k w) = loops w" "pfds (set_core a k w) = pfds w" "ttasks (set_core a k w) = ttasks w"
  "wmem (set_core a k w) = wmem w" "lnodes (set_core a k w) = lnodes w" "bufs (set_core a k w) = bufs w"
  by (simp_all add: set_core_def)

interpretation core_chns_slot: queue_slot "core_chns a" "set_core_chns a" for a
  by unfold_locales (auto simp: core_chns_def set_core_chns_def core_at_def bind_eq_Some_conv)

interpretation core_pipes_slot: queue_slot "core_pipes a" "set_core_pipes a" for a
  by unfold_locales (auto simp: core_pipes_def set_core_pipes_def core_at_def bind_eq_Some_conv)


section \<open>The registry\<close>

text \<open>Which number belongs to which channel.\<close>

definition chn_number :: "'e cworld \<Rightarrow> u64 \<Rightarrow> u32" where
  "chn_number w a = chnno (the (chn_heap w a))"

definition registry :: "'e cworld \<Rightarrow> u32 \<Rightarrow> u64 option" where
  "registry w = map_of (map (\<lambda>a. (chn_number w a, a)) (chns w))"

definition reg_inv :: "'e cworld \<Rightarrow> bool" where
  "reg_inv w \<longleftrightarrow> length (chn_bitmap w) = CHN_BITMAP_SIZE \<and> distinct (chns w) \<and> 0 \<notin> set (chns w)
     \<and> set (chns w) \<subseteq> dom (chn_heap w) \<and> distinct (map (chn_number w) (chns w))
     \<and> (\<forall>a \<in> set (chns w). unat (chn_number w a) \<in> chn_numbers w)"

lemma find_chn_in_eq:
  assumes "0 \<notin> set as" and "set as \<subseteq> dom (chn_heap w)"
  shows "find_chn_in n as w = Some (case map_of (map (\<lambda>a. (chn_number w a, a)) as) n of None \<Rightarrow> 0 | Some a \<Rightarrow> a)"
  using assms
proof (induction as)
  case (Cons a as)
  then obtain c where c: "chn_at a w = Some c" "chn_number w a = chnno c" by (auto simp: chn_at_def chn_number_def)
  show ?case using Cons c by auto
qed simp

lemma find_chn_registry:
  assumes "reg_inv w"
  shows "find_chn n w = Some (case registry w n of None \<Rightarrow> 0 | Some a \<Rightarrow> a)"
  using assms find_chn_in_eq [of "chns w" w n] by (simp add: reg_inv_def registry_def find_chn_def)

lemma registry_Some:
  assumes "reg_inv w"
  shows "registry w n = Some a \<longleftrightarrow> a \<in> set (chns w) \<and> chn_number w a = n"
  using assms by (auto simp: reg_inv_def registry_def map_of_eq_Some_iff comp_def)

lemma find_chn_self:
  assumes "reg_inv w" and "a \<in> set (chns w)"
  shows "find_chn (chn_number w a) w = Some a"
  using find_chn_registry [OF assms(1)] registry_Some [OF assms(1), of "chn_number w a" a] assms(2) by simp

text \<open>There are no more channels than numbers.\<close>

lemma few_chns:
  assumes "reg_inv w" and "distinct xs" and "set xs \<subseteq> set (chns w)"
  shows "length xs \<le> CHN_BITMAP_SIZE * BITS_PER_LONG"
proof -
  let ?N = "CHN_BITMAP_SIZE * BITS_PER_LONG"
  have "card (set (chns w)) = card (chn_number w ` set (chns w))"
    using assms(1) by (intro card_image [symmetric]) (simp add: reg_inv_def distinct_map)
  also have "\<dots> = card (unat ` chn_number w ` set (chns w))"
    by (intro card_image [symmetric]) (simp add: inj_on_def word_unat_eq_iff)
  also have "\<dots> \<le> card {..<?N}"
    by (intro card_mono) (use assms(1) in \<open>auto simp: reg_inv_def chn_numbers_def\<close>)
  finally have "card (set (chns w)) \<le> ?N" by simp
  moreover have "length xs \<le> card (set (chns w))"
    using assms(2,3) distinct_card [of xs] card_mono [of "set (chns w)" "set xs"] by simp
  ultimately show ?thesis by simp
qed

section \<open>Units that act on the outside only\<close>

text \<open>
  An environment in which the operations of the units act on the world outside of the library, in any
  way, and answer anything, but do not call the interface.
\<close>

definition act :: "(u64 \<Rightarrow> u64 \<Rightarrow> 'e \<Rightarrow> int \<times> 'e) \<Rightarrow> u64 \<Rightarrow> u64 \<Rightarrow> 'e cworld \<Rightarrow> (int \<times> 'e cworld) option" where
  "act ops f x w = (case ops f x (core_heap.more w) of (r, e) \<Rightarrow> Some (r, core_heap.more_update (\<lambda>_. e) w))"

definition plain_cenv :: "(u64 \<Rightarrow> u64 \<Rightarrow> 'e \<Rightarrow> int \<times> 'e) \<Rightarrow> ('e, 'x) cenv \<Rightarrow> ('e, 'x) cenv" where
  "plain_cenv ops rest = rest\<lparr>init_fn := act ops, cleanup_fn := act ops, start_fn := act ops, stop_fn := act ops\<rparr>"

text \<open>Everything the core keeps is the same.\<close>

definition core_same :: "'e cworld \<Rightarrow> 'e cworld \<Rightarrow> bool" where
  "core_same w w' \<longleftrightarrow> chn_heap w' = chn_heap w \<and> cores w' = cores w \<and> chns w' = chns w \<and> chn_bitmap w' = chn_bitmap w
     \<and> loops w' = loops w \<and> lnodes w' = lnodes w \<and> pfds w' = pfds w \<and> ttasks w' = ttasks w"

lemma core_same_refl [simp]: "core_same w w"
  by (simp add: core_same_def)

lemma core_same_trans: "core_same w v \<Longrightarrow> core_same v u \<Longrightarrow> core_same w u"
  by (simp add: core_same_def)

lemma core_same_simps [simp]:
  "core_same w (w'\<lparr>wmem := m\<rparr>) = core_same w w'" "core_same w (set_unit u un w') = core_same w w'"
  "core_same w (free_unit u w') = core_same w w'" "core_same w (set_pipe p pi w') = core_same w w'"
  by (simp_all add: core_same_def set_unit_def free_unit_def set_pipe_def)

lemma act_frame:
  obtains r w' where "act ops f x w = Some (r, w')" "core_same w w'" "units w' = units w" "pipes w' = pipes w"
    "bufs w' = bufs w" "wmem w' = wmem w"
proof -
  obtain r e where "ops f x (core_heap.more w) = (r, e)" by force
  then show ?thesis
    by (intro that [of r "core_heap.more_update (\<lambda>_. e) w"]) (cases w, simp add: act_def core_same_def)+
qed

lemma release_idles_same:
  assumes "unit_at u w = Some un"
  obtains w' where "release_idles u w = Some w'" "core_same w w'" "unit_at u w' = Some (un\<lparr>uidles := None\<rparr>)"
  using assms that by (auto simp: release_idles_def unit_at_def split: if_splits)

lemma new_unit_same:
  "\<exists>u w'. pitcher_new_unit (plain_cenv ops rest) dsc x w = Some (u, w') \<and> core_same w w' \<and> (u \<noteq> 0 \<longrightarrow> dsc \<noteq> None)"
proof (cases "\<exists>d. dsc = Some d \<and> ud_check_ready d \<noteq> 0 \<and> ud_runfunc d \<noteq> 0")
  case False
  then show ?thesis by (auto simp: pitcher_new_unit_def split: option.split)
next
  case True
  then obtain d where d: "dsc = Some d" "ud_check_ready d \<noteq> 0" "ud_runfunc d \<noteq> 0" by blast
  obtain u m where u: "pitcher_calloc (wmem w) = (u, m)" by force
  show ?thesis
  proof (cases "u = 0")
    case True
    then show ?thesis using d u by (auto simp: pitcher_new_unit_def)
  next
    case u0: False
    obtain q m2 where q: "pitcher_init_queue m = (q, m2)" by force
    let ?un = "\<lparr>udesc = d, uarg = x, uin = 0, outs = replicate MAX_UNIT_OUTPUT_COUNT 0,
                uidles = q, ubuffer_count = 0, enable = False\<rparr>"
    let ?w = "set_unit u ?un (w\<lparr>wmem := m2\<rparr>)"
    have at: "unit_at u ?w = Some ?un" using u0 by (simp add: unit_at_def)
    obtain w1 where w1: "release_idles u ?w = Some w1" "core_same ?w w1" using release_idles_same [OF at] by blast
    obtain r w2 where w2: "act ops (ud_init d) x ?w = Some (r, w2)" "core_same ?w w2" "units w2 = units ?w"
      by (rule act_frame)
    have at2: "unit_at u w2 = Some ?un" using u0 w2(3) by (simp add: unit_at_def)
    obtain w3 where w3: "release_idles u w2 = Some w3" "core_same w2 w3" using release_idles_same [OF at2] by blast
    have "core_same w w1" "core_same w w2" "core_same w w3"
      using w1(2) w2(2) w3(2) by (auto simp: core_same_def set_unit_def)
    then show ?thesis using d u u0 q w1(1) w2(1) w3(1)
      by (auto simp: pitcher_new_unit_def Let_def plain_cenv_def)
  qed
qed

text \<open>A unit whose idle queue is empty can be deleted.\<close>

definition idle_free :: "u64 \<Rightarrow> 'e cworld \<Rightarrow> bool" where
  "idle_free u w \<longleftrightarrow> (\<exists>un q. unit_at u w = Some un \<and> uidles un = Some q \<and> queue q = [])"

lemma del_unit_same:
  assumes "idle_free u w"
  shows "\<exists>w'. pitcher_del_unit (plain_cenv ops rest) u w = Some w' \<and> core_same w w'"
proof -
  obtain un q where un: "unit_at u w = Some un" "uidles un = Some q" "queue q = []"
    using assms by (auto simp: idle_free_def)
  have u: "u \<noteq> 0" using un(1) by (auto simp: unit_at_def)
  obtain r w1 where w1: "act ops (ud_cleanup (udesc un)) (uarg un) w = Some (r, w1)" "core_same w w1" "units w1 = units w"
    by (rule act_frame)
  have del: "\<exists>w'. do { w \<leftarrow> clear_idles (plain_cenv ops rest) u v; w \<leftarrow> release_idles u w; Some (free_unit u w) } = Some w'
      \<and> core_same v w'" if "unit_at u v = Some un" for v
  proof -
    obtain q' m' v' where c: "pitcher_queue_clear (Some q) (Some (on_world (clear_queue_item (plain_cenv ops rest)))) (wmem v) v
        = Some (q', m', v')" "v' = v"
      using un(3) by (auto simp: pitcher_queue_clear_def)
    then have ci: "clear_idles (plain_cenv ops rest) u v = Some (set_unit u (un\<lparr>uidles := q'\<rparr>) (v\<lparr>wmem := m'\<rparr>))"
      using that un(2) by (simp add: clear_idles_def)
    let ?v = "set_unit u (un\<lparr>uidles := q'\<rparr>) (v\<lparr>wmem := m'\<rparr>)"
    have "unit_at u ?v = Some (un\<lparr>uidles := q'\<rparr>)" using u by (simp add: unit_at_def)
    then obtain v2 where "release_idles u ?v = Some v2" "core_same ?v v2" by (rule release_idles_same)
    then show ?thesis using ci by (auto simp: core_same_def set_unit_def free_unit_def)
  qed
  have at1: "unit_at u w1 = Some un" using un(1) w1(3) u by (simp add: unit_at_def)
  show ?thesis
  proof (cases "ud_cleanup (udesc un) = 0")
    case True
    then show ?thesis using un(1,2) u del [OF un(1)] by (simp add: pitcher_del_unit_def)
  next
    case False
    obtain w' where "do { w \<leftarrow> clear_idles (plain_cenv ops rest) u w1; w \<leftarrow> release_idles u w; Some (free_unit u w) } = Some w'"
      "core_same w1 w'" using del [OF at1] by blast
    then show ?thesis using un(1,2) u False w1 at1
      by (auto simp: pitcher_del_unit_def plain_cenv_def intro: core_same_trans)
  qed
qed

section \<open>Registering\<close>

lemma core_same_registry:
  assumes "core_same w w'"
  shows "registry w' = registry w" "chn_numbers w' = chn_numbers w" "reg_inv w' = reg_inv w"
proof -
  have "chn_number w' = chn_number w" using assms by (simp add: core_same_def chn_number_def fun_eq_iff)
  then show "registry w' = registry w" "chn_numbers w' = chn_numbers w" "reg_inv w' = reg_inv w"
    using assms by (simp_all add: core_same_def registry_def chn_numbers_def reg_inv_def)
qed

lemma registry_simps [simp]:
  "registry (set_core a k w) = registry w" "chn_numbers (set_core a k w) = chn_numbers w"
  "registry (w\<lparr>wmem := m\<rparr>) = registry w" "registry (w\<lparr>pfds := p\<rparr>) = registry w"
  "reg_inv (set_core a k w) = reg_inv w" "reg_inv (w\<lparr>wmem := m\<rparr>) = reg_inv w" "reg_inv (w\<lparr>pfds := p\<rparr>) = reg_inv w"
  by (simp_all add: registry_def chn_number_def [abs_def] chn_numbers_def reg_inv_def)

lemma map_number_upd: "a \<notin> set xs \<Longrightarrow> map (chn_number (w\<lparr>chn_heap := (chn_heap w)(a := x)\<rparr>)) xs = map (chn_number w) xs"
  by (auto simp: chn_number_def)

text \<open>A record that is not in the list does not matter.\<close>

lemma outside_registry:
  assumes "a \<notin> set (chns w)" and "chns w' = chns w" and "chn_heap w' = (chn_heap w)(a := x)"
    and "chn_bitmap w' = chn_bitmap w"
  shows "registry w' = registry w" "reg_inv w' = reg_inv w"
proof -
  have n: "chn_number w' b = chn_number w b" if "b \<in> set (chns w)" for b
    using assms(1,3) that by (auto simp: chn_number_def)
  then have m: "map (chn_number w') (chns w) = map (chn_number w) (chns w)" by simp
  show "registry w' = registry w"
    using n assms(2) by (auto simp: registry_def intro!: arg_cong [where f = map_of])
  show "reg_inv w' = reg_inv w"
    using n assms unfolding reg_inv_def assms(2) m by (auto simp: chn_numbers_def dom_def)
qed

text \<open>A new channel with a number that is taken in the bitmap and belongs to nobody.\<close>

lemma registry_add:
  assumes "reg_inv w" and "a \<notin> set (chns w)" and "a \<noteq> 0" and "chns w' = chns w @ [a]" and "chn_heap w' = (chn_heap w)(a \<mapsto> c)"
    and "chn_bitmap w' = chn_bitmap w" and "unat (chnno c) \<in> chn_numbers w" and "chnno c \<notin> dom (registry w)"
  shows "reg_inv w'" and "registry w' = (registry w)(chnno c \<mapsto> a)"
proof -
  have n: "chn_number w' b = (if b = a then chnno c else chn_number w b)" for b
    using assms(5) by (simp add: chn_number_def)
  have m: "map (chn_number w') (chns w) = map (chn_number w) (chns w)" using assms(2) by (auto simp: n)
  have "chnno c \<notin> chn_number w ` set (chns w)"
    using assms(8) registry_Some [OF assms(1)] by (auto simp: dom_def)
  then have "distinct (map (chn_number w') (chns w'))"
    unfolding assms(4) map_append m using assms(1) by (simp add: reg_inv_def n)
  then show inv: "reg_inv w'"
    using assms(1-7) n by (auto simp: reg_inv_def chn_numbers_def)
  show "registry w' = (registry w)(chnno c \<mapsto> a)"
  proof
    fix k
    show "registry w' k = ((registry w)(chnno c \<mapsto> a)) k"
    proof (cases "registry w' k")
      case None
      then have "\<forall>b \<in> set (chns w'). chn_number w' b \<noteq> k" using registry_Some [OF inv] by force
      then have "k \<noteq> chnno c" using assms(4) n by auto
      moreover from this None have "chn_number w b \<noteq> k" if "b \<in> set (chns w)" for b
        using that assms(2,4) n [of b] registry_Some [OF inv, of k b] by (cases "b = a") auto
      ultimately have "k \<noteq> chnno c" "\<forall>b \<in> set (chns w). chn_number w b \<noteq> k" by blast+
      then show ?thesis using None registry_Some [OF assms(1), of k] by (cases "registry w k") auto
    next
      case (Some b)
      then have "b \<in> set (chns w')" "chn_number w' b = k" using registry_Some [OF inv] by auto
      then show ?thesis using Some registry_Some [OF assms(1), of k b] assms(2,4) n assms(8)
        by (cases "b = a") auto
    qed
  qed
qed

lemma option_ext: "(\<And>b. x = Some b \<longleftrightarrow> y = Some b) \<Longrightarrow> x = y"
  by (cases x; cases y) auto

lemma registry_remove:
  assumes "reg_inv w" and "registry w n = Some a" and "chns w' = remove1 a (chns w)" and "chn_heap w' = (chn_heap w)(a := None)"
    and "chn_bitmap w' = chn_bitmap (put_chnno n w)"
  shows "reg_inv w'" and "registry w' = (registry w)(n := None)"
proof -
  have len: "length (chn_bitmap w) = CHN_BITMAP_SIZE" and dist: "distinct (chns w)" "distinct (map (chn_number w) (chns w))"
    using assms(1) by (simp_all add: reg_inv_def)
  have a: "a \<in> set (chns w)" "chn_number w a = n" using registry_Some [OF assms(1)] assms(2) by simp_all
  have n: "chn_number w' b = chn_number w b" if "b \<noteq> a" for b using that assms(4) by (simp add: chn_number_def)
  have s: "set (chns w') = set (chns w) - {a}" using dist(1) assms(3) by simp
  have m: "map (chn_number w') (chns w') = map (chn_number w) (chns w')" using s n by simp
  have "chn_numbers w' = chn_numbers (put_chnno n w)" using assms(5) by (simp add: chn_numbers_def)
  then have nums: "chn_numbers w' = chn_numbers w - {unat n}" using put_chnno_ok(1) [OF len] by simp
  have inj: "inj_on (chn_number w) (set (chns w))" using dist(2) by (simp add: distinct_map)
  have other: "chn_number w b \<noteq> n" if "b \<in> set (chns w')" for b
    using that inj a unfolding s by (auto dest: inj_onD)
  have taken: "unat (chn_number w' b) \<in> chn_numbers w'" if "b \<in> set (chns w')" for b
  proof -
    have b: "b \<in> set (chns w)" "b \<noteq> a" using that unfolding s by simp_all
    have "unat (chn_number w b) \<in> chn_numbers w" using assms(1) b(1) by (simp add: reg_inv_def)
    moreover have "unat (chn_number w b) \<noteq> unat n" using other [OF that] by (simp add: word_unat_eq_iff)
    ultimately show ?thesis unfolding n [OF b(2)] nums by simp
  qed
  have "inj_on (chn_number w) (set (chns w'))" using inj unfolding s by (rule inj_on_subset) blast
  then have "distinct (map (chn_number w') (chns w'))"
    unfolding m using dist(1) assms(3) by (simp add: distinct_map)
  moreover have "length (chn_bitmap w') = CHN_BITMAP_SIZE" using put_chnno_ok(2) [OF len] assms(5) by simp
  moreover have "0 \<notin> set (chns w')" "set (chns w') \<subseteq> dom (chn_heap w')" "distinct (chns w')"
    using assms(1,3,4) dist(1) unfolding s by (auto simp: reg_inv_def)
  ultimately show inv: "reg_inv w'" using taken by (simp add: reg_inv_def)
  have iff: "registry w' k = Some b \<longleftrightarrow> registry w k = Some b \<and> k \<noteq> n" for k b
  proof (cases "b \<in> set (chns w')")
    case True
    then show ?thesis using registry_Some [OF inv, of k b] registry_Some [OF assms(1), of k b] other [OF True] n [of b]
      unfolding s by auto
  next
    case False
    then show ?thesis using registry_Some [OF inv, of k b] registry_Some [OF assms(1), of k b] a unfolding s by auto
  qed
  have "registry w' k = Some b \<longleftrightarrow> ((registry w)(n := None)) k = Some b" for k b
    unfolding iff by simp
  then show "registry w' = (registry w)(n := None)" by (intro ext option_ext)
qed

lemma register_ok:
  assumes "reg_inv w" and "core_at k w = Some kc" and "fst (pitcher_calloc (wmem w)) \<notin> set (chns w)"
  shows "\<exists>r w'. pitcher_register_chn (plain_cenv ops rest) k dsc x w = Some (r, w') \<and> reg_inv w'
    \<and> (if r < 0 then registry w' = registry w
       else r = int (LEAST m. m \<notin> chn_numbers w) \<and> of_int r \<notin> dom (registry w)
         \<and> (\<exists>a. registry w' = (registry w)(of_int r \<mapsto> a)))"
proof -
  have len: "length (chn_bitmap w) = CHN_BITMAP_SIZE" using assms(1) by (simp add: reg_inv_def)
  obtain n w1 where g: "get_chnno w = (n, w1)" by force
  have frame: "chn_heap w1 = chn_heap w" "chns w1 = chns w" "cores w1 = cores w" "wmem w1 = wmem w"
    using g by (auto simp: get_chnno_def split: option.splits prod.splits)
  show ?thesis
  proof (cases "n < 0")
    case True
    then have "w1 = w" using get_chnno_ok [OF len g] by (auto split: if_splits)
    then show ?thesis using assms(1,2) g True by (auto simp: pitcher_register_chn_def)
  next
    case False
    then have n: "n = int (LEAST m. m \<notin> chn_numbers w)" "n < 16384" "nat n \<notin> chn_numbers w"
      "chn_numbers w1 = insert (nat n) (chn_numbers w)" "length (chn_bitmap w1) = CHN_BITMAP_SIZE"
      using get_chnno_ok [OF len g] by (auto simp: CHN_BITMAP_SIZE_def BITS_PER_LONG_def split: if_splits)
    have un: "unat (of_int n :: u32) = nat n"
    proof -
      have "unat (of_nat m :: u32) = m" if "m < 16384" for m
        using that by (simp add: unsigned_of_nat take_bit_nat_eq_self)
      from this [of "nat n"] show ?thesis using False n(2) by (simp add: of_nat_nat)
    qed
    have reg1: "registry w1 = registry w" using frame by (simp add: registry_def chn_number_def [abs_def])
    have inv1: "reg_inv w1" using assms(1) frame n(4,5) by (auto simp: reg_inv_def chn_number_def [abs_def])
    have notin: "of_int n \<notin> dom (registry w)"
    proof
      assume "of_int n \<in> dom (registry w)"
      then obtain b where "b \<in> set (chns w)" "chn_number w b = of_int n" using registry_Some [OF assms(1)] by auto
      then have "nat n \<in> chn_numbers w" using assms(1) un by (metis reg_inv_def)
      then show False using n(3) by simp
    qed
    show ?thesis
    proof (cases "cchns kc")
      case None
      then show ?thesis using assms(2) g False inv1 reg1 by (auto simp: pitcher_register_chn_def)
    next
      case (Some q)
      obtain a m where a: "pitcher_calloc (wmem w) = (a, m)" by force
      have anew: "a \<notin> set (chns w)" using assms(3) a by simp
      show ?thesis
      proof (cases "a = 0")
        case True
        then show ?thesis using assms(2) g False inv1 reg1 Some a frame by (auto simp: pitcher_register_chn_def)
      next
        case a0: False
        have kc: "k \<noteq> 0" "cores w k = Some kc" using assms(2) by (auto simp: core_at_def split: if_splits)
        let ?c = "\<lparr>cname = [], chnno = 0, cerror = 0, cunit = 0, cstate = 0, ccore = 0,
                   ignore_pollerr = 0, preferred_fourcc = 0\<rparr>"
        let ?pf = "\<lparr>pf_func = 0, pf_fd = 0, pf_events = 0, pf_timeout = 0, pf_priv = 0\<rparr>"
        let ?w2 = "set_chn a ?c (w1\<lparr>wmem := m, pfds := (pfds w1)(a + PFD_OFFSET \<mapsto> ?pf)\<rparr>)"
        obtain u w3 where u: "pitcher_new_unit (plain_cenv ops rest) dsc x ?w2 = Some (u, w3)" "core_same ?w2 w3"
          "u \<noteq> 0 \<longrightarrow> dsc \<noteq> None" using new_unit_same by blast
        have w3: "chn_heap w3 = (chn_heap w)(a \<mapsto> ?c)" "chns w3 = chns w" "cores w3 = cores w" "chn_bitmap w3 = chn_bitmap w1"
          using u(2) frame by (simp_all add: core_same_def)
        show ?thesis
        proof (cases "u = 0")
          case True
          let ?w4 = "w3\<lparr>chn_heap := (chn_heap w3)(a := None), pfds := (pfds w3)(a + PFD_OFFSET := None),
            wmem := pitcher_free (wmem w3)\<rparr>"
          have "registry ?w4 = registry w1" "reg_inv ?w4 = reg_inv w1"
            by (rule outside_registry [of a _ _ None]; use anew w3 frame in simp)+
          moreover have "pitcher_register_chn (plain_cenv ops rest) k dsc x w = Some (err RET_E_INVAL, ?w4)"
            using assms(2) g False Some a a0 u(1) True frame
            by (simp add: pitcher_register_chn_def Let_def core_at_def)
          ultimately show ?thesis using inv1 reg1 by auto
        next
          case u0: False
          then obtain d where d: "dsc = Some d" using u(3) by blast
          define pf where "pf = (if 0 \<le> ud_fd d \<and> ud_events d \<noteq> 0
            then ?pf\<lparr>pf_fd := ud_fd d, pf_events := ud_events d, pf_func := POLL_FUNC\<rparr> else ?pf)"
          define c where "c = ?c\<lparr>cunit := u, cname := take 63 (ud_name d), chnno := of_int n, ccore := k\<rparr>"
          define w4 where "w4 = (set_chn a (c\<lparr>cstate := PITCHER_STATE_STOPPED\<rparr>)
            (set_chn a c (w3\<lparr>pfds := (pfds w3)(a + PFD_OFFSET \<mapsto> pf)\<rparr>)))\<lparr>chns := chns w3 @ [a]\<rparr>"
          obtain r5 q5 m5 where p: "pitcher_queue_push_back (cchns kc) a (wmem w4) = (r5, q5, m5)" by (rule prod_cases3)
          let ?w5 = "set_core k (kc\<lparr>cchns := q5\<rparr>) (w4\<lparr>wmem := m5\<rparr>)"
          have "pitcher_register_chn (plain_cenv ops rest) k dsc x w = Some (n, ?w5)"
            using kc g False Some a a0 u(1) u0 d frame p w3(3)
            by (simp add: pitcher_register_chn_def Let_def core_at_def set_chn_status_def chn_at_def chn_states
                pf_def [symmetric] c_def w4_def)
          moreover have "reg_inv w4 \<and> registry w4 = (registry w1)(of_int n \<mapsto> a)"
            using registry_add [OF inv1, of a w4 "c\<lparr>cstate := PITCHER_STATE_STOPPED\<rparr>"] anew a0 frame w3 n(4) un notin reg1
            by (simp add: w4_def c_def)
          ultimately show ?thesis using reg1 notin n(1) False by auto
        qed
      qed
    qed
  qed
qed

section \<open>Unregistering\<close>

lemma set_core_chns_simps [simp]:
  "registry (set_core_chns k q w) = registry w" "reg_inv (set_core_chns k q w) = reg_inv w"
  "chn_heap (set_core_chns k q w) = chn_heap w" "chns (set_core_chns k q w) = chns w"
  "chn_bitmap (set_core_chns k q w) = chn_bitmap w" "units (set_core_chns k q w) = units w"
  by (simp_all add: set_core_chns_def split: option.split)

lemma chn_numbers_cong: "chn_bitmap w' = chn_bitmap w \<Longrightarrow> chn_numbers w' = chn_numbers w"
  by (simp add: chn_numbers_def)

lemma put_chnno_frame [simp]:
  "chn_heap (put_chnno n w) = chn_heap w" "chns (put_chnno n w) = chns w" "cores (put_chnno n w) = cores w"
  "units (put_chnno n w) = units w"
  by (simp_all add: put_chnno_def Let_def)

lemma idle_free_cong: "units w' = units w \<Longrightarrow> idle_free u w' = idle_free u w"
  by (simp add: idle_free_def unit_at_def)

lemma free_chn_ok:
  assumes "reg_inv w" and "registry w n = Some a" and "chn_at a w = Some c" and "idle_free (cunit c) w"
  shows "\<exists>w'. free_chn (plain_cenv ops rest) a w = Some w' \<and> reg_inv w' \<and> registry w' = (registry w)(n := None)
    \<and> cores w' = cores w \<and> chn_numbers w' = chn_numbers w - {unat n} \<and> chns w' = remove1 a (chns w)
    \<and> chn_heap w' = (chn_heap w)(a := None)"
proof -
  have a: "a \<noteq> 0" "chn_heap w a = Some c" using assms(3) by (auto simp: chn_at_def split: if_splits)
  have n: "chnno c = n" using registry_Some [OF assms(1)] assms(2) a(2) by (simp add: chn_number_def)
  have len: "length (chn_bitmap w) = CHN_BITMAP_SIZE" using assms(1) by (simp add: reg_inv_def)
  let ?w1 = "put_chnno n (w\<lparr>chns := remove1 a (chns w)\<rparr>)"
  have bm: "chn_bitmap ?w1 = chn_bitmap (put_chnno n w)" by (simp add: put_chnno_def Let_def)
  have u: "cunit c \<noteq> 0" using assms(4) by (auto simp: idle_free_def unit_at_def)
  have "idle_free (cunit c) ?w1" using assms(4) idle_free_cong [of ?w1 w "cunit c"] by simp
  then obtain w2 where w2: "pitcher_del_unit (plain_cenv ops rest) (cunit c) ?w1 = Some w2" "core_same ?w1 w2"
    using del_unit_same by blast
  have s2: "chn_heap w2 = chn_heap w" "cores w2 = cores w" "chns w2 = remove1 a (chns w)" "chn_bitmap w2 = chn_bitmap ?w1"
    using w2(2) by (simp_all add: core_same_def)
  let ?w3 = "set_chn a (c\<lparr>cunit := 0\<rparr>) w2"
  let ?w4 = "?w3\<lparr>chn_heap := (chn_heap ?w3)(a := None), pfds := (pfds ?w3)(a + PFD_OFFSET := None),
    wmem := pitcher_free (wmem ?w3)\<rparr>"
  have "free_chn (plain_cenv ops rest) a w = Some ?w4"
    using a n u w2(1) s2(1) assms(3) by (simp add: free_chn_def chn_at_def Let_def)
  moreover have "reg_inv ?w4" "registry ?w4 = (registry w)(n := None)"
    using registry_remove [OF assms(1,2), of ?w4] s2 bm by simp_all
  moreover have "chn_numbers ?w4 = chn_numbers w - {unat n}"
    using put_chnno_ok(1) [OF len, of n] s2(4) bm by (simp add: chn_numbers_def)
  ultimately show ?thesis using s2 by simp
qed

lemma unregister_ok:
  assumes "reg_inv w" and "registry w n = Some a" and "chn_at a w = Some c" and "core_at (ccore c) w = Some k" and "cchns k = Some q"
    and "queue_wf q" and "set (elems q) \<subseteq> set (chns w)" and "distinct (elems q)" and "a \<in> set (elems q)" and "idle_free (cunit c) w"
  shows "\<exists>w' q'. pitcher_unregister_chn (plain_cenv ops rest) n w = Some (0, w') \<and> reg_inv w'
    \<and> registry w' = (registry w)(n := None) \<and> chn_numbers w' = chn_numbers w - {unat n}
    \<and> core_chns (ccore c) w' = Some q' \<and> elems q' = remove1 a (elems q)"
proof -
  let ?f = "del_chn_func (plain_cenv ops rest) (Some n)"
  define after where "after = (\<lambda>v :: 'a cworld. reg_inv v \<and> registry v = (registry w)(n := None) \<and> chn_numbers v = chn_numbers w - {unat n}
    \<and> chn_heap v = (chn_heap w)(a := None))"
  define before where "before = (\<lambda>v :: 'a cworld. chn_heap v = chn_heap w \<and> chns v = chns w \<and> chn_bitmap v = chn_bitmap w \<and> units v = units w)"
  define P where "P = (\<lambda>ys xs (v :: 'a cworld). \<exists>zs. elems q = zs @ xs \<and> ys = remove1 a zs
    \<and> (if a \<in> set zs then after v else before v))"
  have a: "a \<noteq> 0" "chn_heap w a = Some c" using assms(3) by (auto simp: chn_at_def split: if_splits)
  have num: "chn_number w b = n \<longleftrightarrow> b = a" if "b \<in> set (elems q)" for b
    using registry_Some [OF assms(1), of n b] assms(2,7) that registry_Some [OF assms(1), of n a] by auto
  have live: "b \<noteq> 0 \<and> (\<exists>cb. chn_heap w b = Some cb)" if "b \<in> set (elems q)" for b
    using that assms(1,7) by (auto simp: reg_inv_def)
  have init: "P [] (elems q) w" by (simp add: P_def before_def)
  have step: "\<exists>b v'. ?f x v = Some (b, v') \<and> core_chns (ccore c) v' = core_chns (ccore c) v \<and> P (if b then ys else ys @ [x]) xs v'"
    if p: "P ys (x # xs) v" for ys x xs v
  proof -
    obtain zs where zs: "elems q = zs @ x # xs" "ys = remove1 a zs" "if a \<in> set zs then after v else before v"
      using p by (auto simp: P_def)
    have x: "x \<in> set (elems q)" "x \<notin> set zs" using zs(1) assms(8) by auto
    obtain cx where cx: "x \<noteq> 0" "chn_heap w x = Some cx" using live [OF x(1)] by auto
    show ?thesis
    proof (cases "x = a")
      case True
      then have b: "before v" using zs(3) x(2) by (auto split: if_splits)
      have inv: "reg_inv v" "registry v = registry w" "chn_numbers v = chn_numbers w"
        using b assms(1) by (simp_all add: before_def reg_inv_def registry_def chn_number_def [abs_def] chn_numbers_def)
      have at: "chn_at a v = Some c" "idle_free (cunit c) v"
        using b a assms(10) idle_free_cong [of v w "cunit c"] by (simp_all add: before_def chn_at_def)
      obtain v' where v': "free_chn (plain_cenv ops rest) a v = Some v'" "reg_inv v'" "registry v' = (registry v)(n := None)"
        "cores v' = cores v" "chn_numbers v' = chn_numbers v - {unat n}" "chn_heap v' = (chn_heap v)(a := None)"
        using free_chn_ok [where ops = ops and rest = rest, OF inv(1) _ at, of n] inv(2) assms(2) by auto
      have "chnno c = n" using num [OF x(1)] True a(2) by (simp add: chn_number_def)
      then have "?f x v = Some (True, v')" using True a(1) at(1) v'(1) by (simp add: del_chn_func_def)
      moreover have "after v'" using v' inv b by (simp add: after_def before_def)
      moreover have "remove1 a (zs @ [a]) = remove1 a zs" using x(2) True by (simp add: remove1_append remove1_idem)
      ultimately show ?thesis using True zs v'(4) by (auto simp: P_def core_chns_def core_at_def intro!: exI [of _ "zs @ [a]"])
    next
      case False
      have cv: "chn_at x v = Some cx" using zs(3) cx False by (auto simp: after_def before_def chn_at_def split: if_splits)
      have "chnno cx \<noteq> n" using num [OF x(1)] False cx(2) by (simp add: chn_number_def)
      then have "?f x v = Some (False, v)" using cx(1) cv by (simp add: del_chn_func_def)
      moreover have "remove1 a (zs @ [x]) = remove1 a zs @ [x]" using False by (simp add: remove1_append remove1_idem)
      ultimately show ?thesis using False zs by (auto simp: P_def intro!: exI [of _ "zs @ [x]"])
    qed
  qed
  have set: "P ys xs (set_core_chns (ccore c) q' v)" if "P ys xs v" for ys xs v q'
  proof -
    have "after (set_core_chns (ccore c) q' v) = after v" "before (set_core_chns (ccore c) q' v) = before v"
      using chn_numbers_cong [of "set_core_chns (ccore c) q' v" v] by (simp_all add: after_def before_def)
    with that show ?thesis unfolding P_def by (simp only:)
  qed
  have free: "P ys xs (v\<lparr>wmem := pitcher_free (wmem v)\<rparr>)" if "P ys xs v" for ys xs v
  proof -
    have "after (v\<lparr>wmem := pitcher_free (wmem v)\<rparr>) = after v" "before (v\<lparr>wmem := pitcher_free (wmem v)\<rparr>) = before v"
      using chn_numbers_cong [of "v\<lparr>wmem := pitcher_free (wmem v)\<rparr>" v] by (simp_all add: after_def before_def)
    with that show ?thesis unfolding P_def by (simp only:)
  qed
  have getq: "core_chns (ccore c) w = Some q" using assms(4,5) by (simp add: core_chns_def)
  from core_chns_slot.walk_rule [where P = P and f = ?f, OF getq assms(6) init step set free]
  obtain w' q' where w': "queue_enumerate_world (core_chns (ccore c)) (set_core_chns (ccore c)) ?f w = Some w'"
    "core_chns (ccore c) w' = Some q'" "P (elems q') [] w'" by blast
  have "find_chn n w = Some a" using find_chn_registry [OF assms(1)] assms(2) by simp
  then have "pitcher_unregister_chn (plain_cenv ops rest) n w = Some (0, w')"
    using a(1) assms(3-5) w'(1) by (simp add: pitcher_unregister_chn_def)
  then show ?thesis using w' assms(9) by (auto simp: P_def after_def)
qed


section \<open>A pipeline\<close>

text \<open>
  Two channels, 0 and 1, with a pipe from the first to the second, both in the given state, and an environment in which
  no callback may be called.
\<close>

definition demo_cunit :: "u64 \<Rightarrow> u64 list \<Rightarrow> pitcher_unit" where
  "demo_cunit i os = \<lparr>udesc = \<lparr>ud_name = ''demo'', ud_init = 0, ud_cleanup = 0, ud_alloc_buffer = 0, ud_start = 0,
     ud_stop = 5, ud_check_ready = 1, ud_runfunc = 1, ud_buffer_count = 0, ud_fd = -1, ud_events = 0\<rparr>,
     uarg = 0, uin = i, outs = os @ replicate (MAX_UNIT_OUTPUT_COUNT - length os) 0,
     uidles = Some \<lparr>queue = [], idles = [], idle_num = 0, count = 0\<rparr>, ubuffer_count = 0, enable = True\<rparr>"

definition demo_chn :: "u32 \<Rightarrow> u64 \<Rightarrow> u32 \<Rightarrow> pitcher_chn" where
  "demo_chn n u s = \<lparr>cname = ''demo'', chnno = n, cerror = 0, cunit = u, cstate = s, ccore = 100,
     ignore_pollerr = 0, preferred_fourcc = 0\<rparr>"

definition demo_pf :: pitcher_poll_fd where
  "demo_pf = \<lparr>pf_func = 0, pf_fd = 0, pf_events = 0, pf_timeout = 0, pf_priv = 0\<rparr>"

definition demo_cworld :: "u32 \<Rightarrow> core_heap" where
  "demo_cworld s = \<lparr>wmem = demo_mem, bufs = Map.empty,
     pipes = [400 \<mapsto> \<lparr>psrc = 200, pdst = 300, pqueue = Some \<lparr>queue = [], idles = [], idle_num = 0, count = 0\<rparr>,
       skip = \<lparr>numerator = 0, denominator = 1, idx = 0\<rparr>, notify = PROCESS_CHN_RUN\<rparr>],
     units = [201 \<mapsto> demo_cunit 0 [400], 301 \<mapsto> demo_cunit 400 []],
     loops = [9 \<mapsto> \<lparr>epoll_fd = 4, running = 1, pools = Some \<lparr>queue = [], idles = [], idle_num = 0, count = 0\<rparr>,
       tasks = Some \<lparr>queue = [], idles = [], idle_num = 0, count = 0\<rparr>, ltimeout = 1, tid = 0, ltv = 0, left_time = 0\<rparr>],
     lnodes = Map.empty, pfds = [304 \<mapsto> demo_pf, 404 \<mapsto> demo_pf],
     ttasks = [124 \<mapsto> \<lparr>tt_func = 0, tt_priv = 0, tt_interval = 0, tt_times = 0\<rparr>],
     chn_heap = [200 \<mapsto> demo_chn 0 201 s, 300 \<mapsto> demo_chn 1 301 s],
     cores = [100 \<mapsto> \<lparr>cpipes = Some \<lparr>queue = [\<lparr>item = 400\<rparr>], idles = [], idle_num = 0, count = 1\<rparr>,
       cchns = Some \<lparr>queue = [\<lparr>item = 200\<rparr>, \<lparr>item = 300\<rparr>], idles = [], idle_num = 0, count = 2\<rparr>,
       cloop = 9, ctotal_count = 0, enable_count = 0\<rparr>],
     chn_bitmap = 3 # replicate 255 0, chns = [200, 300]\<rparr>"

definition null_cenv :: "core_heap loop_env" where
  "null_cenv = \<lparr>init_plane_fn = \<lambda>_ _ _ _ _. None, uninit_plane_fn = \<lambda>_ _ _ _ _. None, recycle_fn = \<lambda>_ _ _ _. None,
     notify_fn = \<lambda>_ _ _. None, init_fn = \<lambda>_ _ _. None, cleanup_fn = \<lambda>_ _ _. None, alloc_buffer_fn = \<lambda>_ _ _. None,
     start_fn = \<lambda>_ _ _. None, stop_fn = \<lambda>_ _ _. None, check_ready_fn = \<lambda>_ _ _. None, runfunc_fn = \<lambda>_ _ _ _. None,
     epoll_create_fn = \<lambda>w. (-1, w), fcntl_getfd_fn = \<lambda>_ w. (0, w), fcntl_fn = \<lambda>_ _ w. (0, w), close_fn = \<lambda>_ w. w,
     epoll_ctl_fn = \<lambda>_ _ _ w. (0, w), epoll_wait_fn = \<lambda>_ _ _ w. ([], w), gettid_fn = \<lambda>_. 0, kill_fn = \<lambda>_ w. w,
     clock_fn = \<lambda>w. (0, w), task_fn = \<lambda>_ _ _. None, poll_fn = \<lambda>_ _ _ _. None\<rparr>"

lemma demo_chn_numbers: "chn_numbers (demo_cworld s) = {0, 1}"
proof -
  have "bit ((3 # replicate 255 0 :: u64 list) ! (n div 64)) (n mod 64) \<longleftrightarrow> n = 0 \<or> n = 1" if "n < 16384" for n
  proof (cases "n < 64")
    case True
    have "bit (3 :: u64) n \<longleftrightarrow> n = 0 \<or> n = 1"
      by (cases n; cases "n - 1") (auto simp: bit_Suc bit_0 bit_numeral_rec)
    then show ?thesis using True by simp
  next
    case False
    then have "n div 64 \<noteq> 0" "n div 64 < 256" "n \<noteq> 0" "n \<noteq> 1" using that by (simp_all add: div_eq_0_iff)
    then show ?thesis by (simp add: nth_Cons')
  qed
  then show ?thesis by (auto simp: chn_numbers_def demo_cworld_def CHN_BITMAP_SIZE_def BITS_PER_LONG_def)
qed

lemma demo_reg_inv: "reg_inv (demo_cworld s)"
proof -
  have "chn_number (demo_cworld s) 200 = 0" "chn_number (demo_cworld s) 300 = 1"
    by (simp_all add: chn_number_def demo_cworld_def demo_chn_def)
  then show ?thesis using demo_chn_numbers [of s]
    by (simp add: reg_inv_def demo_cworld_def [of s] CHN_BITMAP_SIZE_def)
qed


end
