(* ===== verification/CoreRun.thy ===== *)
theory CoreRun
  imports CoreChannels
begin

text \<open>
  Running the pipeline: what the core relies on of its units is the locale \<open>unit_contract\<close>, interpreted on units that act on
  the world outside only; then starting is all or nothing, and a pipeline that has come to its end drains.
\<close>

section \<open>The contract of the units\<close>

definition pipe_ends :: "u64 \<Rightarrow> 'e cworld \<Rightarrow> (u64 \<times> u64) option" where
  "pipe_ends p w = map_option (\<lambda>pi. (psrc pi, pdst pi)) (pipe_at p w)"

definition unit_frame :: "(u64 \<Rightarrow> 'e cworld \<Rightarrow> bool) \<Rightarrow> 'e cworld \<Rightarrow> 'e cworld \<Rightarrow> bool" where
  "unit_frame good w w' \<longleftrightarrow> core_same w w' \<and> (\<forall>p. pipe_ends p w' = pipe_ends p w) \<and> (\<forall>u. good u w \<longrightarrow> good u w')"

text \<open>
  What the core relies on: a unit in good order can be started and stopped, and neither touches the channels, the ends of
  the pipes, or the good order of any unit.
\<close>

locale unit_contract =
  fixes env :: "('e, 'x) cenv" and good :: "u64 \<Rightarrow> 'e cworld \<Rightarrow> bool"
  assumes start: "good u w \<Longrightarrow> \<exists>r w'. pitcher_unit_start env u w = Some (r, w') \<and> unit_frame good w w'"
    and stop: "good u w \<Longrightarrow> \<exists>r w'. pitcher_unit_stop env u w = Some (r, w') \<and> unit_frame good w w'"
    and good_chn: "good u (set_chn a c w) = good u w"
    and good_core: "good u (set_core a k w) = good u w"

definition chn_state :: "'e cworld \<Rightarrow> u64 \<Rightarrow> u32" where
  "chn_state w x = cstate (the (chn_heap w x))"

text \<open>The channels of a core that are connected, source first.\<close>

definition links :: "queue_t \<Rightarrow> 'e cworld \<Rightarrow> (u64 \<times> u64) set" where
  "links pq w = {e. \<exists>p \<in> set (elems pq). pipe_ends p w = Some e}"

text \<open>A core in good shape: its channels are registered, its pipes connect its channels.\<close>

definition core_shape :: "(u64 \<Rightarrow> 'e cworld \<Rightarrow> bool) \<Rightarrow> u64 \<Rightarrow> pitcher_core \<Rightarrow> queue_t \<Rightarrow> queue_t \<Rightarrow> 'e cworld \<Rightarrow> bool" where
  "core_shape good a k q pq w \<longleftrightarrow> core_at a w = Some k \<and> cchns k = Some q \<and> cpipes k = Some pq \<and> reg_inv w
     \<and> distinct (elems q) \<and> set (elems q) \<subseteq> set (chns w)
     \<and> (\<forall>x \<in> set (elems q). ccore (the (chn_heap w x)) = a \<and> good (cunit (the (chn_heap w x))) w)
     \<and> (\<forall>p \<in> set (elems pq). pipe_at p w \<noteq> None) \<and> Range (links pq w) \<subseteq> set (elems q)"

lemma shape_chn:
  assumes "core_shape good a k q pq w" and "x \<in> set (elems q)"
  obtains c where "chn_at x w = Some c" "chn_heap w x = Some c" "x \<noteq> 0" "ccore c = a" "good (cunit c) w"
    "chn_state w x = cstate c" "find_chn (chnno c) w = Some x"
proof -
  have x: "x \<in> set (chns w)" "reg_inv w" using assms by (auto simp: core_shape_def)
  then obtain c where c: "chn_heap w x = Some c" "x \<noteq> 0" by (auto simp: reg_inv_def)
  have "ccore (the (chn_heap w x)) = a \<and> good (cunit (the (chn_heap w x))) w"
    using assms unfolding core_shape_def by blast
  then show ?thesis using c find_chn_self [OF x(2,1)] that [of c]
    by (simp add: chn_at_def chn_state_def chn_number_def)
qed

text \<open>The same world but for the states of the channels.\<close>

definition state_change :: "(u64 \<Rightarrow> 'e cworld \<Rightarrow> bool) \<Rightarrow> 'e cworld \<Rightarrow> 'e cworld \<Rightarrow> bool" where
  "state_change good w w' \<longleftrightarrow> cores w' = cores w \<and> chns w' = chns w \<and> chn_bitmap w' = chn_bitmap w
     \<and> loops w' = loops w \<and> lnodes w' = lnodes w \<and> pfds w' = pfds w \<and> ttasks w' = ttasks w
     \<and> (\<forall>p. pipe_ends p w' = pipe_ends p w) \<and> (\<forall>u. good u w \<longrightarrow> good u w')
     \<and> (\<forall>x. map_option (\<lambda>c. c\<lparr>cstate := 0\<rparr>) (chn_heap w' x) = map_option (\<lambda>c. c\<lparr>cstate := 0\<rparr>) (chn_heap w x))"

lemma state_change_refl [simp]: "state_change good w w"
  by (simp add: state_change_def)

lemma state_change_trans: "state_change good w v \<Longrightarrow> state_change good v u \<Longrightarrow> state_change good w u"
  by (simp add: state_change_def)

lemma state_change_links: "state_change good w w' \<Longrightarrow> links pq w' = links pq w"
  by (simp add: state_change_def links_def)

lemma state_change_fields:
  assumes "state_change good w w'"
  shows "chn_heap w' x = None \<longleftrightarrow> chn_heap w x = None"
    and "chn_heap w x = Some c \<Longrightarrow> \<exists>s. chn_heap w' x = Some (c\<lparr>cstate := s\<rparr>)"
proof -
  have e: "map_option (\<lambda>c. c\<lparr>cstate := 0\<rparr>) (chn_heap w' x) = map_option (\<lambda>c. c\<lparr>cstate := 0\<rparr>) (chn_heap w x)"
    using assms by (simp add: state_change_def)
  then show "chn_heap w' x = None \<longleftrightarrow> chn_heap w x = None" by (cases "chn_heap w x"; cases "chn_heap w' x") auto
  assume "chn_heap w x = Some c"
  with e obtain c' where c': "chn_heap w' x = Some c'" "c'\<lparr>cstate := 0\<rparr> = c\<lparr>cstate := 0\<rparr>" by auto
  then have "c' = c\<lparr>cstate := cstate c'\<rparr>" by (cases c; cases c') simp
  then show "\<exists>s. chn_heap w' x = Some (c\<lparr>cstate := s\<rparr>)" using c'(1) by metis
qed

lemma state_change_shape:
  assumes "state_change good w w'" and "core_shape good a k q pq w"
  shows "core_shape good a k q pq w'"
proof -
  note f = state_change_fields [OF assms(1)]
  have c: "\<exists>s. chn_heap w' x = Some ((the (chn_heap w x))\<lparr>cstate := s\<rparr>)" if "x \<in> set (chns w)" for x
    using assms(2) that f(2) [of x] by (auto simp: core_shape_def reg_inv_def)
  have n: "chn_number w' x = chn_number w x" if "x \<in> set (chns w)" for x
    using c [OF that] by (auto simp: chn_number_def)
  then have m: "map (chn_number w') (chns w) = map (chn_number w) (chns w)" by simp
  have same: "chns w' = chns w" "chn_bitmap w' = chn_bitmap w" "cores w' = cores w" using assms(1) by (simp_all add: state_change_def)
  have "reg_inv w'"
    using assms(2) f(1) n chn_numbers_cong [OF same(2)] unfolding core_shape_def reg_inv_def same m by (auto simp: dom_def)
  moreover have "ccore (the (chn_heap w' x)) = a \<and> good (cunit (the (chn_heap w' x))) w'" if "x \<in> set (elems q)" for x
  proof -
    have "x \<in> set (chns w)" "ccore (the (chn_heap w x)) = a \<and> good (cunit (the (chn_heap w x))) w"
      using assms(2) that unfolding core_shape_def by blast+
    moreover have "good u w \<Longrightarrow> good u w'" for u using assms(1) by (simp add: state_change_def)
    ultimately show ?thesis using c [of x] by auto
  qed
  moreover have "pipe_at p w' \<noteq> None \<longleftrightarrow> pipe_at p w \<noteq> None" for p
  proof -
    have "pipe_at p v = None \<longleftrightarrow> pipe_ends p v = None" for v :: "'a cworld" by (simp add: pipe_ends_def)
    moreover have "pipe_ends p w' = pipe_ends p w" using assms(1) by (simp add: state_change_def)
    ultimately show ?thesis by simp
  qed
  moreover have "core_at a w' = core_at a w" using same by (simp add: core_at_def)
  ultimately show ?thesis
    using assms(2) same state_change_links [OF assms(1)] by (simp add: core_shape_def)
qed

lemma unit_frame_change: "unit_frame good w w' \<Longrightarrow> state_change good w w'"
  by (simp add: unit_frame_def state_change_def core_same_def)

section \<open>Draining, abstractly\<close>

text \<open>What one visit does to the states: a stopping channel stops when all it feeds have stopped.\<close>

definition drain_one :: "(u64 \<times> u64) set \<Rightarrow> u64 \<Rightarrow> (u64 \<Rightarrow> u32) \<Rightarrow> u64 \<Rightarrow> u32" where
  "drain_one E x s = (if s x = PITCHER_STATE_STOPPING \<and> (\<forall>d. (x, d) \<in> E \<longrightarrow> s d = PITCHER_STATE_STOPPED)
     then s(x := PITCHER_STATE_STOPPED) else s)"

definition drain :: "(u64 \<times> u64) set \<Rightarrow> u64 list \<Rightarrow> (u64 \<Rightarrow> u32) \<Rightarrow> u64 \<Rightarrow> u32" where
  "drain E = fold (drain_one E)"

definition ended :: "u64 list \<Rightarrow> (u64 \<Rightarrow> u32) \<Rightarrow> bool" where
  "ended xs s \<longleftrightarrow> (\<forall>x \<in> set xs. s x = PITCHER_STATE_STOPPED \<or> s x = PITCHER_STATE_STOPPING)"

lemma drain_one_mono: "s y = PITCHER_STATE_STOPPED \<Longrightarrow> drain_one E x s y = PITCHER_STATE_STOPPED"
  by (simp add: drain_one_def)

lemma drain_mono: "s y = PITCHER_STATE_STOPPED \<Longrightarrow> drain E xs s y = PITCHER_STATE_STOPPED"
  by (induction xs arbitrary: s) (simp_all add: drain_def drain_one_mono)

lemma drain_one_ended: "ended ys s \<Longrightarrow> ended ys (drain_one E x s)"
  by (auto simp: ended_def drain_one_def)

lemma drain_ended: "ended ys s \<Longrightarrow> ended ys (drain E xs s)"
  by (induction xs arbitrary: s) (simp_all add: drain_def drain_one_ended)

lemma drain_other: "y \<notin> set xs \<Longrightarrow> drain E xs s y = s y"
proof (induction xs arbitrary: s)
  case (Cons x xs)
  then show ?case by (auto simp: drain_def drain_one_def)
qed (simp add: drain_def)

lemma drain_rank:
  assumes "ended xs s" and "set ys \<subseteq> set xs" and "\<And>x d. (x, d) \<in> E \<Longrightarrow> x \<in> set xs \<Longrightarrow> d \<in> set xs \<and> rank d < (rank x :: nat)"
    and "\<And>x. x \<in> set xs \<Longrightarrow> rank x < m \<Longrightarrow> s x = PITCHER_STATE_STOPPED"
  shows "\<And>x. x \<in> set ys \<Longrightarrow> rank x \<le> m \<Longrightarrow> drain E ys s x = PITCHER_STATE_STOPPED"
  using assms(1,2,4)
proof (induction ys arbitrary: s)
  case (Cons y ys)
  let ?s = "drain_one E y s"
  have d: "drain E (y # ys) s = drain E ys ?s" by (simp add: drain_def)
  have below: "?s z = PITCHER_STATE_STOPPED" if "z \<in> set xs" "rank z < m" for z
    using Cons.prems(5) [OF that] by (rule drain_one_mono)
  show ?case
  proof (cases "x = y")
    case True
    have "s y = PITCHER_STATE_STOPPED \<or> s y = PITCHER_STATE_STOPPING" using Cons.prems(3,4) by (auto simp: ended_def)
    moreover have "s d = PITCHER_STATE_STOPPED" if "(y, d) \<in> E" for d
      using assms(3) [OF that] Cons.prems(2,4,5) True by auto
    ultimately have "?s y = PITCHER_STATE_STOPPED" by (auto simp: drain_one_def)
    then show ?thesis unfolding d True by (rule drain_mono)
  next
    case False
    then show ?thesis unfolding d
      using Cons.IH [where s = ?s] Cons.prems(1,2,4) below drain_one_ended [OF Cons.prems(3)] by simp
  qed
qed simp

section \<open>Draining, in the code\<close>

lemma alive_sink:
  assumes "core_shape good a k q pq w" and "x \<in> set (elems q)" and "chn_at x w = Some c"
  shows "\<exists>d. get_alive_sink_chn (chnno c) w = Some d
    \<and> (d = 0 \<longleftrightarrow> (\<forall>y. (x, y) \<in> links pq w \<longrightarrow> chn_state w y = PITCHER_STATE_STOPPED))"
proof -
  obtain c' where "chn_at x w = Some c'" and x: "x \<noteq> 0" "ccore c' = a" "find_chn (chnno c') w = Some x"
    by (rule shape_chn [OF assms(1,2)])
  then have c: "ccore c = a" "find_chn (chnno c) w = Some x" using assms(3) by simp_all
  have core: "core_at a w = Some k" "cchns k = Some q" "cpipes k = Some pq" "core_pipes a w = Some pq"
    using assms(1) by (simp_all add: core_shape_def core_pipes_def)
  let ?alive = "\<lambda>ys. \<exists>p \<in> set ys. \<exists>d. pipe_ends p w = Some (x, d) \<and> chn_state w d \<noteq> PITCHER_STATE_STOPPED"
  define P where "P = (\<lambda>ys (acc :: u64) v. v = w \<and> (acc \<noteq> 0 \<longleftrightarrow> ?alive ys))"
  have "\<exists>acc' w'. queue_visit (core_pipes a) (find_alive_sink_chn x) 0 w = Some (acc', w') \<and> core_pipes a w' = Some pq
      \<and> P (elems pq) acc' w'"
  proof (rule visit_rule [where P = P and getq = "core_pipes a", OF core(4)])
    show "P [] 0 w" by (simp add: P_def)
  next
    fix ys p ps acc v
    assume e: "elems pq = ys @ p # ps" and "P ys acc v"
    then have v: "v = w" "acc \<noteq> 0 \<longleftrightarrow> ?alive ys" by (simp_all add: P_def)
    have p: "p \<in> set (elems pq)" using e by simp
    then obtain pi where pi: "pipe_at p w = Some pi" using assms(1) unfolding core_shape_def by blast
    then have ends: "pipe_ends p w = Some (psrc pi, pdst pi)" "p \<noteq> 0" by (auto simp: pipe_ends_def pipe_at_def split: if_splits)
    have "(psrc pi, pdst pi) \<in> links pq w" using ends(1) p by (auto simp: links_def)
    then have "pdst pi \<in> set (elems q)" using assms(1) unfolding core_shape_def by blast
    then obtain cd where cd: "chn_at (pdst pi) w = Some cd" "pdst pi \<noteq> 0" "chn_state w (pdst pi) = cstate cd"
      by (rule shape_chn [OF assms(1)])
    have "find_alive_sink_chn x p acc w
        = Some (if psrc pi = x \<and> chn_state w (pdst pi) \<noteq> PITCHER_STATE_STOPPED then pdst pi else acc, w)"
      using pi ends(2) x(1) cd by (simp add: find_alive_sink_chn_def pitcher_get_pipe_src_def pitcher_get_pipe_dst_def)
    moreover have "P (ys @ [p]) (if psrc pi = x \<and> chn_state w (pdst pi) \<noteq> PITCHER_STATE_STOPPED then pdst pi else acc) w"
      using v(2) ends(1) cd(2) by (auto simp: P_def)
    ultimately show "\<exists>acc' w'. find_alive_sink_chn x p acc v = Some (acc', w') \<and> core_pipes a w' = core_pipes a v \<and> P (ys @ [p]) acc' w'"
      unfolding v(1) by blast
  qed
  then obtain d where d: "queue_visit (core_pipes a) (find_alive_sink_chn x) 0 w = Some (d, w)" "d \<noteq> 0 \<longleftrightarrow> ?alive (elems pq)"
    by (auto simp: P_def)
  have "get_alive_sink_chn (chnno c) w = Some d"
    using c x(1) assms(3) core d(1) by (simp add: get_alive_sink_chn_def get_related_chn_def)
  then show ?thesis using d(2) by (auto simp: links_def)
qed

lemma chn_state_set:
  "chn_state (set_chn x c w) = (chn_state w)(x := cstate c)"
  by (simp add: chn_state_def fun_eq_iff)

lemma set_state_change:
  assumes "chn_heap w x = Some c" and "\<And>u. good u (set_chn x (c\<lparr>cstate := s\<rparr>) w) = good u w"
  shows "state_change good w (set_chn x (c\<lparr>cstate := s\<rparr>) w)"
  using assms by (simp add: state_change_def pipe_ends_def pipe_at_def)

context unit_contract
begin

lemma stopping_step:
  assumes "core_shape good a k q pq w" and "x \<in> set (elems q)" and "chn_state w x = PITCHER_STATE_STOPPING"
  shows "\<exists>w'. process_chn_run env x w = Some (0, w') \<and> state_change good w w'
    \<and> chn_state w' = drain_one (links pq w) x (chn_state w)"
proof -
  obtain c where c: "chn_at x w = Some c" "chn_heap w x = Some c" "x \<noteq> 0" "good (cunit c) w" "chn_state w x = cstate c"
    by (rule shape_chn [OF assms(1,2)])
  obtain d where d: "get_alive_sink_chn (chnno c) w = Some d"
    "d = 0 \<longleftrightarrow> (\<forall>y. (x, y) \<in> links pq w \<longrightarrow> chn_state w y = PITCHER_STATE_STOPPED)"
    using alive_sink [OF assms(1,2) c(1)] by blast
  have s: "cstate c = PITCHER_STATE_STOPPING" using assms(3) c(5) by simp
  show ?thesis
  proof (cases "d = 0")
    case False
    then have "drain_one (links pq w) x (chn_state w) = chn_state w" using d(2) by (auto simp: drain_one_def)
    then show ?thesis using c(1,3) s d(1) False
      by (simp add: process_chn_run_def process_chn_stopping_def chn_states)
  next
    case True
    obtain r v where v: "pitcher_unit_stop env (cunit c) w = Some (r, v)" "unit_frame good w v" using stop [OF c(4)] by blast
    have hv: "chn_heap v = chn_heap w" using v(2) by (simp add: unit_frame_def core_same_def)
    let ?v = "set_chn x (c\<lparr>cstate := PITCHER_STATE_STOPPED\<rparr>) v"
    have "process_chn_run env x w = Some (0, ?v)"
      using c s d(1) True v(1) hv
      by (simp add: process_chn_run_def process_chn_stopping_def chn_states set_chn_status_def chn_at_def)
    moreover have "state_change good w ?v"
      using unit_frame_change [OF v(2)] set_state_change [where good = good, OF _ good_chn] c(2) hv state_change_trans by metis
    moreover have "chn_state v = chn_state w" using hv by (simp add: chn_state_def fun_eq_iff)
    then have "chn_state ?v = drain_one (links pq w) x (chn_state w)"
      using d(2) True assms(3) by (simp add: chn_state_set drain_one_def)
    ultimately show ?thesis by blast
  qed
qed

lemma run_chn_step:
  assumes "core_shape good a k q pq w" and "x \<in> set (elems q)" and "ended (elems q) (chn_state w)"
  shows "\<exists>w'. run_chn env x n w = Some (if chn_state w' x = PITCHER_STATE_STOPPED then n else n + 1, w') \<and> state_change good w w'
    \<and> chn_state w' = drain_one (links pq w) x (chn_state w)"
proof -
  obtain c where c: "chn_at x w = Some c" "chn_heap w x = Some c" "x \<noteq> 0" "chn_state w x = cstate c"
    by (rule shape_chn [OF assms(1,2)])
  show ?thesis
  proof (cases "chn_state w x = PITCHER_STATE_STOPPED")
    case True
    then show ?thesis using c by (simp add: run_chn_def drain_one_def chn_states)
  next
    case False
    then have s: "chn_state w x = PITCHER_STATE_STOPPING" using assms(2,3) by (auto simp: ended_def)
    obtain w' where w': "process_chn_run env x w = Some (0, w')" "state_change good w w'"
      "chn_state w' = drain_one (links pq w) x (chn_state w)" using stopping_step [OF assms(1,2) s] by blast
    obtain t where "chn_heap w' x = Some (c\<lparr>cstate := t\<rparr>)" using state_change_fields(2) [OF w'(2) c(2)] by blast
    then have "chn_at x w' = Some (c\<lparr>cstate := t\<rparr>)" "chn_state w' x = t" using c(3) by (simp_all add: chn_at_def chn_state_def)
    then show ?thesis using c(1,3,4) False w' by (simp add: run_chn_def)
  qed
qed

lemma pass_ok:
  assumes "core_shape good a k q pq w" and "ended (elems q) (chn_state w)"
  shows "\<exists>n w'. queue_visit (core_chns a) (run_chn env) 0 w = Some (n, w') \<and> state_change good w w'
    \<and> chn_state w' = drain (links pq w) (elems q) (chn_state w)
    \<and> (n = 0 \<longleftrightarrow> (\<forall>x \<in> set (elems q). chn_state w' x = PITCHER_STATE_STOPPED))"
proof -
  let ?E = "links pq w" and ?stopped = "\<lambda>v x. chn_state v x = PITCHER_STATE_STOPPED"
  have shape: "core_chns a w = Some q" "distinct (elems q)" using assms(1) by (simp_all add: core_shape_def core_chns_def)
  have "length (elems q) \<le> CHN_BITMAP_SIZE * BITS_PER_LONG" using assms(1) few_chns unfolding core_shape_def by blast
  then have few: "length (elems q) < 2 ^ 32" by (simp add: CHN_BITMAP_SIZE_def BITS_PER_LONG_def)
  define P where "P = (\<lambda>ys (n :: u32) v. state_change good w v \<and> chn_state v = drain ?E ys (chn_state w)
    \<and> unat n = length (filter (\<lambda>x. \<not> ?stopped v x) ys))"
  have "\<exists>n w'. queue_visit (core_chns a) (run_chn env) 0 w = Some (n, w') \<and> core_chns a w' = Some q \<and> P (elems q) n w'"
  proof (rule visit_rule [where P = P and getq = "core_chns a", OF shape(1)])
    show "P [] 0 w" by (simp add: P_def drain_def)
  next
    fix ys x xs n v
    assume e: "elems q = ys @ x # xs" and p: "P ys n v"
    then have v: "state_change good w v" "chn_state v = drain ?E ys (chn_state w)"
      "unat n = length (filter (\<lambda>x. \<not> ?stopped v x) ys)" by (simp_all add: P_def)
    have links: "links pq v = ?E" by (rule state_change_links [OF v(1)])
    have "ended (elems q) (chn_state v)" unfolding v(2) by (rule drain_ended [OF assms(2)])
    moreover have x: "x \<in> set (elems q)" "x \<notin> set ys" using e shape(2) by auto
    ultimately obtain v' where v': "run_chn env x n v = Some (if ?stopped v' x then n else n + 1, v')" "state_change good v v'"
      "chn_state v' = drain_one ?E x (chn_state v)"
      using run_chn_step [OF state_change_shape [OF v(1) assms(1)]] unfolding links by blast
    have same: "chn_state v' y = chn_state v y" if "y \<in> set ys" for y
      using that x(2) unfolding v'(3) by (auto simp: drain_one_def)
    have "filter (\<lambda>x. \<not> ?stopped v' x) ys = filter (\<lambda>x. \<not> ?stopped v x) ys" using same by (intro filter_cong) simp_all
    moreover have "length (filter (\<lambda>x. \<not> ?stopped v x) ys) < length (elems q)"
      unfolding e by (rule le_less_trans [OF length_filter_le]) simp
    then have "unat (n + 1) = Suc (unat n)" using few v(3) unat_plus_no_ovf [of n 1] by simp
    ultimately have "unat (if ?stopped v' x then n else n + 1) = length (filter (\<lambda>x. \<not> ?stopped v' x) (ys @ [x]))"
      using v(3) by simp
    moreover have "chn_state v' = drain ?E (ys @ [x]) (chn_state w)" using v'(3) v(2) by (simp add: drain_def)
    ultimately have "P (ys @ [x]) (if ?stopped v' x then n else n + 1) v'"
      using state_change_trans [OF v(1) v'(2)] by (simp add: P_def)
    moreover have "core_chns a v' = core_chns a v" using v'(2) by (simp add: state_change_def core_chns_def core_at_def)
    ultimately show "\<exists>acc' w'. run_chn env x n v = Some (acc', w') \<and> core_chns a w' = core_chns a v \<and> P (ys @ [x]) acc' w'"
      using v'(1) by blast
  qed
  then obtain n w' where "queue_visit (core_chns a) (run_chn env) 0 w = Some (n, w')" "P (elems q) n w'" by blast
  then show ?thesis by (auto simp: P_def unat_eq_0 [symmetric] filter_empty_conv)
qed

end

text \<open>The loop belongs to the calling thread, or to none: stopping it signals nobody.\<close>

definition own_loop :: "('e, 'x) cenv \<Rightarrow> pitcher_loop_t \<Rightarrow> bool" where
  "own_loop env lo \<longleftrightarrow> tid lo = 0 \<or> (\<forall>v. gettid_fn env v = tid lo)"

lemma open_loop_cong: "loops w' = loops w \<Longrightarrow> open_loop_at l w' = open_loop_at l w"
  by (simp add: open_loop_at_def loop_at_def)

text \<open>Calls of the timer task of a core until it asks to be deleted, at most \<open>n\<close>.\<close>

fun timer_passes :: "('e, 'x) cenv \<Rightarrow> u64 \<Rightarrow> nat \<Rightarrow> 'e cworld \<Rightarrow> (bool \<times> 'e cworld) option" where
  "timer_passes env t 0 w = Some (False, w)"
| "timer_passes env t (Suc n) w =
     do { (d, w) \<leftarrow> core_timer_func env t w; if d then Some (True, w) else timer_passes env t n w }"

context unit_contract
begin

lemma timer_step:
  assumes "core_shape good a k q pq w" and "ended (elems q) (chn_state w)"
    and "open_loop_at (cloop k) w = Some lo" and "own_loop env lo"
  shows "\<exists>d w'. core_timer_func env (a + TASK_OFFSET) w = Some (d, w')
    \<and> chn_state w' = drain (links pq w) (elems q) (chn_state w)
    \<and> (d \<longleftrightarrow> (\<forall>x \<in> set (elems q). chn_state w' x = PITCHER_STATE_STOPPED))
    \<and> (if d then loop_at (cloop k) w' = Some (lo\<lparr>running := 0\<rparr>) else state_change good w w')"
proof -
  obtain n v where v: "queue_visit (core_chns a) (run_chn env) 0 w = Some (n, v)" "state_change good w v"
    "chn_state v = drain (links pq w) (elems q) (chn_state w)"
    "n = 0 \<longleftrightarrow> (\<forall>x \<in> set (elems q). chn_state v x = PITCHER_STATE_STOPPED)" using pass_ok [OF assms(1,2)] by blast
  have core: "core_at a w = Some k" "core_at a v = Some k"
    using assms(1) state_change_shape [OF v(2) assms(1)] by (simp_all add: core_shape_def)
  have lo: "open_loop_at (cloop k) v = Some lo" "cloop k \<noteq> 0"
    using assms(3) v(2) by (auto simp: state_change_def open_loop_at_def loop_at_def bind_eq_Some_conv split: if_splits)
  let ?v = "set_loop (cloop k) (lo\<lparr>running := 0\<rparr>) v"
  have "pitcher_loop_stop env (cloop k) v = Some (0, ?v)"
    using lo(1) assms(4) by (auto simp: pitcher_loop_stop_def own_loop_def Let_def)
  moreover have loop: "loop_at (cloop k) ?v = Some (lo\<lparr>running := 0\<rparr>)" "chn_state ?v = chn_state v"
    using lo(2) by (simp_all add: loop_at_def chn_state_def fun_eq_iff set_loop_def)
  ultimately have "core_timer_func env (a + TASK_OFFSET) w = Some (if n = 0 then (True, ?v) else (False, v))"
    using v(1) core by (simp add: core_timer_func_def)
  then show ?thesis using v(2-4) loop by (cases "n = 0") auto
qed

lemma passes_drain:
  assumes "core_shape good a k q pq w" and "ended (elems q) (chn_state w)"
    and "open_loop_at (cloop k) w = Some lo" and "own_loop env lo"
    and "\<And>x d. (x, d) \<in> links pq w \<Longrightarrow> x \<in> set (elems q) \<Longrightarrow> rank d < (rank x :: nat)"
    and "\<And>x. x \<in> set (elems q) \<Longrightarrow> rank x < m \<Longrightarrow> chn_state w x = PITCHER_STATE_STOPPED"
    and "\<And>x. x \<in> set (elems q) \<Longrightarrow> rank x \<le> m + n"
  shows "\<exists>w'. timer_passes env (a + TASK_OFFSET) (Suc n) w = Some (True, w')
    \<and> (\<forall>x \<in> set (elems q). chn_state w' x = PITCHER_STATE_STOPPED)
    \<and> loop_at (cloop k) w' = Some (lo\<lparr>running := 0\<rparr>)"
  using assms
proof (induction n arbitrary: w m)
  case (0 w m)
  have rank: "d \<in> set (elems q) \<and> rank d < rank x" if "(x, d) \<in> links pq w" "x \<in> set (elems q)" for x d
    using 0(1,5) that unfolding core_shape_def by blast
  obtain d w' where w': "core_timer_func env (a + TASK_OFFSET) w = Some (d, w')"
    "chn_state w' = drain (links pq w) (elems q) (chn_state w)"
    "d \<longleftrightarrow> (\<forall>x \<in> set (elems q). chn_state w' x = PITCHER_STATE_STOPPED)"
    "if d then loop_at (cloop k) w' = Some (lo\<lparr>running := 0\<rparr>) else state_change good w w'"
    using timer_step [OF 0(1-4)] by blast
  have "chn_state w' x = PITCHER_STATE_STOPPED" if "x \<in> set (elems q)" for x
    unfolding w'(2) by (rule drain_rank [where rank = rank and m = m, OF 0(2) subset_refl rank]) (use 0 that in auto)
  then show ?case using w' by simp
next
  case (Suc n w m)
  have rank: "d \<in> set (elems q) \<and> rank d < rank x" if "(x, d) \<in> links pq w" "x \<in> set (elems q)" for x d
    using Suc(2,6) that unfolding core_shape_def by blast
  obtain d w' where w': "core_timer_func env (a + TASK_OFFSET) w = Some (d, w')"
    "chn_state w' = drain (links pq w) (elems q) (chn_state w)"
    "d \<longleftrightarrow> (\<forall>x \<in> set (elems q). chn_state w' x = PITCHER_STATE_STOPPED)"
    "if d then loop_at (cloop k) w' = Some (lo\<lparr>running := 0\<rparr>) else state_change good w w'"
    using timer_step [OF Suc(2-5)] by blast
  show ?case
  proof (cases d)
    case True
    then show ?thesis using w' by simp
  next
    case False
    then have sc: "state_change good w w'" using w'(4) by simp
    have "chn_state w' x = PITCHER_STATE_STOPPED" if "x \<in> set (elems q)" "rank x < Suc m" for x
      unfolding w'(2) by (rule drain_rank [where rank = rank and m = m, OF Suc(3) subset_refl rank]) (use Suc that in auto)
    moreover have "open_loop_at (cloop k) w' = Some lo"
      using Suc(4) sc open_loop_cong [of w' w] by (simp add: state_change_def)
    moreover have "ended (elems q) (chn_state w')" unfolding w'(2) by (rule drain_ended [OF Suc(3)])
    moreover have "links pq w' = links pq w" by (rule state_change_links [OF sc])
    ultimately have "\<exists>w''. timer_passes env (a + TASK_OFFSET) (Suc n) w' = Some (True, w'')
        \<and> (\<forall>x \<in> set (elems q). chn_state w'' x = PITCHER_STATE_STOPPED)
        \<and> loop_at (cloop k) w'' = Some (lo\<lparr>running := 0\<rparr>)"
      using Suc.IH [OF state_change_shape [OF sc Suc(2)], of "Suc m"] Suc(5,6,8) by simp
    then show ?thesis using w'(1) False by simp
  qed
qed

end

section \<open>Plain units\<close>

text \<open>A unit without buffers of its own whose input, if it has one, has been read.\<close>

definition plain_unit :: "u64 \<Rightarrow> 'e cworld \<Rightarrow> bool" where
  "plain_unit u w \<longleftrightarrow> (\<exists>un. unit_at u w = Some un \<and> ud_buffer_count (udesc un) = 0 \<and> ubuffer_count un = 0
     \<and> (uin un = 0 \<or> (\<exists>pi q. pipe_at (uin un) w = Some pi \<and> pqueue pi = Some q \<and> queue q = [])))"

lemma plain_unit_cong: "units w' = units w \<Longrightarrow> pipes w' = pipes w \<Longrightarrow> plain_unit u w' = plain_unit u w"
  by (simp add: plain_unit_def unit_at_def pipe_at_def)

lemma plain_frame:
  assumes "core_same w w'" and "pipes w' = pipes w"
    and "units w' = units w \<or> (\<exists>un b. unit_at u w = Some un \<and> units w' = (units w)(u \<mapsto> un\<lparr>enable := b\<rparr>))"
  shows "unit_frame plain_unit w w'"
proof -
  have "plain_unit v w'" if "plain_unit v w" for v
  proof -
    obtain un where un: "unit_at v w = Some un" "ud_buffer_count (udesc un) = 0" "ubuffer_count un = 0"
      "uin un = 0 \<or> (\<exists>pi q. pipe_at (uin un) w = Some pi \<and> pqueue pi = Some q \<and> queue q = [])"
      using \<open>plain_unit v w\<close> by (auto simp: plain_unit_def)
    have "unit_at v w' = Some un \<or> (\<exists>b. unit_at v w' = Some (un\<lparr>enable := b\<rparr>))"
      using un(1) assms(3) by (auto simp: unit_at_def split: if_splits)
    moreover have "pipe_at p w' = pipe_at p w" for p using assms(2) by (simp add: pipe_at_def)
    ultimately show ?thesis using un(2-4) by (auto simp: plain_unit_def)
  qed
  then show ?thesis using assms(1,2) by (simp add: unit_frame_def pipe_ends_def pipe_at_def)
qed

lemma plain_clear_input:
  assumes "unit_at u w = Some un" and "uin un = 0 \<or> (\<exists>pi q. pipe_at (uin un) w = Some pi \<and> pqueue pi = Some q \<and> queue q = [])"
  shows "clear_input_buffer env u w = Some (0, w)"
proof (cases "uin un = 0")
  case True
  then show ?thesis using assms(1) by (simp add: clear_input_buffer_def)
next
  case False
  then obtain pi q where pi: "pipe_at (uin un) w = Some pi" "pqueue pi = Some q" "queue q = []" using assms(2) by blast
  have "set_pipe (uin un) (pi\<lparr>pqueue := Some q\<rparr>) (w\<lparr>wmem := wmem w\<rparr>) = w"
    using pi False by (simp add: set_pipe_def pipe_at_def fun_upd_idem)
  then show ?thesis using assms(1) False pi
    by (simp add: clear_input_buffer_def pitcher_pipe_clear_def clear_pipe_queue_def pitcher_queue_clear_def)
qed

lemma act_pipeline: "\<exists>r v. act ops f x w = Some (r, v) \<and> core_same w v \<and> units v = units w \<and> pipes v = pipes w"
  by (rule act_frame [of ops f x w]) blast

lemma plain_ops: "start_fn (plain_cenv ops rest) = act ops" "stop_fn (plain_cenv ops rest) = act ops"
  by (simp_all add: plain_cenv_def)

lemma optional_op:
  "\<exists>r v. (if f \<noteq> 0 then act ops f x w else Some (ret_val RET_OK, w)) = Some (r, v) \<and> core_same w v
    \<and> units v = units w \<and> pipes v = pipes w"
  using act_pipeline by (cases "f = 0") auto

lemma plain_stop:
  assumes "plain_unit u w"
  shows "\<exists>r w'. pitcher_unit_stop (plain_cenv ops rest) u w = Some (r, w') \<and> unit_frame plain_unit w w'"
proof -
  obtain un where un: "unit_at u w = Some un" "ubuffer_count un = 0"
    "uin un = 0 \<or> (\<exists>pi q. pipe_at (uin un) w = Some pi \<and> pqueue pi = Some q \<and> queue q = [])"
    using assms by (auto simp: plain_unit_def)
  have u: "u \<noteq> 0" using un(1) by (auto simp: unit_at_def)
  obtain r v where v: "(if ud_stop (udesc un) \<noteq> 0 then stop_fn (plain_cenv ops rest) (ud_stop (udesc un)) (uarg un) w
      else Some (ret_val RET_OK, w)) = Some (r, v)" "core_same w v" "units v = units w" "pipes v = pipes w"
    using optional_op [of "ud_stop (udesc un)" ops "uarg un" w] unfolding plain_ops by blast
  let ?v = "set_unit u (un\<lparr>enable := False\<rparr>) v"
  have at: "unit_at u v = Some un" using u un(1) v(3) by (simp add: unit_at_def)
  have "clear_input_buffer (plain_cenv ops rest) u ?v = Some (0, ?v)"
    by (rule plain_clear_input [of _ _ "un\<lparr>enable := False\<rparr>"]) (use u un(3) v(4) in \<open>auto simp: unit_at_def pipe_at_def\<close>)
  moreover have "free_buffer (plain_cenv ops rest) u ?v = Some (0, ?v)" using u un(2) by (simp add: free_buffer_def unit_at_def)
  ultimately have "pitcher_unit_stop (plain_cenv ops rest) u w = Some (if r < 0 then (r, v) else (0, ?v))"
    using un(1) v(1) at by (simp add: pitcher_unit_stop_def)
  moreover have "unit_frame plain_unit w v" by (rule plain_frame [OF v(2,4)]) (simp add: v(3))
  moreover have "unit_frame plain_unit w ?v"
    by (rule plain_frame [where u = u]) (use v un(1) in auto)
  ultimately show ?thesis by (cases "r < 0") auto
qed

lemma plain_start:
  assumes "plain_unit u w"
  shows "\<exists>r w'. pitcher_unit_start (plain_cenv ops rest) u w = Some (r, w') \<and> unit_frame plain_unit w w'"
proof -
  obtain un where un: "unit_at u w = Some un" "ud_buffer_count (udesc un) = 0" "ubuffer_count un = 0"
    using assms by (auto simp: plain_unit_def)
  have u: "u \<noteq> 0" using un(1) by (auto simp: unit_at_def)
  obtain r v where v: "(if ud_start (udesc un) \<noteq> 0 then start_fn (plain_cenv ops rest) (ud_start (udesc un)) (uarg un) w
      else Some (ret_val RET_OK, w)) = Some (r, v)" "core_same w v" "units v = units w" "pipes v = pipes w"
    using optional_op [of "ud_start (udesc un)" ops "uarg un" w] unfolding plain_ops by blast
  let ?v = "set_unit u (un\<lparr>enable := True\<rparr>) v"
  have at: "unit_at u v = Some un" using u un(1) v(3) by (simp add: unit_at_def)
  have "pitcher_unit_start (plain_cenv ops rest) u w = Some (if r < 0 then (r, v) else (r, ?v))"
    using un v(1) at by (simp add: pitcher_unit_start_def alloc_buffer_def free_buffer_def)
  moreover have "unit_frame plain_unit w v" by (rule plain_frame [OF v(2,4)]) (simp add: v(3))
  moreover have "unit_frame plain_unit w ?v"
    by (rule plain_frame [where u = u]) (use v un(1) in auto)
  ultimately show ?thesis by (cases "r < 0") auto
qed

interpretation plain: unit_contract "plain_cenv ops rest" plain_unit for ops rest
proof
  fix u w a c
  show "plain_unit u (set_chn a c w) = plain_unit u w" by (rule plain_unit_cong) simp_all
next
  fix u w a k
  show "plain_unit u (set_core a k w) = plain_unit u w" by (rule plain_unit_cong) simp_all
qed (rule plain_start plain_stop, assumption)+

section \<open>Liveness\<close>

lemma acyclic_rank:
  assumes "acyclic E" and "Range E \<subseteq> set xs" and "(x, d) \<in> E"
  shows "card {y \<in> set xs. (d, y) \<in> E\<^sup>+} < card {y \<in> set xs. (x, y) \<in> E\<^sup>+}"
proof (rule psubset_card_mono)
  have "d \<in> {y \<in> set xs. (x, y) \<in> E\<^sup>+}" "d \<notin> {y \<in> set xs. (d, y) \<in> E\<^sup>+}"
    using assms by (auto simp: acyclic_def)
  moreover have "{y \<in> set xs. (d, y) \<in> E\<^sup>+} \<subseteq> {y \<in> set xs. (x, y) \<in> E\<^sup>+}"
    using assms(3) by (auto intro: trancl_into_trancl2)
  ultimately show "{y \<in> set xs. (d, y) \<in> E\<^sup>+} \<subset> {y \<in> set xs. (x, y) \<in> E\<^sup>+}" by blast
qed simp

lemma acyclic_rank_less:
  assumes "acyclic E" and "x \<in> set xs"
  shows "card {y \<in> set xs. (x, y) \<in> E\<^sup>+} < length xs"
proof -
  have "{y \<in> set xs. (x, y) \<in> E\<^sup>+} \<subset> set xs" using assms by (auto simp: acyclic_def)
  then have "card {y \<in> set xs. (x, y) \<in> E\<^sup>+} < card (set xs)" by (intro psubset_card_mono) simp_all
  then show ?thesis using card_length [of xs] by simp
qed

text \<open>C13: A pipeline that has come to its end stops. When every channel of a core has reported its end or has stopped, and
  the pipes form no cycle, then after at most as many calls of the timer task as there are channels, every
  channel has stopped, the loop is told to stop and the task asks to be deleted. (The units own no buffers, have
  read their input and do not call the interface from their \<open>stop\<close>; the loop belongs to the calling thread.)\<close>

theorem pipeline_drains:
  assumes "core_shape plain_unit a k q pq w" and "ended (elems q) (chn_state w)" and "elems q \<noteq> []"
    and "open_loop_at (cloop k) w = Some lo" and "own_loop rest lo" and "acyclic (links pq w)"
  shows "\<exists>w'. timer_passes (plain_cenv ops rest) (a + TASK_OFFSET) (length (elems q)) w = Some (True, w')
    \<and> (\<forall>x \<in> set (elems q). chn_state w' x = PITCHER_STATE_STOPPED)
    \<and> loop_at (cloop k) w' = Some (lo\<lparr>running := 0\<rparr>)"
proof -
  let ?rank = "\<lambda>x. card {y \<in> set (elems q). (x, y) \<in> (links pq w)\<^sup>+}"
  obtain n where n: "length (elems q) = Suc n" using assms(3) by (cases "elems q") auto
  have own: "own_loop (plain_cenv ops rest) lo" using assms(5) by (simp add: own_loop_def plain_cenv_def)
  have "Range (links pq w) \<subseteq> set (elems q)" using assms(1) by (simp add: core_shape_def)
  then have "?rank d < ?rank x" if "(x, d) \<in> links pq w" for x d using acyclic_rank [OF assms(6) _ that] by simp
  moreover have "?rank x \<le> 0 + n" if "x \<in> set (elems q)" for x
    using acyclic_rank_less [OF assms(6) that] n by simp
  ultimately show ?thesis
    using plain.passes_drain [OF assms(1,2,4) own, where rank = ?rank and m = 0 and n = n] unfolding n by simp
qed

lemma demo_shape:
  "core_shape plain_unit 100 \<lparr>cpipes = Some \<lparr>queue = [\<lparr>item = 400\<rparr>], idles = [], idle_num = 0, count = 1\<rparr>,
     cchns = Some \<lparr>queue = [\<lparr>item = 200\<rparr>, \<lparr>item = 300\<rparr>], idles = [], idle_num = 0, count = 2\<rparr>,
     cloop = 9, ctotal_count = 0, enable_count = 0\<rparr>
     \<lparr>queue = [\<lparr>item = 200\<rparr>, \<lparr>item = 300\<rparr>], idles = [], idle_num = 0, count = 2\<rparr>
     \<lparr>queue = [\<lparr>item = 400\<rparr>], idles = [], idle_num = 0, count = 1\<rparr> (demo_cworld s)"
  "links \<lparr>queue = [\<lparr>item = 400\<rparr>], idles = [], idle_num = 0, count = 1\<rparr> (demo_cworld s) = {(200, 300)}"
proof -
  show l: "links \<lparr>queue = [\<lparr>item = 400\<rparr>], idles = [], idle_num = 0, count = 1\<rparr> (demo_cworld s) = {(200, 300)}"
    by (auto simp: links_def elems_def pipe_ends_def pipe_at_def demo_cworld_def)
  have "plain_unit 201 (demo_cworld s)" "plain_unit 301 (demo_cworld s)"
    by (simp_all add: plain_unit_def unit_at_def pipe_at_def demo_cworld_def demo_cunit_def)
  then show "core_shape plain_unit 100 \<lparr>cpipes = Some \<lparr>queue = [\<lparr>item = 400\<rparr>], idles = [], idle_num = 0, count = 1\<rparr>,
     cchns = Some \<lparr>queue = [\<lparr>item = 200\<rparr>, \<lparr>item = 300\<rparr>], idles = [], idle_num = 0, count = 2\<rparr>,
     cloop = 9, ctotal_count = 0, enable_count = 0\<rparr>
     \<lparr>queue = [\<lparr>item = 200\<rparr>, \<lparr>item = 300\<rparr>], idles = [], idle_num = 0, count = 2\<rparr>
     \<lparr>queue = [\<lparr>item = 400\<rparr>], idles = [], idle_num = 0, count = 1\<rparr> (demo_cworld s)"
    using demo_reg_inv [of s] unfolding core_shape_def l
    by (simp add: core_at_def elems_def pipe_at_def demo_cworld_def [of s] demo_chn_def)
qed

theorem pipeline_drains_witness:
  "\<exists>w'. timer_passes (plain_cenv (\<lambda>_ _ e. (-1, e)) null_cenv) 124 2 (demo_cworld PITCHER_STATE_STOPPING) = Some (True, w')
     \<and> chn_state w' 200 = PITCHER_STATE_STOPPED \<and> chn_state w' 300 = PITCHER_STATE_STOPPED"
proof -
  let ?w = "demo_cworld PITCHER_STATE_STOPPING"
  let ?q = "\<lparr>queue = [\<lparr>item = 200\<rparr>, \<lparr>item = 300\<rparr>], idles = [], idle_num = 0, count = 2\<rparr>"
  let ?lo = "\<lparr>epoll_fd = 4, running = 1, pools = Some \<lparr>queue = [], idles = [], idle_num = 0, count = 0\<rparr>,
       tasks = Some \<lparr>queue = [], idles = [], idle_num = 0, count = 0\<rparr>, ltimeout = 1, tid = 0, ltv = 0, left_time = 0\<rparr>"
  have e: "ended (elems ?q) (chn_state ?w)" "elems ?q \<noteq> []" "length (elems ?q) = 2" "set (elems ?q) = {200, 300}"
    by (auto simp: ended_def elems_def chn_state_def demo_cworld_def demo_chn_def)
  have l: "open_loop_at 9 ?w = Some ?lo" "own_loop null_cenv ?lo"
    by (simp_all add: open_loop_at_def loop_at_def own_loop_def demo_cworld_def)
  have "acyclic {(200 :: u64, 300)}" by (auto simp: acyclic_def trancl_insert)
  then have ac: "acyclic (links \<lparr>queue = [\<lparr>item = 400\<rparr>], idles = [], idle_num = 0, count = 1\<rparr> ?w)"
    unfolding demo_shape(2) .
  show ?thesis
    using pipeline_drains [OF demo_shape(1) e(1,2) _ l(2) ac, of "\<lambda>_ _ e. (-1, e)"] l(1) e(3,4)
    by (simp add: TASK_OFFSET_def) blast
qed

text \<open>C22: A channel that has come to its end stops only after all channels it feeds: processing it changes the states of
  the channels in no way while one of those has not stopped, and stops it, and no other channel, when all
  have. (The units are as above.)\<close>

theorem chn_stops_after_sinks:
  assumes "core_shape plain_unit a k q pq w" and "x \<in> set (elems q)" and "chn_state w x = PITCHER_STATE_STOPPING"
  shows "\<exists>w'. process_chn_run (plain_cenv ops rest) x w = Some (0, w') \<and> core_shape plain_unit a k q pq w'
    \<and> chn_state w' = (if \<exists>d. (x, d) \<in> links pq w \<and> chn_state w d \<noteq> PITCHER_STATE_STOPPED
         then chn_state w else (chn_state w)(x := PITCHER_STATE_STOPPED))"
proof -
  obtain w' where w': "process_chn_run (plain_cenv ops rest) x w = Some (0, w')" "state_change plain_unit w w'"
    "chn_state w' = drain_one (links pq w) x (chn_state w)" using plain.stopping_step [OF assms] by blast
  then show ?thesis using state_change_shape [OF w'(2) assms(1)] assms(3) by (auto simp: drain_one_def)
qed

theorem chn_stops_after_sinks_witness:
  "\<exists>w'. process_chn_run (plain_cenv (\<lambda>_ _ e. (0, e)) null_cenv) 200 (demo_cworld PITCHER_STATE_STOPPING) = Some (0, w')
     \<and> chn_state w' 200 = PITCHER_STATE_STOPPING"
proof -
  let ?w = "demo_cworld PITCHER_STATE_STOPPING"
  have s: "chn_state ?w 200 = PITCHER_STATE_STOPPING" "chn_state ?w 300 \<noteq> PITCHER_STATE_STOPPED"
    by (simp_all add: chn_state_def demo_cworld_def demo_chn_def chn_states)
  have x: "200 \<in> set (elems \<lparr>queue = [\<lparr>item = 200\<rparr>, \<lparr>item = 300\<rparr>], idles = [], idle_num = 0, count = 2\<rparr>)"
    by (simp add: elems_def)
  show ?thesis
    using chn_stops_after_sinks [OF demo_shape(1) x s(1), of "\<lambda>_ _ e. (0, e)" null_cenv] s by (auto simp: demo_shape(2))
qed

section \<open>Starting\<close>

text \<open>The channels of the core have no descriptor to poll.\<close>

definition unpolled :: "queue_t \<Rightarrow> 'e cworld \<Rightarrow> bool" where
  "unpolled q w \<longleftrightarrow> (\<forall>x \<in> set (elems q). \<exists>pf. pfds w (x + PFD_OFFSET) = Some pf \<and> pf_func pf = 0)"

text \<open>Changes of states and of the counters of the core.\<close>

definition run_change :: "(u64 \<Rightarrow> 'e cworld \<Rightarrow> bool) \<Rightarrow> u64 \<Rightarrow> pitcher_core \<Rightarrow> queue_t \<Rightarrow> queue_t \<Rightarrow> 'e cworld \<Rightarrow> 'e cworld \<Rightarrow> pitcher_core \<Rightarrow> bool" where
  "run_change good a k q pq w w' k' \<longleftrightarrow> core_shape good a k' q pq w' \<and> cloop k' = cloop k
     \<and> loops w' = loops w \<and> ttasks w' = ttasks w \<and> pfds w' = pfds w"

lemma set_core_shape:
  assumes "core_shape good a k q pq w" and "\<And>u. good u (set_core a k' w) = good u w" and "cchns k' = cchns k" and "cpipes k' = cpipes k"
  shows "core_shape good a k' q pq (set_core a k' w)"
  using assms by (auto simp: core_shape_def core_at_def links_def pipe_ends_def pipe_at_def split: if_splits)

context unit_contract
begin

lemma start_step:
  assumes "core_shape good a k q pq w" and "x \<in> set (elems q)" and "unpolled q w" and "chn_state w x \<noteq> PITCHER_STATE_ACTIVE"
  shows "\<exists>w' k'. start_chn env x w = Some w' \<and> run_change good a k q pq w w' k'
    \<and> (chn_state w' = chn_state w \<or> chn_state w' = (chn_state w)(x := PITCHER_STATE_ACTIVE))
    \<and> ctotal_count k' = ctotal_count k + 1
    \<and> enable_count k' = (if chn_state w' x = PITCHER_STATE_ACTIVE then enable_count k + 1 else enable_count k)"
proof -
  obtain c where c: "chn_at x w = Some c" "chn_heap w x = Some c" "x \<noteq> 0" "ccore c = a" "good (cunit c) w" "chn_state w x = cstate c"
    by (rule shape_chn [OF assms(1,2)])
  obtain pf where pf: "pfds w (x + PFD_OFFSET) = Some pf" "pf_func pf = 0" using assms(2,3) by (auto simp: unpolled_def)
  obtain r v where v: "pitcher_unit_start env (cunit c) w = Some (r, v)" "unit_frame good w v" using start [OF c(5)] by blast
  have same: "chn_heap v = chn_heap w" "pfds v = pfds w" "loops v = loops w" "ttasks v = ttasks w"
    using v(2) by (simp_all add: unit_frame_def core_same_def)
  have st: "chn_state v = chn_state w" using same by (simp add: chn_state_def fun_eq_iff)
  define u where "u = (if r = 0 then set_chn x (c\<lparr>cstate := PITCHER_STATE_ACTIVE\<rparr>) v else v)"
  have "state_change good v u"
    unfolding u_def using set_state_change [where good = good, OF _ good_chn] c(2) same(1) by simp
  then have "state_change good w u" using unit_frame_change [OF v(2)] state_change_trans by blast
  then have shape: "core_shape good a k q pq u" by (rule state_change_shape [OF _ assms(1)])
  have su: "chn_state u = (if r = 0 then (chn_state w)(x := PITCHER_STATE_ACTIVE) else chn_state w)"
    by (simp add: u_def chn_state_set st)
  obtain cu where cu: "chn_at x u = Some cu" "ccore cu = a" "chn_state u x = cstate cu" by (rule shape_chn [OF shape assms(2)])
  let ?k = "k\<lparr>enable_count := (if cstate cu = PITCHER_STATE_ACTIVE then enable_count k + 1 else enable_count k),
    ctotal_count := ctotal_count k + 1\<rparr>"
  have core: "core_at a u = Some k" using shape by (simp add: core_shape_def)
  have "start_chn env x w = Some (set_core a ?k u)"
  proof (cases "r = 0")
    case True
    then show ?thesis using c(1-4,6) assms(4) v(1) same pf cu core
      by (auto simp: start_chn_def set_chn_status_def chn_at_def chn_states u_def)
  next
    case False
    then show ?thesis using c(1-4,6) assms(4) v(1) same pf cu core by (simp add: start_chn_def u_def)
  qed
  moreover have "run_change good a k q pq w (set_core a ?k u) ?k"
    using set_core_shape [OF shape good_core, of ?k] same by (simp add: run_change_def u_def)
  moreover have "chn_state (set_core a ?k u) = chn_state u" by (simp add: chn_state_def fun_eq_iff)
  ultimately show ?thesis using su cu(3) by (intro exI [of _ "set_core a ?k u"] exI [of _ ?k]) simp
qed

lemma stop_step:
  assumes "core_shape good a k q pq w" and "x \<in> set (elems q)" and "unpolled q w"
  shows "\<exists>w'. stop_chn env x w = Some w' \<and> run_change good a k q pq w w' k
    \<and> chn_state w' = (chn_state w)(x := PITCHER_STATE_STOPPED)"
proof -
  obtain c where c: "chn_at x w = Some c" "chn_heap w x = Some c" "x \<noteq> 0" "ccore c = a" "good (cunit c) w" "chn_state w x = cstate c"
    by (rule shape_chn [OF assms(1,2)])
  obtain pf where pf: "pfds w (x + PFD_OFFSET) = Some pf" "pf_func pf = 0" using assms(2,3) by (auto simp: unpolled_def)
  show ?thesis
  proof (cases "cstate c = PITCHER_STATE_STOPPED")
    case True
    then have "chn_state w = (chn_state w)(x := PITCHER_STATE_STOPPED)" using c(6) by auto
    then show ?thesis using c True assms(1) by (simp add: stop_chn_def run_change_def)
  next
    case False
    obtain r v where v: "pitcher_unit_stop env (cunit c) w = Some (r, v)" "unit_frame good w v" using stop [OF c(5)] by blast
    have same: "chn_heap v = chn_heap w" "pfds v = pfds w" "loops v = loops w" "ttasks v = ttasks w"
      using v(2) by (simp_all add: unit_frame_def core_same_def)
    let ?u = "set_chn x (c\<lparr>cstate := PITCHER_STATE_STOPPED\<rparr>) v"
    have "state_change good v ?u" using set_state_change [where good = good, OF _ good_chn] c(2) same(1) by simp
    then have "state_change good w ?u" using unit_frame_change [OF v(2)] state_change_trans by blast
    then have shape: "core_shape good a k q pq ?u" by (rule state_change_shape [OF _ assms(1)])
    have "stop_chn env x w = Some ?u"
      using c(1-3) False pf v(1) same(1) by (simp add: stop_chn_def set_chn_status_def chn_at_def chn_states)
    moreover have "chn_state v = chn_state w" using same(1) by (simp add: chn_state_def fun_eq_iff)
    ultimately show ?thesis using shape same by (simp add: run_change_def chn_state_set)
  qed
qed

lemma run_change_trans:
  "run_change good a k q pq w v k1 \<Longrightarrow> run_change good a k1 q pq v u k2 \<Longrightarrow> run_change good a k q pq w u k2"
  by (simp add: run_change_def)

lemma run_change_chns: "run_change good a k q pq w w' k' \<Longrightarrow> core_chns a w' = Some q"
  by (simp add: run_change_def core_shape_def core_chns_def)

lemma stop_all:
  assumes "core_shape good a k q pq w" and "unpolled q w"
  shows "\<exists>u w'. queue_visit (core_chns a) (visit_all (stop_chn env)) () w = Some (u, w') \<and> run_change good a k q pq w w' k
    \<and> (\<forall>x \<in> set (elems q). chn_state w' x = PITCHER_STATE_STOPPED)"
proof -
  have core: "core_chns a w = Some q" using assms(1) by (simp add: core_shape_def core_chns_def)
  define P where "P = (\<lambda>ys (u :: unit) v. run_change good a k q pq w v k \<and> (\<forall>x \<in> set ys. chn_state v x = PITCHER_STATE_STOPPED))"
  have "\<exists>u w'. queue_visit (core_chns a) (visit_all (stop_chn env)) () w = Some (u, w') \<and> core_chns a w' = Some q \<and> P (elems q) u w'"
  proof (rule visit_rule [where P = P and getq = "core_chns a", OF core])
    show "P [] () w" using assms(1) by (simp add: P_def run_change_def)
  next
    fix ys x xs u v
    assume e: "elems q = ys @ x # xs" and "P ys u v"
    then have v: "run_change good a k q pq w v k" "\<forall>x \<in> set ys. chn_state v x = PITCHER_STATE_STOPPED" by (simp_all add: P_def)
    have x: "x \<in> set (elems q)" using e by simp
    have "core_shape good a k q pq v" "unpolled q v" using v(1) assms(2) by (simp_all add: run_change_def unpolled_def)
    then obtain v' where v': "stop_chn env x v = Some v'" "run_change good a k q pq v v' k"
      "chn_state v' = (chn_state v)(x := PITCHER_STATE_STOPPED)" using stop_step [OF _ x] by blast
    have "P (ys @ [x]) () v'" using run_change_trans [OF v(1) v'(2)] v(2) v'(3) by (auto simp: P_def)
    moreover have "core_chns a v' = core_chns a v" using run_change_chns [OF v(1)] run_change_chns [OF v'(2)] by simp
    ultimately show "\<exists>acc' w'. visit_all (stop_chn env) x u v = Some (acc', w') \<and> core_chns a w' = core_chns a v \<and> P (ys @ [x]) acc' w'"
      using v'(1) by (simp add: visit_all_def)
  qed
  then show ?thesis by (auto simp: P_def)
qed

lemma start_all:
  assumes "core_shape good a k q pq w" and "unpolled q w" and "\<forall>x \<in> set (elems q). chn_state w x = PITCHER_STATE_STOPPED"
    and "ctotal_count k = 0" and "enable_count k = 0"
  shows "\<exists>u w' k'. queue_visit (core_chns a) (visit_all (start_chn env)) () w = Some (u, w') \<and> run_change good a k q pq w w' k'
    \<and> (enable_count k' < ctotal_count k' \<longleftrightarrow> (\<exists>x \<in> set (elems q). chn_state w' x \<noteq> PITCHER_STATE_ACTIVE))"
proof -
  have core: "core_chns a w = Some q" "distinct (elems q)" using assms(1) by (simp_all add: core_shape_def core_chns_def)
  have "length (elems q) \<le> CHN_BITMAP_SIZE * BITS_PER_LONG" using assms(1) few_chns unfolding core_shape_def by blast
  then have few: "length (elems q) < 2 ^ 32" by (simp add: CHN_BITMAP_SIZE_def BITS_PER_LONG_def)
  let ?active = "\<lambda>v x. chn_state v x = PITCHER_STATE_ACTIVE"
  define P where "P = (\<lambda>ys (u :: unit) v. \<exists>k'. run_change good a k q pq w v k'
    \<and> (\<forall>x \<in> set (elems q) - set ys. chn_state v x = PITCHER_STATE_STOPPED)
    \<and> unat (ctotal_count k') = length ys \<and> unat (enable_count k') = length (filter (?active v) ys))"
  have "\<exists>u w'. queue_visit (core_chns a) (visit_all (start_chn env)) () w = Some (u, w') \<and> core_chns a w' = Some q \<and> P (elems q) u w'"
  proof (rule visit_rule [where P = P and getq = "core_chns a", OF core(1)])
    show "P [] () w" using assms by (auto simp: P_def run_change_def)
  next
    fix ys x xs u v
    assume e: "elems q = ys @ x # xs" and "P ys u v"
    then obtain k1 where v: "run_change good a k q pq w v k1" "\<forall>x \<in> set (elems q) - set ys. chn_state v x = PITCHER_STATE_STOPPED"
      "unat (ctotal_count k1) = length ys" "unat (enable_count k1) = length (filter (?active v) ys)" by (auto simp: P_def)
    have x: "x \<in> set (elems q)" "x \<notin> set ys" using e core(2) by auto
    have shape: "core_shape good a k1 q pq v" "unpolled q v" using v(1) assms(2) by (simp_all add: run_change_def unpolled_def)
    have "chn_state v x \<noteq> PITCHER_STATE_ACTIVE" using v(2) x by (simp add: chn_states)
    then obtain v' k2 where v': "start_chn env x v = Some v'" "run_change good a k1 q pq v v' k2"
      "chn_state v' = chn_state v \<or> chn_state v' = (chn_state v)(x := PITCHER_STATE_ACTIVE)"
      "ctotal_count k2 = ctotal_count k1 + 1"
      "enable_count k2 = (if ?active v' x then enable_count k1 + 1 else enable_count k1)"
      using start_step [OF shape(1) x(1) shape(2)] by blast
    have other: "chn_state v' y = chn_state v y" if "y \<noteq> x" for y using v'(3) that by auto
    have "chn_state v' y = chn_state v y" if "y \<in> set ys" for y using other [of y] that x(2) by auto
    then have "filter (?active v') ys = filter (?active v) ys" by (intro filter_cong) simp_all
    moreover define n where "n = length (filter (?active v) ys)"
    then have "n \<le> length ys" by simp
    then have "length ys + 1 < 2 ^ 32" "n + 1 < 2 ^ 32" using few unfolding e by simp_all
    then have "unat (ctotal_count k1 + 1) = Suc (length ys)" "unat (enable_count k1 + 1) = Suc n"
      using v(3) v(4) [folded n_def] unat_plus_no_ovf [of "ctotal_count k1" 1] unat_plus_no_ovf [of "enable_count k1" 1] by simp_all
    ultimately have "unat (ctotal_count k2) = length (ys @ [x])" "unat (enable_count k2) = length (filter (?active v') (ys @ [x]))"
      using v(3,4) v'(4,5) by (simp_all add: n_def)
    moreover have "\<forall>y \<in> set (elems q) - set (ys @ [x]). chn_state v' y = PITCHER_STATE_STOPPED" using v(2) other by auto
    ultimately have "P (ys @ [x]) () v'" using run_change_trans [OF v(1) v'(2)] by (auto simp: P_def)
    moreover have "core_chns a v' = core_chns a v" using run_change_chns [OF v(1)] run_change_chns [OF v'(2)] by simp
    ultimately show "\<exists>acc' w'. visit_all (start_chn env) x u v = Some (acc', w') \<and> core_chns a w' = core_chns a v \<and> P (ys @ [x]) acc' w'"
      using v'(1) by (simp add: visit_all_def)
  qed
  then obtain u w' k' where r: "queue_visit (core_chns a) (visit_all (start_chn env)) () w = Some (u, w')" "run_change good a k q pq w w' k'"
    "unat (ctotal_count k') = length (elems q)" "unat (enable_count k') = length (filter (?active w') (elems q))"
    by (auto simp: P_def)
  have "enable_count k' < ctotal_count k' \<longleftrightarrow> length (filter (?active w') (elems q)) \<noteq> length (elems q)"
    using r(3,4) le_neq_implies_less [OF length_filter_le, of "?active w'" "elems q"] by (auto simp: word_less_nat_alt)
  also have "\<dots> \<longleftrightarrow> (\<exists>x \<in> set (elems q). \<not> ?active w' x)" by (simp add: length_filter_all)
  finally show ?thesis using r(1,2) by blast
qed

end

text \<open>A clock that only changes the world outside.\<close>

definition outside_clock :: "('e, 'x) cenv \<Rightarrow> bool" where
  "outside_clock env \<longleftrightarrow> (\<forall>w. \<exists>t e. clock_fn env w = (t, core_heap.more_update (\<lambda>_. e) w))"

lemma more_update_frame [simp]:
  "chn_heap (core_heap.more_update f w) = chn_heap w" "cores (core_heap.more_update f w) = cores w"
  "loops (core_heap.more_update f w) = loops w" "wmem (core_heap.more_update f w) = wmem w"
  "ttasks (core_heap.more_update f w) = ttasks w"
  by (cases w; simp)+

lemma add_task_ok:
  assumes "open_loop_at l w = Some lo" and "ttasks w t = Some ta" and "outside_clock env"
  shows "\<exists>r w' lo'. pitcher_loop_add_task env l t w = Some (r, w') \<and> chn_heap w' = chn_heap w \<and> cores w' = cores w
    \<and> open_loop_at l w' = Some lo'"
proof (cases "t = 0 \<or> tt_func ta = 0")
  case True
  then show ?thesis using assms(1,2) by (auto simp: pitcher_loop_add_task_def)
next
  case False
  have l: "l \<noteq> 0" "loops w l = Some lo" "\<not> epoll_fd lo < 0"
    using assms(1) by (auto simp: open_loop_at_def loop_at_def bind_eq_Some_conv split: if_splits)
  obtain n m where n: "pitcher_calloc (wmem w) = (n, m)" by force
  show ?thesis
  proof (cases "n = 0")
    case True
    then show ?thesis using assms(1,2) False l n by (auto simp: pitcher_loop_add_task_def open_loop_at_def loop_at_def)
  next
    case n0: False
    let ?ta = "if tt_interval ta = 0 then ta\<lparr>tt_interval := LOOP_TIMEOUT_DEFAULT\<rparr> else ta"
    let ?w = "w\<lparr>wmem := m, ttasks := (ttasks w)(t \<mapsto> ?ta)\<rparr>"
    obtain now e where c: "clock_fn env ?w = (now, core_heap.more_update (\<lambda>_. e) ?w)"
      using assms(3) unfolding outside_clock_def by blast
    let ?v = "set_node n \<lparr>nkey = t, ntv = now, ntimeout = tt_interval ?ta, ntimes = tt_times ?ta, nloop = l\<rparr>
      (core_heap.more_update (\<lambda>_. e) ?w)"
    have v: "loops ?v = loops w" "chn_heap ?v = chn_heap w" "cores ?v = cores w" by (simp_all add: set_node_def)
    obtain r q m2 where p: "pitcher_queue_push_back (tasks lo) n (wmem ?v) = (r, q, m2)" by (rule prod_cases3)
    let ?u = "set_loop l (lo\<lparr>tasks := q\<rparr>) (?v\<lparr>wmem := m2\<rparr>)"
    have "pitcher_loop_add_task env l t w = Some (if r < 0 then (r, free_node n ?u) else (0, ?u))"
      using assms(1,2) False n n0 c l v(1) p by (simp add: pitcher_loop_add_task_def Let_def loop_at_def)
    moreover have "open_loop_at l ?u = Some (lo\<lparr>tasks := q\<rparr>)" "open_loop_at l (free_node n ?u) = Some (lo\<lparr>tasks := q\<rparr>)"
      using l by (simp_all add: open_loop_at_def loop_at_def free_node_def)
    moreover have "chn_heap ?u = chn_heap w" "cores ?u = cores w" "chn_heap (free_node n ?u) = chn_heap w"
      "cores (free_node n ?u) = cores w"
      using v by (simp_all add: set_loop_def free_node_def)
    ultimately show ?thesis by (cases "r < 0") auto
  qed
qed



end
