(* ===== verification/CoreLinks.thy ===== *)
theory CoreLinks
  imports CoreRun
begin

text \<open>
  Connecting and disconnecting channels, and what is lost when a channel cannot be registered.
\<close>

section \<open>Registering, connecting and disconnecting: what goes wrong\<close>

text \<open>A channel number is lost when a channel cannot be made. When the description of a unit lacks an operation,
  \<open>pitcher_register_chn\<close> returns \<open>-RET_E_INVAL\<close> and registers nobody, but the number it took from the
  bitmap stays taken: it is the number of no channel, by which it could be unregistered.\<close>

theorem register_loses_number:
  assumes "reg_inv w" and "core_at k w = Some kc" and "cchns kc \<noteq> None" and "fst (pitcher_calloc (wmem w)) \<notin> {0} \<union> set (chns w)"
    and "chn_numbers w \<noteq> {..<CHN_BITMAP_SIZE * BITS_PER_LONG}" and "ud_check_ready d = 0 \<or> ud_runfunc d = 0"
  shows "\<exists>w' n. pitcher_register_chn env k (Some d) x w = Some (err RET_E_INVAL, w') \<and> registry w' = registry w
    \<and> n \<notin> chn_numbers w \<and> chn_numbers w' = insert n (chn_numbers w)"
proof -
  have len: "length (chn_bitmap w) = CHN_BITMAP_SIZE" using assms(1) by (simp add: reg_inv_def)
  obtain n w1 where g: "get_chnno w = (n, w1)" by force
  have frame: "chn_heap w1 = chn_heap w" "chns w1 = chns w" "cores w1 = cores w" "wmem w1 = wmem w"
    using g by (auto simp: get_chnno_def split: option.splits prod.splits)
  have n: "\<not> n < 0" "nat n \<notin> chn_numbers w" "chn_numbers w1 = insert (nat n) (chn_numbers w)"
    using get_chnno_ok [OF len g] assms(5) by auto
  obtain a m where a: "pitcher_calloc (wmem w) = (a, m)" "a \<noteq> 0" "a \<notin> set (chns w)" using assms(4) by (cases "pitcher_calloc (wmem w)") auto
  let ?c = "\<lparr>cname = [], chnno = 0, cerror = 0, cunit = 0, cstate = 0, ccore = 0, ignore_pollerr = 0, preferred_fourcc = 0\<rparr>"
  let ?pf = "\<lparr>pf_func = 0, pf_fd = 0, pf_events = 0, pf_timeout = 0, pf_priv = 0\<rparr>"
  let ?w2 = "set_chn a ?c (w1\<lparr>wmem := m, pfds := (pfds w1)(a + PFD_OFFSET \<mapsto> ?pf)\<rparr>)"
  let ?w3 = "?w2\<lparr>chn_heap := (chn_heap ?w2)(a := None), pfds := (pfds ?w2)(a + PFD_OFFSET := None), wmem := pitcher_free (wmem ?w2)\<rparr>"
  have "pitcher_new_unit env (Some d) x ?w2 = Some (0, ?w2)" using assms(6) by (auto simp: pitcher_new_unit_def)
  then have "pitcher_register_chn env k (Some d) x w = Some (err RET_E_INVAL, ?w3)"
    using assms(2,3) g n(1) a(1,2) frame(4) by (auto simp: pitcher_register_chn_def Let_def)
  moreover have "registry ?w3 = registry w1" using outside_registry(1) [of a w1 ?w3 None] a(3) frame(2) by simp
  moreover have "registry w1 = registry w" using frame by (simp add: registry_def chn_number_def [abs_def])
  moreover have "chn_numbers ?w3 = chn_numbers w1" by (rule chn_numbers_cong) simp
  ultimately show ?thesis using n by (intro exI [of _ ?w3] exI [of _ "nat n"]) simp
qed

theorem register_loses_number_witness:
  "\<exists>w' n. pitcher_register_chn null_cenv 100 (Some ((udesc demo_unit)\<lparr>ud_runfunc := 0\<rparr>)) 0 (demo_cworld 0) = Some (err RET_E_INVAL, w')
     \<and> n \<notin> {0, 1} \<and> chn_numbers w' = insert n {0, 1}"
proof -
  let ?w = "demo_cworld 0"
  have h: "fst (pitcher_calloc (wmem ?w)) \<notin> {0} \<union> set (chns ?w)"
    by (simp add: demo_cworld_def demo_mem_def mem_defs)
  have c: "core_at 100 ?w = Some \<lparr>cpipes = Some \<lparr>queue = [\<lparr>item = 400\<rparr>], idles = [], idle_num = 0, count = 1\<rparr>,
     cchns = Some \<lparr>queue = [\<lparr>item = 200\<rparr>, \<lparr>item = 300\<rparr>], idles = [], idle_num = 0, count = 2\<rparr>,
     cloop = 9, ctotal_count = 0, enable_count = 0\<rparr>"
    using demo_shape(1) [of 0] by (simp add: core_shape_def)
  have k: "cchns \<lparr>cpipes = Some \<lparr>queue = [\<lparr>item = 400\<rparr>], idles = [], idle_num = 0, count = 1\<rparr>,
     cchns = Some \<lparr>queue = [\<lparr>item = 200\<rparr>, \<lparr>item = 300\<rparr>], idles = [], idle_num = 0, count = 2\<rparr>,
     cloop = 9, ctotal_count = 0, enable_count = 0\<rparr> \<noteq> None" by simp
  have "2 \<in> {..<CHN_BITMAP_SIZE * BITS_PER_LONG}" "2 \<notin> {0, 1 :: nat}" by (simp_all add: CHN_BITMAP_SIZE_def BITS_PER_LONG_def)
  then have "chn_numbers ?w \<noteq> {..<CHN_BITMAP_SIZE * BITS_PER_LONG}" unfolding demo_chn_numbers by blast
  moreover have "ud_check_ready ((udesc demo_unit)\<lparr>ud_runfunc := 0\<rparr>) = 0 \<or> ud_runfunc ((udesc demo_unit)\<lparr>ud_runfunc := 0\<rparr>) = 0" by simp
  ultimately obtain w' n where "pitcher_register_chn null_cenv 100 (Some ((udesc demo_unit)\<lparr>ud_runfunc := 0\<rparr>)) 0 ?w = Some (err RET_E_INVAL, w')"
    "n \<notin> chn_numbers ?w" "chn_numbers w' = insert n (chn_numbers ?w)"
    using register_loses_number [where env = null_cenv and x = 0, OF demo_reg_inv c k h] by blast
  then show ?thesis unfolding demo_chn_numbers by blast
qed

text \<open>A walk whose callback keeps every element and changes nothing, or fails.\<close>

lemma walk_readonly:
  assumes "getq w = Some q" and "\<And>x. x \<in> set (elems q) \<Longrightarrow> f x w = None \<or> f x w = Some (False, w)"
  shows "queue_enumerate_world getq setq f w = (if \<exists>x \<in> set (elems q). f x w = None then None else Some w)"
proof -
  have "queue_walk getq setq f (length front) w = (if \<exists>n \<in> set ns. f (item n) w = None then None else Some w)"
    if "queue q = front @ ns" for front ns
    using that
  proof (induction ns arbitrary: front)
    case Nil
    then show ?case using assms(1) by (subst queue_walk.simps) simp
  next
    case (Cons n ns)
    have i: "length front < length (queue q)" "queue q ! length front = n" "(Suc (length front) = length (queue q)) = (ns = [])"
      using Cons.prems by (simp_all add: nth_append)
    have mem: "item n \<in> set (elems q)" using Cons.prems by (simp add: elems_def)
    consider "f (item n) w = None" | "f (item n) w = Some (False, w)" using assms(2) [OF mem] by argo
    then show ?case
    proof cases
      case 1
      then show ?thesis using assms(1) i by (subst queue_walk.simps) simp
    next
      case 2
      have "queue q = (front @ [n]) @ ns" using Cons.prems by simp
      from Cons.IH [OF this] show ?thesis using assms(1) i 2
        by (subst queue_walk.simps) (cases "\<exists>n \<in> set ns. f (item n) w = None"; auto)
    qed
  qed
  from this [of "[]"] show ?thesis using assms(1) by (simp add: queue_enumerate_world_def elems_def)
qed

text \<open>C38: \<open>pitcher_disconnect\<close> returns only when there is nothing to disconnect. Its callback takes the ends of a
  pipe, which are channels, for units: if the two channels are connected, it writes to a unit that is not there;
  if they are not, it returns 0 and changes nothing. (No unit lies at the address of the channel.)\<close>

theorem disconnect_takes_chn_for_unit:
  assumes "check_pair src dst w = Some (Inr (s, d, a))" and "core_pipes a w = Some pq"
    and "\<forall>p \<in> set (elems pq). pipe_at p w \<noteq> None" and "units w d = None"
  shows "pitcher_disconnect env src dst w = (if (s, d) \<in> links pq w then None else Some (0, w))"
proof -
  let ?f = "disconnect_func env (Some (s, d))"
  have f: "?f p w = (if pipe_ends p w = Some (s, d) then None else Some (False, w))" if p: "p \<in> set (elems pq)" for p
  proof -
    obtain pi where pi: "pipe_at p w = Some pi" using assms(3) p by blast
    then have "p \<noteq> 0" by (auto simp: pipe_at_def)
    then show ?thesis using pi assms(4)
      by (simp add: disconnect_func_def pitcher_get_pipe_src_def pitcher_get_pipe_dst_def pipe_ends_def
          pitcher_set_unit_input_def unit_at_def)
  qed
  have "queue_enumerate_world (core_pipes a) (set_core_pipes a) ?f w
      = (if \<exists>p \<in> set (elems pq). ?f p w = None then None else Some w)"
    by (rule walk_readonly [where getq = "core_pipes a", OF assms(2)]) (simp add: f)
  also have "(\<exists>p \<in> set (elems pq). ?f p w = None) \<longleftrightarrow> (s, d) \<in> links pq w"
    using f by (auto simp: links_def split: if_splits)
  finally show ?thesis using assms(1) by (simp add: pitcher_disconnect_def)
qed

theorem disconnect_takes_chn_for_unit_witness:
  "pitcher_disconnect null_cenv 0 1 (demo_cworld 0) = None \<and> pitcher_disconnect null_cenv 1 0 (demo_cworld 0) = Some (0, demo_cworld 0)"
proof -
  let ?w = "demo_cworld 0" and ?pq = "\<lparr>queue = [\<lparr>item = 400\<rparr>], idles = [], idle_num = 0, count = 1\<rparr>"
  have c: "check_pair 0 1 ?w = Some (Inr (200, 300, 100))" "check_pair 1 0 ?w = Some (Inr (300, 200, 100))"
    by (simp_all add: check_pair_def find_chn_def demo_cworld_def chn_at_def demo_chn_def core_at_def)
  have p: "core_pipes 100 ?w = Some ?pq" "\<forall>p \<in> set (elems ?pq). pipe_at p ?w \<noteq> None" "units ?w 300 = None" "units ?w 200 = None"
    by (simp_all add: core_pipes_def core_at_def demo_cworld_def pipe_at_def elems_def)
  show ?thesis
    using disconnect_takes_chn_for_unit [where env = null_cenv, OF c(1) p(1-3)]
      disconnect_takes_chn_for_unit [where env = null_cenv, OF c(2) p(1,2,4)]
    by (simp add: demo_shape(2))
qed

lemma new_pipe_ok:
  assumes "never_null (wmem w)"
  shows "\<exists>p q m. pitcher_new_pipe w = Some (p, (w\<lparr>wmem := m\<rparr>)\<lparr>pipes := (pipes w)(p \<mapsto> \<lparr>psrc = 0, pdst = 0, pqueue = Some q,
      skip = \<lparr>numerator = 0, denominator = 1, idx = 0\<rparr>, notify = 0\<rparr>)\<rparr>) \<and> p = fst (pitcher_calloc (wmem w)) \<and> p \<noteq> 0
    \<and> queue q = [] \<and> never_null m"
proof -
  obtain p m where p: "pitcher_calloc (wmem w) = (p, m)" by force
  have nn: "never_null m" "p \<noteq> 0"
    using assms p never_null_calloc [OF assms] by (auto simp: never_null_def mem_defs)
  obtain p2 m2 where p2: "pitcher_calloc m = (p2, m2)" by force
  have nn2: "never_null m2" "p2 \<noteq> 0"
    using nn p2 never_null_calloc [OF nn(1)] by (auto simp: never_null_def mem_defs)
  obtain q where q: "pitcher_init_queue m = (Some q, m2)" "queue q = []"
    using p2 nn2(2) by (auto simp: pitcher_init_queue_def)
  let ?pi = "\<lparr>psrc = 0, pdst = 0, pqueue = Some q, skip = \<lparr>numerator = 0, denominator = 0, idx = 0\<rparr>, notify = 0\<rparr>"
  have "pitcher_set_pipe_skip p 0 1 (set_pipe p ?pi (w\<lparr>wmem := m2\<rparr>))
      = Some (0, set_pipe p (?pi\<lparr>skip := \<lparr>numerator = 0, denominator = 1, idx = 0\<rparr>\<rparr>) (set_pipe p ?pi (w\<lparr>wmem := m2\<rparr>)))"
    using nn(2) by (simp add: pitcher_set_pipe_skip_def pipe_at_def reduce_skip_def)
  then have "pitcher_new_pipe w = Some (p, (w\<lparr>wmem := m2\<rparr>)\<lparr>pipes := (pipes w)(p \<mapsto> ?pi\<lparr>skip := \<lparr>numerator = 0, denominator = 1, idx = 0\<rparr>\<rparr>)\<rparr>)"
    using p nn(2) q(1) by (simp add: pitcher_new_pipe_def set_pipe_def)
  then show ?thesis using p nn(2) nn2(1) q(2) by auto
qed

text \<open>C23: \<open>pitcher_connect\<close> adds one pipe. When the destination reads from nobody, or from the same source, a new pipe from
  the source to the destination that tells the destination about what arrives is added to the core and becomes
  the input of the destination, and nothing else is connected. It becomes an output of the source if
  the source has a free slot; if all its slots are taken, it does not, and the result is 0 all the
  same. (The allocator does not fail and returns no pipe in use.)\<close>

theorem connect_adds_link:
  assumes "check_pair src dst w = Some (Inr (s, d, a))" and "chn_at s w = Some sc" and "chn_at d w = Some dc"
    and "core_at a w = Some k" and "cpipes k = Some pq" and "queue_wf pq" and "never_null (wmem w)"
    and "fst (pitcher_calloc (wmem w)) \<notin> set (elems pq)"
    and "unit_at (cunit sc) w = Some us" and "unit_at (cunit dc) w = Some ud"
    and "uin ud = 0 \<or> (\<exists>pi. pipe_at (uin ud) w = Some pi \<and> psrc pi = s)" and "fst (pitcher_calloc (wmem w)) \<notin> set (outs us)"
  shows "\<exists>w' pq' p us' pi. pitcher_connect src dst w = Some (0, w') \<and> core_pipes a w' = Some pq' \<and> elems pq' = elems pq @ [p]
    \<and> links pq' w' = insert (s, d) (links pq w) \<and> pitcher_get_unit_source (cunit dc) w' = Some p
    \<and> pipe_at p w' = Some pi \<and> notify pi = PROCESS_CHN_RUN
    \<and> unit_at (cunit sc) w' = Some us' \<and> (if 0 \<in> set (outs us) then p \<in> set (outs us') else outs us' = outs us)"
proof -
  obtain p q m where p: "pitcher_new_pipe w = Some (p, (w\<lparr>wmem := m\<rparr>)\<lparr>pipes := (pipes w)(p \<mapsto> \<lparr>psrc = 0, pdst = 0, pqueue = Some q,
      skip = \<lparr>numerator = 0, denominator = 1, idx = 0\<rparr>, notify = 0\<rparr>)\<rparr>)" "p = fst (pitcher_calloc (wmem w))" "p \<noteq> 0" "never_null m"
    using new_pipe_ok [OF assms(7)] by blast
  let ?pi = "\<lparr>psrc = s, pdst = d, pqueue = Some q, skip = \<lparr>numerator = 0, denominator = 1, idx = 0\<rparr>, notify = PROCESS_CHN_RUN\<rparr>"
  let ?w1 = "set_pipe p ?pi (w\<lparr>wmem := m\<rparr>)"
  let ?w2 = "set_unit (cunit dc) (ud\<lparr>uin := p\<rparr>) ?w1"
  have u: "cunit dc \<noteq> 0" "cunit sc \<noteq> 0" "units w (cunit dc) = Some ud" "units w (cunit sc) = Some us"
    using assms(9,10) by (auto simp: unit_at_def split: if_splits)
  define us2 where "us2 = (if cunit sc = cunit dc then ud\<lparr>uin := p\<rparr> else us)"
  have us2: "unit_at (cunit sc) ?w2 = Some us2" "outs us2 = outs us"
    using u by (auto simp: us2_def unit_at_def)
  define os where "os = (case free_slot (outs us) 0 of Some i \<Rightarrow> (outs us)[i := p] | None \<Rightarrow> outs us)"
  let ?w3 = "set_unit (cunit sc) (us2\<lparr>outs := os\<rparr>) ?w2"
  have os: "if 0 \<in> set (outs us) then p \<in> set os else os = outs us"
    using free_slot_None [of "outs us" 0] free_slot_Some [of "outs us" 0]
    by (cases "free_slot (outs us) 0") (auto simp: os_def set_update_memI)
  have notin: "\<not> List.member (outs us) p" using assms(12) p(2) by simp
  have same: "set_unit (cunit sc) us2 ?w2 = ?w2"
    using us2(1) u(2) by (simp add: set_unit_def unit_at_def fun_upd_idem)
  have add: "\<exists>r. pitcher_add_unit_output (cunit sc) p ?w2 = Some (r, ?w3)"
  proof (cases "free_slot (outs us) 0")
    case None
    then have "us2\<lparr>outs := os\<rparr> = us2" using us2(2) by (simp add: os_def)
    then show ?thesis using None us2 notin same by (simp add: pitcher_add_unit_output_def)
  next
    case (Some i)
    then show ?thesis using us2 notin by (simp add: pitcher_add_unit_output_def os_def)
  qed
  obtain r q' m' where push: "pitcher_queue_push_back (Some pq) p (wmem ?w3) = (r, q', m')" by (rule prod_cases3)
  have wf: "qwf (Some pq)" using assms(6) by (simp add: qwf_def)
  have nn: "never_null (wmem ?w3)" using p(4) by simp
  obtain pq' where pq': "q' = Some pq'" "elems pq' = elems pq @ [p]"
    using qfifo.push_never_null [OF wf nn push] by (auto simp: qdefs split: option.splits)
  let ?w4 = "set_core a (k\<lparr>cpipes := Some pq'\<rparr>) (?w3\<lparr>wmem := m'\<rparr>)"
  have a: "a \<noteq> 0" using assms(4) by (auto simp: core_at_def)
  have core: "core_at a ?w3 = Some k" using assms(4) by (simp add: core_at_def set_unit_def set_pipe_def split: if_splits)
  have other: "(if uin ud = 0 then Some False else map_option (\<lambda>x. x \<noteq> s) (pitcher_get_pipe_src (uin ud) w)) = Some False"
    using assms(11) by (auto simp: pitcher_get_pipe_src_def)
  have "pitcher_connect src dst w = Some (0, ?w4)"
    using assms(1-3,5,10) other p(1,3) add core push pq'(1) u
    by (auto simp: pitcher_connect_def pitcher_get_unit_source_def pitcher_set_pipe_src_def pitcher_set_pipe_dst_def
        pitcher_set_pipe_notify_def pitcher_set_unit_input_def pipe_at_def unit_at_def set_pipe_def)
  moreover have "core_pipes a ?w4 = Some pq'" using a by (simp add: core_pipes_def core_at_def)
  moreover have "pipe_ends r ?w4 = (if r = p then Some (s, d) else pipe_ends r w)" for r
    using p(3) by (simp add: pipe_ends_def pipe_at_def)
  then have "links pq' ?w4 = insert (s, d) (links pq w)"
    using pq'(2) assms(8) p(2) by (auto simp: links_def)
  moreover have "pitcher_get_unit_source (cunit dc) ?w4 = Some p"
    using u us2 by (auto simp: pitcher_get_unit_source_def unit_at_def us2_def)
  moreover have "pipe_at p ?w4 = Some ?pi" using p(3) by (simp add: pipe_at_def)
  moreover have "unit_at (cunit sc) ?w4 = Some (us2\<lparr>outs := os\<rparr>)" using u by (simp add: unit_at_def)
  ultimately show ?thesis using os pq'(2) by fastforce
qed

theorem connect_adds_link_witness:
  "\<exists>w' pq'. pitcher_connect 1 0 (demo_cworld 0) = Some (0, w') \<and> core_pipes 100 w' = Some pq'
     \<and> links pq' w' = {(300, 200), (200, 300)}"
proof -
  let ?w = "demo_cworld 0" and ?pq = "\<lparr>queue = [\<lparr>item = 400\<rparr>], idles = [], idle_num = 0, count = 1\<rparr>"
  let ?k = "\<lparr>cpipes = Some ?pq, cchns = Some \<lparr>queue = [\<lparr>item = 200\<rparr>, \<lparr>item = 300\<rparr>], idles = [], idle_num = 0, count = 2\<rparr>,
     cloop = 9, ctotal_count = 0, enable_count = 0\<rparr>"
  have c: "check_pair 1 0 ?w = Some (Inr (300, 200, 100))" "chn_at 300 ?w = Some (demo_chn 1 301 0)"
    "chn_at 200 ?w = Some (demo_chn 0 201 0)" "core_at 100 ?w = Some ?k" "cpipes ?k = Some ?pq" "queue_wf ?pq"
    "never_null (wmem ?w)" "fst (pitcher_calloc (wmem ?w)) \<notin> set (elems ?pq)"
    "unit_at (cunit (demo_chn 1 301 0)) ?w = Some (demo_cunit 400 [])"
    "unit_at (cunit (demo_chn 0 201 0)) ?w = Some (demo_cunit 0 [400])"
    "uin (demo_cunit 0 [400]) = 0 \<or> (\<exists>pi. pipe_at (uin (demo_cunit 0 [400])) ?w = Some pi \<and> psrc pi = 300)"
    "fst (pitcher_calloc (wmem ?w)) \<notin> set (outs (demo_cunit 400 []))"
    by (simp_all add: check_pair_def find_chn_def demo_cworld_def chn_at_def demo_chn_def core_at_def queue_wf_def elems_def
        unit_at_def demo_cunit_def demo_mem_def mem_defs never_null_def)
  from connect_adds_link [OF c] show ?thesis unfolding demo_shape(2) by blast
qed

end
