(* ===== verification/Parse.thy ===== *)
theory Parse
  imports Queue
begin

text \<open>
  Splitting a file of compressed video into frames (\<open>pitcher/parse.c\<close>, \<open>parse.h\<close>): the list of frames of a parser
  and its cursor, string search, the table of formats, and the search for start codes on which most formats are built.

  Parsers and frames lie on a heap from addresses to records. The list of the frames of a parser is the list of their
  addresses; its head is a member of the parser, at \<open>FRAME_QUEUE_OFFSET\<close>, and taken for a frame it is one
  that is not there. The mapped file is the list of its bytes, and \<open>None\<close> is an access outside of it.
\<close>

section \<open>Parsers and frames\<close>

record pitcher_frame =
  fr_idx :: u32
  fr_size :: u64
  fr_offset :: u32
  fr_flag :: u32

record pitcher_parser =
  filename :: string
  frame_queue :: "u64 list option"
  pformat :: u32
  cur_frame :: u64
  number :: u64
  frame_cnt :: u64
  pvirt :: "u8 list"
  psize :: u64
  poffset :: u64
  pidx :: u32
  pwidth :: u32
  pheight :: u32

record parse_heap =
  pmem :: mem
  frames :: "u64 \<Rightarrow> pitcher_frame option"
  parsers :: "u64 \<Rightarrow> pitcher_parser option"

type_synonym 'e pworld = "'e parse_heap_scheme"

definition FRAME_QUEUE_OFFSET :: u64 where "FRAME_QUEUE_OFFSET = 8"
definition PITCHER_BUFFER_FLAG_LAST :: u32 where "PITCHER_BUFFER_FLAG_LAST = 1"

definition parser_at :: "u64 \<Rightarrow> 'e pworld \<Rightarrow> pitcher_parser option" where
  "parser_at p w = (if p = 0 then None else parsers w p)"

definition set_parser :: "u64 \<Rightarrow> pitcher_parser \<Rightarrow> 'e pworld \<Rightarrow> 'e pworld" where
  "set_parser p pr w = w\<lparr>parsers := (parsers w)(p \<mapsto> pr)\<rparr>"

definition frame_at :: "u64 \<Rightarrow> 'e pworld \<Rightarrow> pitcher_frame option" where
  "frame_at f w = (if f = 0 then None else frames w f)"

definition set_frame :: "u64 \<Rightarrow> pitcher_frame \<Rightarrow> 'e pworld \<Rightarrow> 'e pworld" where
  "set_frame f fr w = w\<lparr>frames := (frames w)(f \<mapsto> fr)\<rparr>"

definition pitcher_new_parser :: "'e pworld \<Rightarrow> u64 \<times> 'e pworld" where
  "pitcher_new_parser w =
     (case pitcher_calloc (pmem w) of (p, m) \<Rightarrow>
        let w = w\<lparr>pmem := m\<rparr> in
        if p = 0 then (0, w)
        else (p, set_parser p \<lparr>filename = [], frame_queue = None, pformat = 0, cur_frame = 0, number = 0, frame_cnt = 0,
                pvirt = [], psize = 0, poffset = 0, pidx = 0, pwidth = 0, pheight = 0\<rparr> w))"

definition pitcher_init_parser :: "u64 \<Rightarrow> 'e pworld \<Rightarrow> 'e pworld option" where
  "pitcher_init_parser p w =
     (if p = 0 then Some w else do { pr \<leftarrow> parser_at p w; Some (set_parser p (pr\<lparr>frame_queue := Some []\<rparr>) w) })"

text \<open>The loop of \<open>pitcher_del_parser\<close>.\<close>

fun free_frames :: "u64 list \<Rightarrow> 'e pworld \<Rightarrow> 'e pworld option" where
  "free_frames [] w = Some w"
| "free_frames (f # fs) w =
     do { _ \<leftarrow> frame_at f w; free_frames fs (w\<lparr>frames := (frames w)(f := None), pmem := pitcher_free (pmem w)\<rparr>) }"

definition pitcher_del_parser :: "u64 \<Rightarrow> 'e pworld \<Rightarrow> 'e pworld option" where
  "pitcher_del_parser p w =
     (if p = 0 then Some w
      else do {
        pr \<leftarrow> parser_at p w;
        q \<leftarrow> frame_queue pr;
        w \<leftarrow> free_frames q w;
        Some (w\<lparr>parsers := (parsers w)(p := None), pmem := pitcher_free (pmem w)\<rparr>)
      })"

definition pitcher_parser_push :: "u64 \<Rightarrow> u64 \<Rightarrow> 'e pworld \<Rightarrow> 'e pworld option" where
  "pitcher_parser_push p f w =
     (if p = 0 \<or> f = 0 then Some w
      else do {
        pr \<leftarrow> parser_at p w;
        q \<leftarrow> frame_queue pr;
        _ \<leftarrow> frame_at f w;
        Some (set_parser p (pr\<lparr>frame_queue := Some (q @ [f]), frame_cnt := frame_cnt pr + 1\<rparr>) w)
      })"

text \<open>\<open>list_first_entry\<close>, \<open>list_last_entry\<close> and the neighbours of an entry.\<close>

definition pitcher_parser_first_frame :: "u64 \<Rightarrow> 'e pworld \<Rightarrow> u64 option" where
  "pitcher_parser_first_frame p w =
     do { pr \<leftarrow> parser_at p w; q \<leftarrow> frame_queue pr; Some (case q of [] \<Rightarrow> 0 | f # _ \<Rightarrow> f) }"

definition pitcher_parser_last_frame :: "u64 \<Rightarrow> 'e pworld \<Rightarrow> u64 option" where
  "pitcher_parser_last_frame p w =
     do { pr \<leftarrow> parser_at p w; q \<leftarrow> frame_queue pr; Some (if q = [] then p + FRAME_QUEUE_OFFSET else last q) }"

fun list_next :: "u64 \<Rightarrow> u64 list \<Rightarrow> u64 \<Rightarrow> u64 option" where
  "list_next head [] x = None"
| "list_next head (f # fs) x = (if f = x then Some (case fs of [] \<Rightarrow> head | g # _ \<Rightarrow> g) else list_next head fs x)"

definition list_prev :: "u64 \<Rightarrow> u64 list \<Rightarrow> u64 \<Rightarrow> u64 option" where
  "list_prev head fs x = list_next head (rev fs) x"

definition pitcher_parser_cur_frame :: "u64 \<Rightarrow> 'e pworld \<Rightarrow> (u64 \<times> 'e pworld) option" where
  "pitcher_parser_cur_frame p w =
     do {
       pr \<leftarrow> parser_at p w;
       is_last \<leftarrow> (if cur_frame pr = 0 then Some False
                   else do { l \<leftarrow> pitcher_parser_last_frame p w; Some (cur_frame pr = l) });
       if is_last
       then do {
         fr \<leftarrow> frame_at (cur_frame pr) w;
         Some (cur_frame pr, set_frame (cur_frame pr) (fr\<lparr>fr_flag := PITCHER_BUFFER_FLAG_LAST\<rparr>) w)
       }
       else Some (cur_frame pr, w)
     }"

definition pitcher_parser_seek_to_begin :: "u64 \<Rightarrow> 'e pworld \<Rightarrow> 'e pworld option" where
  "pitcher_parser_seek_to_begin p w =
     do { f \<leftarrow> pitcher_parser_first_frame p w; pr \<leftarrow> parser_at p w; Some (set_parser p (pr\<lparr>cur_frame := f\<rparr>) w) }"

definition pitcher_parser_to_next_frame :: "u64 \<Rightarrow> 'e pworld \<Rightarrow> 'e pworld option" where
  "pitcher_parser_to_next_frame p w =
     do {
       pr \<leftarrow> parser_at p w;
       if cur_frame pr = 0 then Some w
       else do {
         l \<leftarrow> pitcher_parser_last_frame p w;
         if cur_frame pr = l then Some (set_parser p (pr\<lparr>cur_frame := 0\<rparr>) w)
         else do {
           q \<leftarrow> frame_queue pr;
           f \<leftarrow> list_next (p + FRAME_QUEUE_OFFSET) q (cur_frame pr);
           Some (set_parser p (pr\<lparr>cur_frame := f\<rparr>) w)
         }
       }
     }"

definition pitcher_parser_to_prev_frame :: "u64 \<Rightarrow> 'e pworld \<Rightarrow> 'e pworld option" where
  "pitcher_parser_to_prev_frame p w =
     do {
       pr \<leftarrow> parser_at p w;
       q \<leftarrow> frame_queue pr;
       f \<leftarrow> list_prev (p + FRAME_QUEUE_OFFSET) q (cur_frame pr);
       Some (set_parser p (pr\<lparr>cur_frame := f\<rparr>) w)
     }"

text \<open>\<open>pitcher_parser_show\<close> prints eight bytes of each frame; the result here is the size it adds up.\<close>

fun show_frames :: "u8 list \<Rightarrow> u64 list \<Rightarrow> 'e pworld \<Rightarrow> u32 \<Rightarrow> u32 option" where
  "show_frames data [] w sz = Some sz"
| "show_frames data (f # fs) w sz =
     do {
       fr \<leftarrow> frame_at f w;
       if unat (fr_offset fr) + 7 < length data then show_frames data fs w (sz + ucast (fr_size fr)) else None
     }"

definition pitcher_parser_show :: "u64 \<Rightarrow> 'e pworld \<Rightarrow> u32 option" where
  "pitcher_parser_show p w =
     (if p = 0 then Some 0
      else do { pr \<leftarrow> parser_at p w; q \<leftarrow> frame_queue pr; show_frames (pvirt pr) q w 0 })"

definition pitcher_parser_push_new_frame :: "u64 \<Rightarrow> int \<Rightarrow> int \<Rightarrow> int \<Rightarrow> 'e pworld \<Rightarrow> (int \<times> 'e pworld) option" where
  "pitcher_parser_push_new_frame p off sz idx w =
     (case pitcher_calloc (pmem w) of (f, m) \<Rightarrow>
        let w = w\<lparr>pmem := m\<rparr> in
        if f = 0 then Some (err RET_E_INVAL, w)
        else do {
          let fr = \<lparr>fr_idx = of_int idx, fr_size = of_int sz, fr_offset = of_int off, fr_flag = 0\<rparr>;
          w \<leftarrow> pitcher_parser_push p f (set_frame f fr w);
          Some (ret_val RET_OK, w)
        })"


section \<open>Searching for a string\<close>

text \<open>
  \<open>get_kmp_next\<close> and \<open>kmp_search\<close>: the loops, with the table as a list. The indices are 64 bits wide in the code;
  none is larger than the lengths given or smaller than \<open>-1\<close>.
\<close>

definition get_at :: "'a list \<Rightarrow> int \<Rightarrow> 'a option" where
  "get_at xs i = (if 0 \<le> i then nth_opt xs (nat i) else None)"

definition put_at :: "'a list \<Rightarrow> int \<Rightarrow> 'a \<Rightarrow> 'a list option" where
  "put_at xs i x = (if 0 \<le> i \<and> nat i < length xs then Some (xs[nat i := x]) else None)"

lemma get_at_int [simp]: "get_at xs (int i) = nth_opt xs i" "get_at xs (int i + 1) = nth_opt xs (Suc i)"
  by (simp_all add: get_at_def nat_add_distrib)

lemma put_at_Suc [simp]: "put_at xs (int i + 1) x = (if Suc i < length xs then Some (xs[Suc i := x]) else None)"
  by (simp add: put_at_def nat_add_distrib)

partial_function (option) kmp_next_loop :: "u8 list \<Rightarrow> int \<Rightarrow> int \<Rightarrow> int \<Rightarrow> int list \<Rightarrow> int list option" where
  "kmp_next_loop p sz k j nxt =
     (if j < sz - 1
      then do {
        advance \<leftarrow> (if k = -1 then Some True else do { a \<leftarrow> get_at p j; b \<leftarrow> get_at p k; Some (a = b) });
        if advance
        then do { nxt \<leftarrow> put_at nxt (j + 1) (k + 1); kmp_next_loop p sz (k + 1) (j + 1) nxt }
        else do { k \<leftarrow> get_at nxt k; kmp_next_loop p sz k j nxt }
      }
      else Some nxt)"

definition get_kmp_next :: "u8 list \<Rightarrow> int list \<Rightarrow> int \<Rightarrow> int list option" where
  "get_kmp_next p nxt sz = do { nxt \<leftarrow> put_at nxt 0 (-1); kmp_next_loop p sz (-1) 0 nxt }"

partial_function (option) kmp_search_loop ::
    "u8 list \<Rightarrow> int \<Rightarrow> u8 list \<Rightarrow> int \<Rightarrow> int list \<Rightarrow> int \<Rightarrow> int \<Rightarrow> int option" where
  "kmp_search_loop s s_len p p_len nxt i j =
     (if i < s_len \<and> j < p_len
      then do {
        advance \<leftarrow> (if j = -1 then Some True else do { a \<leftarrow> get_at s i; b \<leftarrow> get_at p j; Some (a = b) });
        if advance then kmp_search_loop s s_len p p_len nxt (i + 1) (j + 1)
        else do { j \<leftarrow> get_at nxt j; kmp_search_loop s s_len p p_len nxt i j }
      }
      else Some (if j = p_len then i - j else -1))"

definition kmp_search :: "u8 list \<Rightarrow> int \<Rightarrow> u8 list \<Rightarrow> int \<Rightarrow> int list \<Rightarrow> int option" where
  "kmp_search s s_len p p_len nxt = kmp_search_loop s s_len p p_len nxt 0 0"


section \<open>Start codes\<close>

definition PARSER_TYPE_UNKNOWN :: u32 where "PARSER_TYPE_UNKNOWN = 0"
definition PARSER_TYPE_CONFIG :: u32 where "PARSER_TYPE_CONFIG = 1"
definition PARSER_TYPE_FRAME :: u32 where "PARSER_TYPE_FRAME = 2"

lemmas parser_types = PARSER_TYPE_UNKNOWN_def PARSER_TYPE_CONFIG_def PARSER_TYPE_FRAME_def

text \<open>
  The description of a start code. \<open>check_frame\<close> classifies what follows a code: it gets the file, the position behind
  the code, the number of bytes left, as 32 bits, and its private data, and may look at the file.
\<close>

record 's pitcher_parser_scode =
  scode :: u32
  smask :: u32
  num :: u32
  extra_num :: u32
  extra_code :: u32
  extra_mask :: u32
  force_extra_on_first :: u32
  check_frame :: "(u8 list \<Rightarrow> nat \<Rightarrow> u32 \<Rightarrow> 's \<Rightarrow> (u32 \<times> 's) option) option"
  priv_data_size :: u32

text \<open>The local variables of the loop of \<open>pitcher_parse_startcode\<close>; \<open>priv\<close> is what the private data holds.\<close>

record 's scan_state =
  st_state :: u32
  st_start :: int
  st_end :: int
  st_type :: u32
  st_index :: int
  st_frames :: int
  st_force :: u32
  st_priv :: 's

text \<open>The part of an iteration behind a code that has been accepted; the flag says to leave the loop.\<close>

definition scode_accept ::
    "u64 \<Rightarrow> 's pitcher_parser_scode \<Rightarrow> nat \<Rightarrow> 's scan_state \<Rightarrow> 'e pworld \<Rightarrow> (bool \<times> 's scan_state \<times> 'e pworld) option" where
  "scode_accept p sc i st w =
     do {
       let off = (if unat (extra_num sc) \<le> i + 1 \<and> st_state st AND extra_mask sc = extra_code sc
                  then int i + 1 - uint (extra_num sc) else int i + 1 - uint (num sc));
       let st = st\<lparr>st_force := 0\<rparr>;
       let st = (if st_start st < 0 then st\<lparr>st_start := off\<rparr> else st);
       let st = (if 0 < st_frames st \<and> st_end st < 0 then st\<lparr>st_end := off\<rparr> else st);
       let st = (if st_type st = PARSER_TYPE_FRAME then st\<lparr>st_frames := st_frames st + 1\<rparr> else st);
       (st, w) \<leftarrow> (if 1 < st_frames st
                  then do {
                    (_, w) \<leftarrow> pitcher_parser_push_new_frame p (st_start st) (st_end st - st_start st) (st_index st) w;
                    Some (st\<lparr>st_frames := st_frames st - 1, st_index := st_index st + 1,
                             st_start := st_end st, st_end := -1\<rparr>, w)
                  }
                  else Some (st, w));
       pr \<leftarrow> parser_at p w;
       Some (0 < number pr \<and> number pr \<le> frame_cnt pr, st, w)
     }"

definition scode_step ::
    "u64 \<Rightarrow> 's pitcher_parser_scode \<Rightarrow> nat \<Rightarrow> 's scan_state \<Rightarrow> 'e pworld \<Rightarrow> (bool \<times> 's scan_state \<times> 'e pworld) option" where
  "scode_step p sc i st w =
     do {
       pr \<leftarrow> parser_at p w;
       b \<leftarrow> nth_opt (pvirt pr) i;
       let st = st\<lparr>st_state := push_bit 8 (st_state st) OR ucast b\<rparr>;
       if st_force st \<noteq> 0 \<and> i < unat (extra_num sc - 1) \<or> i < unat (num sc - 1) then Some (False, st, w)
       else if (if st_force st \<noteq> 0 then st_state st AND extra_mask sc \<noteq> extra_code sc
                else st_state st AND smask sc \<noteq> scode sc) then Some (False, st, w)
       else do {
         st \<leftarrow> (case check_frame sc of
                  None \<Rightarrow> Some st
                | Some f \<Rightarrow>
                    do {
                      (t, s) \<leftarrow> f (pvirt pr) (i + 1) (of_nat (unat (psize pr) - i - 1)) (st_priv st);
                      Some (st\<lparr>st_type := t, st_priv := s\<rparr>)
                    });
         if check_frame sc \<noteq> None \<and> st_type st = PARSER_TYPE_UNKNOWN then Some (False, st, w)
         else scode_accept p sc i st w
       }
     }"

text \<open>The loop, with \<open>n\<close> bytes left.\<close>

fun scode_loop ::
    "u64 \<Rightarrow> 's pitcher_parser_scode \<Rightarrow> nat \<Rightarrow> nat \<Rightarrow> 's scan_state \<Rightarrow> 'e pworld \<Rightarrow> (bool \<times> 's scan_state \<times> 'e pworld) option" where
  "scode_loop p sc i 0 st w = Some (False, st, w)"
| "scode_loop p sc i (Suc n) st w =
     do {
       (stop, st, w) \<leftarrow> scode_step p sc i st w;
       if stop then Some (True, st, w) else scode_loop p sc (Suc i) n st w
     }"

text \<open>The check of the description, and what it is completed to.\<close>

definition complete_scode :: "'s pitcher_parser_scode \<Rightarrow> 's pitcher_parser_scode option" where
  "complete_scode sc =
     (if num sc < extra_num sc
      then (if extra_code sc AND smask sc \<noteq> scode sc then None else Some sc)
      else Some (sc\<lparr>extra_num := num sc, extra_code := scode sc, extra_mask := smask sc, force_extra_on_first := 0\<rparr>))"

text \<open>\<open>s\<close> is what the private data holds at first; what it holds at the end is returned as well.\<close>

definition pitcher_parse_startcode ::
    "u64 \<Rightarrow> 's pitcher_parser_scode \<Rightarrow> 's \<Rightarrow> 'e pworld \<Rightarrow> (int \<times> 's \<times> 'e pworld) option" where
  "pitcher_parse_startcode p psc s w =
     (if p = 0 \<or> num psc = 0 then Some (err RET_E_INVAL, s, w)
      else
        (case complete_scode psc of
           None \<Rightarrow> Some (err RET_E_INVAL, s, w)
         | Some sc \<Rightarrow>
             let has_priv = (check_frame sc \<noteq> None \<and> priv_data_size sc \<noteq> 0);
                 (priv, m) = (if has_priv then pitcher_calloc (pmem w) else (0, pmem w));
                 w = w\<lparr>pmem := m\<rparr>
             in if has_priv \<and> priv = 0 then Some (err RET_E_NO_MEMORY, s, w)
                else do {
                  pr \<leftarrow> parser_at p w;
                  (stopped, st, w) \<leftarrow> scode_loop p sc 0 (unat (psize pr))
                    \<lparr>st_state = 0, st_start = -1, st_end = -1, st_type = PARSER_TYPE_FRAME, st_index = 0, st_frames = 0,
                     st_force = force_extra_on_first sc, st_priv = s\<rparr> w;
                  w \<leftarrow> (if \<not> stopped \<and> 0 \<le> st_start st \<and> st_start st < uint (psize pr)
                        then map_option snd (pitcher_parser_push_new_frame p (st_start st)
                               (uint (psize pr) - st_start st) (st_index st) w)
                        else Some w);
                  Some (0, st_priv st, if has_priv then w\<lparr>pmem := pitcher_free (pmem w)\<rparr> else w)
                }))"

end
