(* ===== verification/Kmp.thy ===== *)
theory Kmp
  imports Parse
begin

text \<open>
  The string search of \<open>pitcher/parse.c\<close> against its specification: the table \<open>get_kmp_next\<close> computes holds the longest
  proper borders of the prefixes of the pattern, and \<open>kmp_search\<close> finds the first occurrence. Both loops end.
\<close>

section \<open>The search finds the first occurrence\<close>

text \<open>The first \<open>k\<close> elements of a pattern end its first \<open>j\<close>; the largest such \<open>k\<close>; a table that holds it.\<close>

definition overlap :: "u8 list \<Rightarrow> nat \<Rightarrow> nat \<Rightarrow> bool" where
  "overlap p j k \<longleftrightarrow> k < j \<and> (\<forall>t < k. p ! t = p ! (j - k + t))"

definition max_overlap :: "u8 list \<Rightarrow> nat \<Rightarrow> nat \<Rightarrow> bool" where
  "max_overlap p j k \<longleftrightarrow> overlap p j k \<and> (\<forall>m. overlap p j m \<longrightarrow> m \<le> k)"

definition table_upto :: "u8 list \<Rightarrow> int list \<Rightarrow> nat \<Rightarrow> bool" where
  "table_upto p nxt n \<longleftrightarrow> n < length nxt \<and> nxt ! 0 = -1 \<and> (\<forall>m \<in> {1..n}. \<exists>k. nxt ! m = int k \<and> max_overlap p m k)"

definition occurs_at :: "u8 list \<Rightarrow> u8 list \<Rightarrow> nat \<Rightarrow> bool" where
  "occurs_at p s t \<longleftrightarrow> take (length p) (drop t s) = p"

lemma occurs_at_nth: "occurs_at p s t \<longleftrightarrow> p = [] \<or> t + length p \<le> length s \<and> (\<forall>u < length p. s ! (t + u) = p ! u)"
proof (cases "p = []")
  case False
  have "occurs_at p s t \<longleftrightarrow> length p \<le> length s - t \<and> (\<forall>u < length p. s ! (t + u) = p ! u)"
    unfolding occurs_at_def by (auto simp: list_eq_iff_nth_eq)
  moreover have "length p \<le> length s - t \<longleftrightarrow> t + length p \<le> length s" using False by (cases "p") auto
  ultimately show ?thesis using False by simp
qed (simp add: occurs_at_def)

lemma overlap_0 [simp]: "overlap p j 0 \<longleftrightarrow> 0 < j"
  by (simp add: overlap_def)

lemma overlap_Suc: "overlap p (Suc j) (Suc k) \<longleftrightarrow> overlap p j k \<and> p ! k = p ! j"
  by (auto simp: overlap_def less_Suc_eq)

lemma overlap_nth: "overlap p j k \<Longrightarrow> t < k \<Longrightarrow> p ! (j - k + t) = p ! t"
  by (simp add: overlap_def)

lemma overlap_less: "overlap p j k \<Longrightarrow> k < j"
  by (simp add: overlap_def)

lemma overlapI: "k < j \<Longrightarrow> (\<And>t. t < k \<Longrightarrow> p ! (j - k + t) = p ! t) \<Longrightarrow> overlap p j k"
  by (simp add: overlap_def)

lemma overlap_trans:
  assumes "overlap p j k" and "overlap p j m" and "m < k"
  shows "overlap p k m"
proof (rule overlapI)
  fix t assume t: "t < m"
  have "j - k + (k - m + t) = j - m + t" using assms(3) overlap_less [OF assms(1)] by simp
  then show "p ! (k - m + t) = p ! t"
    using overlap_nth [OF assms(1), of "k - m + t"] overlap_nth [OF assms(2) t] assms(3) t by simp
qed (fact assms(3))

lemma overlap_chain:
  assumes "overlap p j k" and "overlap p k m"
  shows "overlap p j m"
proof (rule overlapI)
  fix t assume t: "t < m"
  have "j - k + (k - m + t) = j - m + t" using overlap_less [OF assms(1)] overlap_less [OF assms(2)] by simp
  then show "p ! (j - m + t) = p ! t"
    using overlap_nth [OF assms(1), of "k - m + t"] overlap_nth [OF assms(2) t] overlap_less [OF assms(2)] t by simp
qed (use overlap_less [OF assms(1)] overlap_less [OF assms(2)] in simp)

lemma table_upto_step:
  assumes "table_upto p nxt j" and "Suc j < length nxt" and "max_overlap p (Suc j) k"
  shows "table_upto p (nxt[Suc j := int k]) (Suc j)"
  using assms by (auto simp: table_upto_def nth_list_update less_Suc_eq_le Suc_le_eq)

lemma kmp_next_loop_ok:
  assumes "table_upto p nxt j" and "j < length p" and "length p \<le> length nxt"
    and "k = -1 \<or> (\<exists>k'. k = int k' \<and> overlap p j k')" and "\<And>m. overlap p (Suc j) m \<Longrightarrow> int m \<le> k + 1"
  shows "\<exists>nxt'. kmp_next_loop p (int (length p)) k (int j) nxt = Some nxt' \<and> table_upto p nxt' (length p - 1)
    \<and> length nxt' = length nxt"
  using assms
proof (induction "2 * (length p - j) + nat (k + 1)" arbitrary: j k nxt rule: less_induct)
  case less
  show ?case
  proof (cases "Suc j < length p")
    case False
    then have "j = length p - 1" using less.prems(2) by simp
    then show ?thesis using less.prems(1,2) by (subst kmp_next_loop.simps) auto
  next
    case True
    consider (advance) k1 where "k + 1 = int k1" "overlap p (Suc j) k1" "k = -1 \<or> (\<exists>k'. k = int k' \<and> k' < length p \<and> p ! j = p ! k')"
      | (fall) k' where "k = int k'" "overlap p j k'" "p ! j \<noteq> p ! k'"
    proof (cases "k = -1")
      case True
      then show ?thesis using advance [of 0] by simp
    next
      case False
      then obtain k' where "k = int k'" "overlap p j k'" using less.prems(4) by blast
      moreover from this have "k' < length p" using overlap_less less.prems(2) by fastforce
      ultimately show ?thesis using advance [of "Suc k'"] fall [of k']
        by (cases "p ! j = p ! k'") (auto simp: overlap_Suc)
    qed
    then show ?thesis
    proof cases
      case advance
      let ?nxt = "nxt[Suc j := int k1]"
      have m: "max_overlap p (Suc j) k1" using advance(1,2) less.prems(5) by (auto simp: max_overlap_def)
      have t: "table_upto p ?nxt (Suc j)" using table_upto_step [OF less.prems(1) _ m] True less.prems(3) by simp
      have b: "int m \<le> k + 1 + 1" if "overlap p (Suc (Suc j)) m" for m
      proof (cases m)
        case (Suc m')
        then show ?thesis using that m advance(1) by (auto simp: overlap_Suc max_overlap_def)
      qed (use advance(1) in simp)
      have "\<exists>nxt'. kmp_next_loop p (int (length p)) (k + 1) (int (Suc j)) ?nxt = Some nxt'
          \<and> table_upto p nxt' (length p - 1) \<and> length nxt' = length ?nxt"
        by (rule less.hyps) (use True less.prems(3) t b advance(1,2) in auto)
      moreover have "kmp_next_loop p (int (length p)) k (int j) nxt
          = kmp_next_loop p (int (length p)) (k + 1) (int j + 1) ?nxt"
        using advance(1,3) True less.prems(3) by (subst kmp_next_loop.simps) auto
      ultimately show ?thesis by (simp add: add.commute)
    next
      case fall
      have len: "k' < length p" using fall(2) less.prems(2) by (simp add: overlap_def)
      obtain k2 where k2: "nxt ! k' = k2" "k2 < k" "k2 = -1 \<or> (\<exists>k''. k2 = int k'' \<and> overlap p j k'')" "- 1 \<le> k2"
        "\<And>m. overlap p (Suc j) m \<Longrightarrow> int m \<le> k2 + 1"
      proof (cases "k' = 0")
        case True
        have "int m \<le> 0" if "overlap p (Suc j) m" for m
          using less.prems(5) [OF that] that fall(1,3) True by (cases m) (auto simp: overlap_Suc)
        then show ?thesis using that [of "-1"] True less.prems(1) fall(1) by (simp add: table_upto_def)
      next
        case False
        then obtain k'' where k'': "nxt ! k' = int k''" "max_overlap p k' k''"
          using less.prems(1) fall(2) by (fastforce simp: table_upto_def overlap_def)
        have o: "overlap p j k''" using overlap_chain [OF fall(2)] k''(2) by (simp add: max_overlap_def)
        have "int m \<le> int k'' + 1" if "overlap p (Suc j) m" for m
        proof (cases m)
          case (Suc m')
          then have m': "overlap p j m'" "p ! m' = p ! j" using that by (simp_all add: overlap_Suc)
          then have "m' < k'" using less.prems(5) [OF that] fall(1,3) Suc by (cases "m' = k'") auto
          then show ?thesis using overlap_trans [OF fall(2) m'(1)] k''(2) Suc by (auto simp: max_overlap_def)
        qed simp
        moreover have "int k'' < k" using k''(2) fall(1) by (simp add: max_overlap_def overlap_def)
        ultimately show ?thesis using that [of "int k''"] k''(1) o by auto
      qed
      have "\<exists>nxt'. kmp_next_loop p (int (length p)) k2 (int j) nxt = Some nxt'
          \<and> table_upto p nxt' (length p - 1) \<and> length nxt' = length nxt"
        by (rule less.hyps) (use less.prems(1-3) k2 fall(1) in auto)
      then show ?thesis
        using fall(1,3) True len k2(1) less.prems(3) by (subst kmp_next_loop.simps) auto
    qed
  qed
qed

lemma get_kmp_next_ok:
  assumes "length p \<le> length nxt" and "nxt \<noteq> []"
  shows "\<exists>nxt'. get_kmp_next p nxt (int (length p)) = Some nxt' \<and> (p \<noteq> [] \<longrightarrow> table_upto p nxt' (length p - 1))"
proof (cases "p = []")
  case True
  then show ?thesis using assms by (simp add: get_kmp_next_def put_at_def kmp_next_loop.simps)
next
  case False
  have t: "table_upto p (nxt[0 := -1]) 0" using assms by (simp add: table_upto_def)
  have "int m \<le> -1 + 1" if "overlap p (Suc 0) m" for m using that by (simp add: overlap_def)
  then show ?thesis
    using kmp_next_loop_ok [OF t, of "-1"] False assms by (auto simp: get_kmp_next_def put_at_def)
qed

lemma kmp_search_loop_ok:
  assumes "p \<noteq> [] \<Longrightarrow> table_upto p nxt (length p - 1)" and "i \<le> length s"
    and "j = -1 \<or> (\<exists>j'. j = int j' \<and> j' \<le> length p \<and> j' \<le> i \<and> (\<forall>u < j'. s ! (i - j' + u) = p ! u))"
    and "\<And>t. occurs_at p s t \<Longrightarrow> int i - j \<le> int t" and "p = [] \<Longrightarrow> j = 0"
  shows "kmp_search_loop s (int (length s)) p (int (length p)) nxt (int i) j
    = Some (if \<exists>t. occurs_at p s t then int (LEAST t. occurs_at p s t) else -1)"
  using assms
proof (induction "2 * (length s - i) + nat (j + 1)" arbitrary: i j rule: less_induct)
  case less
  show ?case
  proof (cases "i < length s \<and> j < int (length p)")
    case False
    show ?thesis
    proof (cases "j = int (length p)")
      case True
      then have "occurs_at p s (i - length p)" "length p \<le> i" using less.prems(2,3) by (auto simp: occurs_at_nth)
      moreover from this have "(LEAST t. occurs_at p s t) = i - length p"
        using less.prems(4) True by (intro Least_equality) fastforce+
      ultimately show ?thesis using True False by (subst kmp_search_loop.simps) (auto simp: of_nat_diff)
    next
      case neq: False
      then have j: "j < int (length p)" "i = length s" using False less.prems(2,3) by auto
      have "\<not> occurs_at p s t" for t
      proof
        assume "occurs_at p s t"
        then show False using less.prems(4) [of t] less.prems(5) j by (auto simp: occurs_at_nth)
      qed
      then show ?thesis using neq j by (subst kmp_search_loop.simps) auto
    qed
  next
    case True
    then have p: "p \<noteq> []" using less.prems(3,5) by auto
    consider (advance) "j = -1 \<or> (\<exists>j'. j = int j' \<and> s ! i = p ! j')" | (fall) j' where "j = int j'" "s ! i \<noteq> p ! j'"
      using less.prems(3) by auto
    then show ?thesis
    proof cases
      case advance
      have st: "\<exists>j'. j + 1 = int j' \<and> j' \<le> length p \<and> j' \<le> Suc i \<and> (\<forall>u < j'. s ! (Suc i - j' + u) = p ! u)"
      proof (cases "j = -1")
        case False
        then obtain j' where j': "j = int j'" "s ! i = p ! j'" "j' \<le> i" "\<forall>u < j'. s ! (i - j' + u) = p ! u"
          using advance less.prems(3) by auto
        then show ?thesis using True by (intro exI [of _ "Suc j'"]) (auto simp: less_Suc_eq)
      qed simp
      have "kmp_search_loop s (int (length s)) p (int (length p)) nxt (int (Suc i)) (j + 1)
          = Some (if \<exists>t. occurs_at p s t then int (LEAST t. occurs_at p s t) else -1)"
      proof (rule less.hyps)
        show "2 * (length s - Suc i) + nat (j + 1 + 1) < 2 * (length s - i) + nat (j + 1)"
          using True less.prems(3) by auto
        show "\<And>t. occurs_at p s t \<Longrightarrow> int (Suc i) - (j + 1) \<le> int t" using less.prems(4) by simp
      qed (use less.prems(1) True st p in auto)
      then show ?thesis using advance True by (subst kmp_search_loop.simps) (auto simp: add.commute)
    next
      case fall
      then have j': "j' < length p" "j' \<le> i" "\<forall>u < j'. s ! (i - j' + u) = p ! u" using less.prems(3) True by auto
      obtain j2 where j2: "nxt ! j' = j2" "- 1 \<le> j2" "j2 < j" "j2 = -1 \<or> (\<exists>j''. j2 = int j'' \<and> overlap p j' j'')"
        "\<And>m. overlap p j' m \<Longrightarrow> int m \<le> j2" "j' < length nxt"
      proof (cases "j' = 0")
        case True
        then show ?thesis
          using that [of "-1"] less.prems(1) [OF p] fall(1) by (cases nxt) (auto simp: table_upto_def overlap_def)
      next
        case False
        moreover have "j' \<in> {1..length p - 1}" using False j'(1) by auto
        ultimately obtain k where "nxt ! j' = int k" "max_overlap p j' k" "j' < length nxt"
          using less.prems(1) [OF p] unfolding table_upto_def by fastforce
        then show ?thesis using that [of "int k"] fall(1) by (auto simp: max_overlap_def overlap_def)
      qed
      have first: "int i - j2 \<le> int t" if t: "occurs_at p s t" for t
      proof (rule ccontr)
        assume "\<not> int i - j2 \<le> int t"
        then have late: "int t < int i - j2" "i - j' \<le> t" using less.prems(4) [OF t] fall(1) by auto
        have o: "s ! (t + u) = p ! u" if "u < length p" for u using t p that by (simp add: occurs_at_nth)
        have "t \<noteq> i - j'" using o [of j'] j' fall(2) by auto
        moreover have "t \<le> i" using late j2(2) by simp
        ultimately have tm: "i - t < j'" "t \<le> i" using late(2) by auto
        have "overlap p j' (i - t)"
          unfolding overlap_def
        proof (intro conjI allI impI)
          fix u assume u: "u < i - t"
          then have "s ! (t + u) = p ! (j' - (i - t) + u)"
            using j'(2,3) tm by (auto dest: spec [of _ "j' - (i - t) + u"])
          then show "p ! u = p ! (j' - (i - t) + u)" using o [of u] u tm j'(1) by simp
        qed (use tm in simp)
        then show False using j2(5) late(1) tm(2) by fastforce
      qed
      have st: "j2 = -1 \<or> (\<exists>j''. j2 = int j'' \<and> j'' \<le> length p \<and> j'' \<le> i \<and> (\<forall>u < j''. s ! (i - j'' + u) = p ! u))"
      proof (cases "j2 = -1")
        case False
        then obtain k where k: "j2 = int k" "k < j'" "\<forall>u < k. p ! u = p ! (j' - k + u)" using j2(4) by (auto simp: overlap_def)
        have "s ! (i - k + u) = p ! u" if "u < k" for u
          using spec [OF j'(3), of "j' - k + u"] k that j'(2) by simp
        then show ?thesis using k j' by auto
      qed simp
      have "kmp_search_loop s (int (length s)) p (int (length p)) nxt (int i) j2
          = Some (if \<exists>t. occurs_at p s t then int (LEAST t. occurs_at p s t) else -1)"
        by (rule less.hyps) (use less.prems(1,2) j2(2,3) fall(1) st first p in auto)
      then show ?thesis using fall True j' j2(1,6) by (subst kmp_search_loop.simps) auto
    qed
  qed
qed

text \<open>C24: For a pattern that fits into the table, \<open>get_kmp_next\<close> returns without leaving the table, and \<open>kmp_search\<close> with
  the table it leaves returns on every text: the least position at which the pattern occurs, or -1 when there is none.\<close>

theorem kmp_search_correct:
  assumes "length p \<le> length nxt" and "nxt \<noteq> []"
  shows "\<exists>t. get_kmp_next p nxt (int (length p)) = Some t
    \<and> kmp_search s (int (length s)) p (int (length p)) t
        = Some (if \<exists>i. take (length p) (drop i s) = p then int (LEAST i. take (length p) (drop i s) = p) else -1)"
proof -
  obtain t where t: "get_kmp_next p nxt (int (length p)) = Some t" "p \<noteq> [] \<longrightarrow> table_upto p t (length p - 1)"
    using get_kmp_next_ok [OF assms] by blast
  have "kmp_search s (int (length s)) p (int (length p)) t
      = Some (if \<exists>t. occurs_at p s t then int (LEAST t. occurs_at p s t) else -1)"
    using kmp_search_loop_ok [of p t 0 s 0] t(2) by (simp add: kmp_search_def)
  then show ?thesis using t(1) by (simp add: occurs_at_def [abs_def])
qed

theorem kmp_search_correct_witness:
  "length [1, 2, 1 :: u8] \<le> length [0, 0, 0 :: int] \<and> [0, 0, 0 :: int] \<noteq> []
   \<and> (\<exists>t. get_kmp_next [1, 2, 1] [0, 0, 0] (int (length [1, 2, 1 :: u8])) = Some t
     \<and> kmp_search [1, 1, 2, 1] (int (length [1, 1, 2, 1 :: u8])) [1, 2, 1] (int (length [1, 2, 1 :: u8])) t \<noteq> Some (-1))"
proof -
  have l: "length [1, 2, 1 :: u8] \<le> length [0, 0, 0 :: int]" "[0, 0, 0 :: int] \<noteq> []" by simp_all
  have "take (length [1, 2, 1 :: u8]) (drop 1 [1, 1, 2, 1]) = [1, 2, 1 :: u8]" by simp
  then have "\<exists>i. take (length [1, 2, 1 :: u8]) (drop i [1, 1, 2, 1]) = [1, 2, 1 :: u8]" by blast
  then show ?thesis using kmp_search_correct [OF l, of "[1, 1, 2, 1]"] l by auto
qed

end
