(* ===== verification/Startcode.thy ===== *)
theory Startcode
  imports Parse
begin

text \<open>
  Splitting by start codes (\<open>pitcher_parse_startcode\<close>) against an abstract specification: \<open>scan_codes\<close> lists the codes
  that are accepted, \<open>file_units\<close> groups them into frames with the headers in front of them, and \<open>listed\<close> says that a
  parser holds these frames. Then playing the frames back, and codes that are recognised independently of each other.
\<close>

section \<open>What the list of a parser holds\<close>

text \<open>The next \<open>n\<close> blocks the allocator hands out are different ones outside of \<open>S\<close>.\<close>

definition alloc_fresh :: "nat \<Rightarrow> u64 set \<Rightarrow> mem \<Rightarrow> bool" where
  "alloc_fresh n S m \<longleftrightarrow> inj_on (calloc_res m) {calloc_n m..<calloc_n m + n}
     \<and> (\<forall>i \<in> {calloc_n m..<calloc_n m + n}. calloc_res m i \<notin> insert 0 S)"

lemma alloc_fresh_calloc:
  assumes "alloc_fresh (Suc n) S m" and "pitcher_calloc m = (a, m')"
  shows "a \<noteq> 0" "a \<notin> S" "alloc_fresh n (insert a S) m'"
proof -
  have m: "a = calloc_res m (calloc_n m)" "calloc_res m' = calloc_res m" "calloc_n m' = Suc (calloc_n m)"
    using assms(2) by (auto simp: mem_defs)
  have i: "{calloc_n m..<calloc_n m + Suc n} = insert (calloc_n m) {Suc (calloc_n m)..<Suc (calloc_n m) + n}" by auto
  show "a \<noteq> 0" "a \<notin> S" using assms(1) m(1) by (auto simp: alloc_fresh_def)
  show "alloc_fresh n (insert a S) m'" using assms(1) unfolding alloc_fresh_def i m
    by (auto simp: image_iff)
qed

lemma alloc_fresh_mono: "alloc_fresh n S m \<Longrightarrow> k \<le> n \<Longrightarrow> alloc_fresh k S m"
  unfolding alloc_fresh_def by (auto intro: inj_on_subset)

lemma alloc_fresh_free [simp]: "alloc_fresh n S (pitcher_free m) = alloc_fresh n S m"
  by (simp add: alloc_fresh_def mem_defs)

text \<open>
  The parser at \<open>p\<close> is \<open>pr\<close> but for its list, which holds the frames \<open>fs\<close>; the next \<open>n\<close> blocks are none of theirs.
\<close>

definition listed :: "u64 \<Rightarrow> pitcher_parser \<Rightarrow> pitcher_frame list \<Rightarrow> nat \<Rightarrow> 'e pworld \<Rightarrow> bool" where
  "listed p pr fs n w \<longleftrightarrow> (\<exists>q. parser_at p w = Some (pr\<lparr>frame_queue := Some q, frame_cnt := of_nat (length fs)\<rparr>)
     \<and> map (\<lambda>f. frame_at f w) q = map Some fs \<and> distinct q \<and> alloc_fresh n (set q) (pmem w))"

lemma listed_mono: "listed p pr fs n w \<Longrightarrow> k \<le> n \<Longrightarrow> listed p pr fs k w"
  unfolding listed_def by (blast intro: alloc_fresh_mono)

lemma listed_parser:
  "listed p pr fs n w \<Longrightarrow> \<exists>q. parser_at p w = Some (pr\<lparr>frame_queue := Some q, frame_cnt := of_nat (length fs)\<rparr>)"
  unfolding listed_def by blast

lemma listed_nonzero: "listed p pr fs n w \<Longrightarrow> p \<noteq> 0"
  by (auto simp: listed_def parser_at_def split: if_splits)

lemma frame_at_set_frame [simp]: "frame_at g (set_frame f fr w) = (if g = f \<and> f \<noteq> 0 then Some fr else frame_at g w)"
  by (simp add: frame_at_def set_frame_def)

lemma parser_at_simps [simp]:
  "parser_at q (set_parser p pr w) = (if q = p \<and> p \<noteq> 0 then Some pr else parser_at q w)"
  "parser_at q (set_frame f fr w) = parser_at q w" "frame_at f (set_parser p pr w) = frame_at f w"
  "parser_at q (w\<lparr>pmem := m\<rparr>) = parser_at q w" "frame_at f (w\<lparr>pmem := m\<rparr>) = frame_at f w"
  "pmem (set_parser p pr w) = pmem w" "pmem (set_frame f fr w) = pmem w"
  by (auto simp: parser_at_def set_parser_def frame_at_def set_frame_def)

lemma listed_pmem:
  "listed p pr fs n (w\<lparr>pmem := pitcher_free (pmem w)\<rparr>) = listed p pr fs n w"
  by (simp add: listed_def)

lemma push_new_frame_listed:
  assumes "listed p pr fs (Suc n) w"
  shows "\<exists>w'. pitcher_parser_push_new_frame p off sz idx w = Some (0, w')
    \<and> listed p pr (fs @ [\<lparr>fr_idx = of_int idx, fr_size = of_int sz, fr_offset = of_int off, fr_flag = 0\<rparr>]) n w'"
proof -
  obtain q where q: "parser_at p w = Some (pr\<lparr>frame_queue := Some q, frame_cnt := of_nat (length fs)\<rparr>)"
    "map (\<lambda>f. frame_at f w) q = map Some fs" "distinct q" "alloc_fresh (Suc n) (set q) (pmem w)"
    using assms by (auto simp: listed_def)
  obtain f m where f: "pitcher_calloc (pmem w) = (f, m)" by force
  note fr = alloc_fresh_calloc [OF q(4) f]
  let ?fr = "\<lparr>fr_idx = of_int idx, fr_size = of_int sz, fr_offset = of_int off, fr_flag = 0\<rparr>"
  let ?pr = "pr\<lparr>frame_queue := Some (q @ [f]), frame_cnt := of_nat (length fs) + 1\<rparr>"
  let ?w = "set_parser p ?pr (set_frame f ?fr (w\<lparr>pmem := m\<rparr>))"
  have p: "p \<noteq> 0" using q(1) by (auto simp: parser_at_def)
  have "pitcher_parser_push_new_frame p off sz idx w = Some (0, ?w)"
    using f fr(1) p q(1) by (simp add: pitcher_parser_push_new_frame_def pitcher_parser_push_def Let_def)
  moreover have "map (\<lambda>g. frame_at g ?w) q = map (\<lambda>f. frame_at f w) q" using fr(2) by (intro map_cong) auto
  then have "listed p pr (fs @ [?fr]) n ?w"
    unfolding listed_def using q(2,3) fr p by (intro exI [of _ "q @ [f]"]) (simp add: add.commute)
  ultimately show ?thesis by blast
qed


section \<open>Units of a file\<close>

text \<open>
  The codes a scan accepts, as offsets with a flag for those that are frames; \<open>i\<close> bytes have been read, \<open>n\<close> are left.
\<close>

fun scan_codes :: "'s pitcher_parser_scode \<Rightarrow> u8 list \<Rightarrow> nat \<Rightarrow> nat \<Rightarrow> u32 \<Rightarrow> u32 \<Rightarrow> 's \<Rightarrow> ((int \<times> bool) list \<times> 's) option" where
  "scan_codes sc data i 0 state force s = Some ([], s)"
| "scan_codes sc data i (Suc n) state force s =
     do {
       b \<leftarrow> nth_opt data i;
       let state = push_bit 8 state OR ucast b;
       if force \<noteq> 0 \<and> i < unat (extra_num sc - 1) \<or> i < unat (num sc - 1)
          \<or> (if force \<noteq> 0 then state AND extra_mask sc \<noteq> extra_code sc else state AND smask sc \<noteq> scode sc)
       then scan_codes sc data (Suc i) n state force s
       else do {
         (t, s) \<leftarrow> (case check_frame sc of None \<Rightarrow> Some (PARSER_TYPE_FRAME, s) | Some f \<Rightarrow> f data (i + 1) (of_nat n) s);
         if t = PARSER_TYPE_UNKNOWN then scan_codes sc data (Suc i) n state force s
         else do {
           (cs, s) \<leftarrow> scan_codes sc data (Suc i) n state 0 s;
           let off = (if unat (extra_num sc) \<le> i + 1 \<and> state AND extra_mask sc = extra_code sc
                      then int i + 1 - uint (extra_num sc) else int i + 1 - uint (num sc));
           Some ((off, t = PARSER_TYPE_FRAME) # cs, s)
         }
       }
     }"

text \<open>A unit is a frame with the headers in front of it: it starts at the first code behind the frame before.\<close>

fun unit_starts :: "int option \<Rightarrow> (int \<times> bool) list \<Rightarrow> int list" where
  "unit_starts hdr [] = []"
| "unit_starts hdr ((off, is_frame) # cs) =
     (let start = (case hdr of None \<Rightarrow> off | Some h \<Rightarrow> h)
      in if is_frame then start # unit_starts None cs else unit_starts (Some start) cs)"

text \<open>The units follow each other up to the end of the file. Headers without a frame make one unit.\<close>

definition file_units :: "(int \<times> bool) list \<Rightarrow> int \<Rightarrow> (int \<times> int) list" where
  "file_units cs z =
     (let us = (if \<exists>c \<in> set cs. snd c then unit_starts None cs else map fst (take 1 cs)) in zip us (tl us @ [z]))"

definition frames_of_units :: "nat \<Rightarrow> (int \<times> int) list \<Rightarrow> pitcher_frame list" where
  "frames_of_units k us = map (\<lambda>(i, (a, b)). \<lparr>fr_idx = of_nat i, fr_size = of_int (b - a), fr_offset = of_int a, fr_flag = 0\<rparr>)
     (enumerate k us)"

lemma frames_of_units_simps [simp]:
  "frames_of_units k [] = []"
  "frames_of_units k ((a, b) # us) =
     \<lparr>fr_idx = of_nat k, fr_size = of_int (b - a), fr_offset = of_int a, fr_flag = 0\<rparr> # frames_of_units (Suc k) us"
  by (simp_all add: frames_of_units_def)

text \<open>Where a scan stands: nothing found yet, headers only, or a frame is open and headers may follow it.\<close>

datatype phase = Before | Headers int | Open int "int option"

fun next_phase :: "phase \<Rightarrow> int \<Rightarrow> bool \<Rightarrow> phase" where
  "next_phase Before off is_frame = (if is_frame then Open off None else Headers off)"
| "next_phase (Headers s) off is_frame = (if is_frame then Open s None else Headers s)"
| "next_phase (Open s e) off is_frame =
     (let e = (case e of None \<Rightarrow> off | Some e \<Rightarrow> e) in if is_frame then Open e None else Open s (Some e))"

fun emitted :: "phase \<Rightarrow> int \<Rightarrow> bool \<Rightarrow> (int \<times> int) list" where
  "emitted (Open s e) off is_frame = (if is_frame then [(s, case e of None \<Rightarrow> off | Some e \<Rightarrow> e)] else [])"
| "emitted _ off is_frame = []"

fun units_from :: "phase \<Rightarrow> (int \<times> bool) list \<Rightarrow> int \<Rightarrow> (int \<times> int) list" where
  "units_from Before cs z = file_units cs z"
| "units_from (Headers s) cs z =
     (let us = (if \<exists>c \<in> set cs. snd c then unit_starts (Some s) cs else [s]) in zip us (tl us @ [z]))"
| "units_from (Open s e) cs z = (let us = unit_starts e cs in zip (s # us) (us @ [z]))"

lemma units_from_Cons: "units_from ph ((off, f) # cs) z = emitted ph off f @ units_from (next_phase ph off f) cs z"
  by (cases ph) (auto simp: file_units_def Let_def split: option.splits)

fun in_phase :: "phase \<Rightarrow> 's scan_state \<Rightarrow> bool" where
  "in_phase Before st \<longleftrightarrow> st_start st = -1 \<and> st_end st = -1 \<and> st_frames st = 0"
| "in_phase (Headers s) st \<longleftrightarrow> st_start st = s \<and> 0 \<le> s \<and> st_end st = -1 \<and> st_frames st = 0"
| "in_phase (Open s e) st \<longleftrightarrow> st_start st = s \<and> 0 \<le> s \<and> st_frames st = 1
     \<and> (case e of None \<Rightarrow> st_end st = -1 | Some e \<Rightarrow> st_end st = e \<and> 0 \<le> e)"


definition limit_hit :: "pitcher_parser \<Rightarrow> nat \<Rightarrow> bool" where
  "limit_hit pr k \<longleftrightarrow> 0 < number pr \<and> number pr \<le> of_nat k"

lemma scode_accept_ok:
  assumes "in_phase ph st" and "listed p pr fs (length (emitted ph off f) + n) w" and "st_index st = int (length fs)"
    and "f \<longleftrightarrow> st_type st = PARSER_TYPE_FRAME" and "0 \<le> off"
    and "off = (if unat (extra_num sc) \<le> i + 1 \<and> st_state st AND extra_mask sc = extra_code sc
                      then int i + 1 - uint (extra_num sc) else int i + 1 - uint (num sc))"
  shows "\<exists>st' w'. scode_accept p sc i st w
      = Some (limit_hit pr (length fs + length (emitted ph off f)), st', w')
    \<and> in_phase (next_phase ph off f) st' \<and> listed p pr (fs @ frames_of_units (length fs) (emitted ph off f)) n w'
    \<and> st_index st' = int (length fs + length (emitted ph off f)) \<and> st_state st' = st_state st
    \<and> st_force st' = 0 \<and> st_priv st' = st_priv st \<and> st_type st' = st_type st"
proof (cases "emitted ph off f")
  case Nil
  obtain q where q: "parser_at p w = Some (pr\<lparr>frame_queue := Some q, frame_cnt := of_nat (length fs)\<rparr>)"
    using listed_parser [OF assms(2)] by blast
  show ?thesis
    unfolding scode_accept_def assms(6) [symmetric] Let_def limit_hit_def
    using assms(1-5) q Nil by (cases ph) (auto simp: parser_types split: option.splits if_splits)
next
  case (Cons u us)
  then obtain s e where ph: "ph = Open s e" "f" "u = (s, case e of None \<Rightarrow> off | Some e \<Rightarrow> e)" "us = []"
    by (cases ph) (auto split: if_splits)
  let ?e = "case e of None \<Rightarrow> off | Some e \<Rightarrow> e"
  have l: "listed p pr fs (Suc n) w" using assms(2) ph by simp
  obtain w' where w': "pitcher_parser_push_new_frame p s (?e - s) (int (length fs)) w = Some (0, w')"
    "listed p pr (fs @ frames_of_units (length fs) [(s, ?e)]) n w'"
    using push_new_frame_listed [OF l, of s "?e - s" "int (length fs)"] by auto
  obtain q where q: "parser_at p w' = Some (pr\<lparr>frame_queue := Some q, frame_cnt := of_nat (Suc (length fs))\<rparr>)"
    using listed_parser [OF w'(2)] by auto
  show ?thesis
    unfolding scode_accept_def assms(6) [symmetric] Let_def limit_hit_def
    using assms(1,3-5) ph w' q by (cases e) (simp_all add: add.commute)
qed


fun phase_below :: "phase \<Rightarrow> int \<Rightarrow> bool" where
  "phase_below Before z = True"
| "phase_below (Headers s) z = (s < z)"
| "phase_below (Open s e) z = (s < z \<and> (case e of None \<Rightarrow> True | Some e \<Rightarrow> e < z))"

text \<open>The rest of \<open>pitcher_parse_startcode\<close> once \<open>i\<close> bytes have been read: the loop and the last unit.\<close>

definition scan_rest ::
    "u64 \<Rightarrow> pitcher_parser \<Rightarrow> 's pitcher_parser_scode \<Rightarrow> nat \<Rightarrow> nat \<Rightarrow> 's scan_state \<Rightarrow> 'e pworld \<Rightarrow> ('s \<times> 'e pworld) option" where
  "scan_rest p pr sc i n st w =
     do {
       (stopped, st, w) \<leftarrow> scode_loop p sc i n st w;
       w \<leftarrow> (if \<not> stopped \<and> 0 \<le> st_start st \<and> st_start st < uint (psize pr)
             then map_option snd (pitcher_parser_push_new_frame p (st_start st)
                    (uint (psize pr) - st_start st) (st_index st) w)
             else Some w);
       Some (st_priv st, w)
     }"

lemma scan_rest_simps:
  "scan_rest p pr sc i 0 st w =
     (if 0 \<le> st_start st \<and> st_start st < uint (psize pr)
      then map_option (\<lambda>(_, w). (st_priv st, w)) (pitcher_parser_push_new_frame p (st_start st)
             (uint (psize pr) - st_start st) (st_index st) w)
      else Some (st_priv st, w))"
  "scan_rest p pr sc i (Suc n) st w =
     do {
       (stop, st, w) \<leftarrow> scode_step p sc i st w;
       if stop then Some (st_priv st, w) else scan_rest p pr sc (Suc i) n st w
     }"
  by (auto simp: scan_rest_def split: option.splits prod.splits bind_split)

lemma scan_rest_end:
  assumes "in_phase ph st" and "phase_below ph (uint (psize pr))" and "st_index st = int (length fs)"
    and "listed p pr fs (length (units_from ph [] (uint (psize pr)))) w"
  shows "\<exists>w'. scan_rest p pr sc i 0 st w = Some (st_priv st, w')
    \<and> listed p pr (fs @ frames_of_units (length fs) (units_from ph [] (uint (psize pr)))) 0 w'"
proof (cases ph)
  case Before
  then show ?thesis using assms by (simp add: scan_rest_simps file_units_def)
next
  case (Headers s)
  then have "listed p pr fs (Suc 0) w" using assms(4) by simp
  then show ?thesis
    using push_new_frame_listed [of p pr fs 0 w s "uint (psize pr) - s" "int (length fs)"] assms(1-3) Headers
    by (auto simp: scan_rest_simps)
next
  case (Open s e)
  then have "listed p pr fs (Suc 0) w" using assms(4) by simp
  then show ?thesis
    using push_new_frame_listed [of p pr fs 0 w s "uint (psize pr) - s" "int (length fs)"] assms(1-3) Open
    by (auto simp: scan_rest_simps)
qed

text \<open>What the limit on the number of frames leaves of the units, when there are \<open>k\<close> frames already.\<close>

definition limited :: "pitcher_parser \<Rightarrow> nat \<Rightarrow> 'a list \<Rightarrow> 'a list" where
  "limited pr k us = (if number pr = 0 then us else take (unat (number pr) - k) us)"

lemma phase_below_next: "phase_below ph z \<Longrightarrow> off < z \<Longrightarrow> phase_below (next_phase ph off f) z"
  by (cases ph) (auto split: option.splits)

lemma code_offset:
  assumes "num sc \<noteq> 0" and "num sc \<le> extra_num sc"
    and "\<not> i < unat (num sc - 1)"
    and "off = (if unat (extra_num sc) \<le> i + 1 \<and> b then int i + 1 - uint (extra_num sc) else int i + 1 - uint (num sc))"
  shows "0 \<le> off" "off < int (Suc i)"
proof -
  define l e where "l = unat (num sc)" and "e = unat (extra_num sc)"
  have "1 \<le> num sc" using assms(1) by (simp add: word_le_nat_alt unat_gt_0 Suc_le_eq)
  then have "unat (num sc - 1) = l - 1" "0 < l" "l \<le> e"
    using assms(1,2) by (simp_all add: unat_sub unat_gt_0 l_def e_def word_le_nat_alt)
  moreover have "off = (if e \<le> i + 1 \<and> b then int i + 1 - int e else int i + 1 - int l)"
    using assms(4) by (simp add: l_def e_def)
  ultimately show "0 \<le> off" "off < int (Suc i)" using assms(3) by auto
qed

lemma in_phase_update [simp]:
  "in_phase ph (st\<lparr>st_state := x\<rparr>) = in_phase ph st" "in_phase ph (st\<lparr>st_type := t\<rparr>) = in_phase ph st"
  "in_phase ph (st\<lparr>st_priv := s\<rparr>) = in_phase ph st"
  by (cases ph; simp split: option.splits)+

lemma scode_step_ok:
  fixes st :: "'s scan_state" and w :: "'e pworld"
  assumes "scan_codes sc (pvirt pr) i (Suc n) (st_state st) (st_force st) (st_priv st) = Some (cs, s')"
    and "in_phase ph st" and "phase_below ph (uint (psize pr))" and "st_index st = int (length fs)"
    and "listed p pr fs (length (units_from ph cs z)) w" and "unat (psize pr) = i + Suc n"
    and "num sc \<noteq> 0" and "num sc \<le> extra_num sc" and "check_frame sc = None \<longrightarrow> st_type st = PARSER_TYPE_FRAME"
    and "\<not> limit_hit pr (length fs)"
  shows "\<exists>stop st' w' us ph' cs'. scode_step p sc i st w = Some (stop, st', w')
    \<and> scan_codes sc (pvirt pr) (Suc i) n (st_state st') (st_force st') (st_priv st') = Some (cs', s')
    \<and> in_phase ph' st' \<and> phase_below ph' (uint (psize pr)) \<and> st_index st' = int (length fs + length us)
    \<and> units_from ph cs z = us @ units_from ph' cs' z
    \<and> listed p pr (fs @ frames_of_units (length fs) us) (length (units_from ph' cs' z)) w'
    \<and> stop = limit_hit pr (length fs + length us) \<and> length us \<le> 1
    \<and> (check_frame sc = None \<longrightarrow> st_type st' = PARSER_TYPE_FRAME)"
proof -
  obtain q where q: "parser_at p w = Some (pr\<lparr>frame_queue := Some q, frame_cnt := of_nat (length fs)\<rparr>)"
    using listed_parser [OF assms(5)] by blast
  obtain b where b: "nth_opt (pvirt pr) i = Some b" using assms(1) by (auto simp: bind_eq_Some_conv)
  let ?state = "push_bit 8 (st_state st) OR ucast b"
  let ?st = "st\<lparr>st_state := ?state\<rparr>"
  let ?skip1 = "st_force st \<noteq> 0 \<and> i < unat (extra_num sc - 1) \<or> i < unat (num sc - 1)"
  let ?skip2 = "if st_force st \<noteq> 0 then ?state AND extra_mask sc \<noteq> extra_code sc else ?state AND smask sc \<noteq> scode sc"
  have left: "of_nat (unat (psize pr) - i - 1) = (of_nat n :: u32)" using assms(6) by simp
  have phs: "in_phase ph ?st" using assms(2) by simp
  show ?thesis
  proof (cases "?skip1 \<or> ?skip2")
    case True
    then have "scode_step p sc i st w = Some (False, ?st, w)"
      using q b by (cases ?skip1) (simp_all add: scode_step_def Let_def)
    moreover have "scan_codes sc (pvirt pr) (Suc i) n ?state (st_force st) (st_priv st) = Some (cs, s')"
      using assms(1) b True by (simp add: Let_def)
    ultimately show ?thesis using phs assms(3,4,5,9,10)
      by (intro exI [of _ False] exI [of _ ?st] exI [of _ w] exI [of _ "[] :: (int \<times> int) list"] exI [of _ ph] exI [of _ cs]) simp
  next
    case False
    let ?check = "case check_frame sc of None \<Rightarrow> Some (PARSER_TYPE_FRAME, st_priv st) | Some f \<Rightarrow> f (pvirt pr) (i + 1) (of_nat n) (st_priv st)"
    obtain t s where ts: "?check = Some (t, s)"
      using assms(1) b False by (cases ?check) (auto simp: Let_def)
    let ?st2 = "?st\<lparr>st_type := t, st_priv := s\<rparr>"
    let ?off = "if unat (extra_num sc) \<le> i + 1 \<and> ?state AND extra_mask sc = extra_code sc
                      then int i + 1 - uint (extra_num sc) else int i + 1 - uint (num sc)"
    have st2: "?st2 = ?st" if "check_frame sc = None" using ts that assms(9) by simp
    have step: "scode_step p sc i st w = (if check_frame sc \<noteq> None \<and> t = PARSER_TYPE_UNKNOWN then Some (False, ?st2, w)
        else scode_accept p sc i ?st2 w)"
    proof (cases "check_frame sc")
      case None
      then show ?thesis using q b False st2 by (cases "st_force st = 0") (simp_all add: scode_step_def Let_def)
    next
      case (Some f)
      then show ?thesis using q b False ts left by (cases "st_force st = 0") (simp_all add: scode_step_def Let_def)
    qed
    have rest: "(if t = PARSER_TYPE_UNKNOWN then scan_codes sc (pvirt pr) (Suc i) n ?state (st_force st) s
        else do {
          (cs, s) \<leftarrow> scan_codes sc (pvirt pr) (Suc i) n ?state 0 s;
          Some ((?off, t = PARSER_TYPE_FRAME) # cs, s)
        }) = Some (cs, s')"
      using assms(1) b False ts
      by (cases "st_force st = 0"; cases "t = PARSER_TYPE_UNKNOWN") (simp_all add: Let_def split del: if_split)
    show ?thesis
    proof (cases "t = PARSER_TYPE_UNKNOWN")
      case True
      then have "check_frame sc \<noteq> None" using ts by (cases "check_frame sc") (auto simp: parser_types)
      moreover have "scan_codes sc (pvirt pr) (Suc i) n ?state (st_force st) s = Some (cs, s')"
        using rest True by simp
      moreover have "in_phase ph ?st2" using assms(2) by simp
      ultimately show ?thesis using step True assms(3,4,5,10)
        by (intro exI [of _ False] exI [of _ ?st2] exI [of _ w] exI [of _ "[] :: (int \<times> int) list"] exI [of _ ph] exI [of _ cs]) auto
    next
      case known: False
      let ?f = "t = PARSER_TYPE_FRAME"
      define off where "off = ?off"
      obtain cs' where cs: "scan_codes sc (pvirt pr) (Suc i) n ?state 0 s = Some (cs', s')" "cs = (off, ?f) # cs'"
        using rest known unfolding off_def [symmetric] by (auto simp: bind_eq_Some_conv)
      have off: "0 \<le> off" "off < int (Suc i)"
        by (rule code_offset [OF assms(7,8) _ off_def]; use False in blast)+
      have u: "units_from ph cs z = emitted ph off ?f @ units_from (next_phase ph off ?f) cs' z"
        unfolding cs(2) by (rule units_from_Cons)
      have l: "listed p pr fs (length (emitted ph off ?f) + length (units_from (next_phase ph off ?f) cs' z)) w"
        using assms(5) unfolding u by simp
      have st2: "in_phase ph ?st2" "st_index ?st2 = int (length fs)" "?f \<longleftrightarrow> st_type ?st2 = PARSER_TYPE_FRAME"
        "off = (if unat (extra_num sc) \<le> i + 1 \<and> st_state ?st2 AND extra_mask sc = extra_code sc
           then int i + 1 - uint (extra_num sc) else int i + 1 - uint (num sc))"
        using assms(2,4) by (simp_all add: off_def)
      obtain st' w' where acc: "scode_accept p sc i ?st2 w
          = Some (limit_hit pr (length fs + length (emitted ph off ?f)), st', w')"
        "in_phase (next_phase ph off ?f) st'"
        "listed p pr (fs @ frames_of_units (length fs) (emitted ph off ?f)) (length (units_from (next_phase ph off ?f) cs' z)) w'"
        "st_index st' = int (length fs + length (emitted ph off ?f))" "st_state st' = st_state ?st2" "st_force st' = 0" "st_priv st' = st_priv ?st2"
        "st_type st' = st_type ?st2"
        using scode_accept_ok [OF st2(1) l st2(2,3) off(1) st2(4)] by (elim exE conjE) (rule that)
      have "uint (psize pr) = int (i + Suc n)" unfolding assms(6) [symmetric] by simp
      then have "phase_below (next_phase ph off ?f) (uint (psize pr))"
        using phase_below_next [OF assms(3)] off(2) by simp
      moreover have "length (emitted ph off ?f) \<le> 1" by (cases ph) simp_all
      moreover have "check_frame sc = None \<longrightarrow> st_type st' = PARSER_TYPE_FRAME" using acc(8) ts by auto
      ultimately show ?thesis using step known acc cs(1) u
        by (intro exI [of _ "limit_hit pr (length fs + length (emitted ph off ?f))"] exI [of _ st'] exI [of _ w']
            exI [of _ "emitted ph off ?f"] exI [of _ "next_phase ph off ?f"] exI [of _ cs']) simp
    qed
  qed
qed


lemma limit_hit_iff: "limit_hit pr k \<longleftrightarrow> number pr \<noteq> 0 \<and> unat (number pr) \<le> k" if "k \<le> unat (number pr) \<or> number pr = 0"
proof (cases "number pr = 0")
  case False
  moreover have "unat (number pr) < 2 ^ LENGTH(64)" by (rule unsigned_less)
  ultimately have "unat (of_nat k :: u64) = k" using that by (simp add: unat_of_nat take_bit_nat_eq_self)
  with False show ?thesis by (simp add: limit_hit_def word_le_nat_alt word_less_nat_alt unat_gt_0)
qed (simp add: limit_hit_def)

lemma frames_of_units_append: "frames_of_units k (us @ vs) = frames_of_units k us @ frames_of_units (k + length us) vs"
  by (simp add: frames_of_units_def enumerate_append_eq)

lemma scan_rest_ok:
  fixes st :: "'s scan_state" and w :: "'e pworld"
  assumes "scan_codes sc (pvirt pr) i n (st_state st) (st_force st) (st_priv st) = Some (cs, s')"
    and "in_phase ph st" and "phase_below ph (uint (psize pr))" and "st_index st = int (length fs)"
    and "listed p pr fs (length (units_from ph cs (uint (psize pr)))) w" and "unat (psize pr) = i + n"
    and "num sc \<noteq> 0" and "num sc \<le> extra_num sc" and "check_frame sc = None \<longrightarrow> st_type st = PARSER_TYPE_FRAME"
    and "number pr = 0 \<or> length fs < unat (number pr)"
  shows "\<exists>s'' w'. scan_rest p pr sc i n st w = Some (s'', w') \<and> (number pr = 0 \<longrightarrow> s'' = s')
    \<and> listed p pr (fs @ frames_of_units (length fs) (limited pr (length fs) (units_from ph cs (uint (psize pr))))) 0 w'"
  using assms
proof (induction n arbitrary: i st w cs ph fs)
  case (0 i st w cs ph fs)
  have cs: "cs = []" "s' = st_priv st" using "0.prems"(1) by simp_all
  have "length (units_from ph [] (uint (psize pr))) \<le> 1" by (cases ph) (simp_all add: file_units_def)
  then have "limited pr (length fs) (units_from ph [] (uint (psize pr))) = units_from ph [] (uint (psize pr))"
    using "0.prems"(10) by (auto simp: limited_def)
  then show ?case
    using scan_rest_end [OF "0.prems"(2-4), of p w sc i] "0.prems"(5) unfolding cs by auto
next
  case (Suc n i st w cs ph fs)
  have nh: "\<not> limit_hit pr (length fs)" using Suc.prems(10) by (subst limit_hit_iff) auto
  from scode_step_ok [OF Suc.prems(1-9) nh]
  obtain stop st' w' us ph' cs' where s: "scode_step p sc i st w = Some (stop, st', w')"
    "scan_codes sc (pvirt pr) (Suc i) n (st_state st') (st_force st') (st_priv st') = Some (cs', s')"
    "in_phase ph' st'" "phase_below ph' (uint (psize pr))" "st_index st' = int (length fs + length us)"
    "units_from ph cs (uint (psize pr)) = us @ units_from ph' cs' (uint (psize pr))"
    "listed p pr (fs @ frames_of_units (length fs) us) (length (units_from ph' cs' (uint (psize pr)))) w'"
    "stop = limit_hit pr (length fs + length us)" "check_frame sc = None \<longrightarrow> st_type st' = PARSER_TYPE_FRAME" "length us \<le> 1"
    by (elim exE conjE) (rule that)
  let ?fs = "fs @ frames_of_units (length fs) us"
  have len: "length ?fs = length fs + length us" by (simp add: frames_of_units_def)
  have k: "length fs + length us \<le> unat (number pr) \<or> number pr = 0" using Suc.prems(10) s(10) by auto
  show ?case
  proof (cases stop)
    case True
    then have n: "number pr \<noteq> 0" "unat (number pr) = length fs + length us" using s(8) k by (auto simp: limit_hit_iff)
    then have "limited pr (length fs) (units_from ph cs (uint (psize pr))) = us" by (simp add: limited_def s(6))
    then show ?thesis using s(1) True n(1) listed_mono [OF s(7), of 0] by (simp add: scan_rest_simps)
  next
    case False
    then have n: "number pr = 0 \<or> length fs + length us < unat (number pr)" using s(8) k by (auto simp: limit_hit_iff)
    obtain s'' w'' where r: "scan_rest p pr sc (Suc i) n st' w' = Some (s'', w'')" "number pr = 0 \<longrightarrow> s'' = s'"
      "listed p pr (?fs @ frames_of_units (length ?fs) (limited pr (length ?fs) (units_from ph' cs' (uint (psize pr))))) 0 w''"
      using Suc.IH [OF s(2-4) _ s(7) _ Suc.prems(7,8) s(9)] s(5) len n Suc.prems(6) by auto
    have "limited pr (length fs) (us @ units_from ph' cs' (uint (psize pr)))
        = us @ limited pr (length fs + length us) (units_from ph' cs' (uint (psize pr)))"
      using n by (auto simp: limited_def diff_diff_left)
    then show ?thesis using s(1) False r len unfolding s(6) by (simp add: scan_rest_simps frames_of_units_append)
  qed
qed


lemma complete_scode_num: "complete_scode psc = Some sc \<Longrightarrow> num sc = num psc \<and> num sc \<le> extra_num sc \<and> check_frame sc = check_frame psc"
  by (auto simp: complete_scode_def split: if_splits)

section \<open>A parser on a file\<close>

definition file_parser :: "u8 list \<Rightarrow> pitcher_parser" where
  "file_parser data = \<lparr>filename = ''video'', frame_queue = Some [], pformat = 51, cur_frame = 0, number = 0, frame_cnt = 0,
     pvirt = data, psize = of_nat (length data), poffset = 0, pidx = 0, pwidth = 0, pheight = 0\<rparr>"

definition file_world :: "u8 list \<Rightarrow> parse_heap" where
  "file_world data = \<lparr>pmem = \<lparr>total_count = 0, calloc_res = (\<lambda>n. of_nat (n + 1)), calloc_n = 0\<rparr>, frames = (\<lambda>_. None),
     parsers = [1 \<mapsto> file_parser data]\<rparr>"

lemma file_world_listed:
  assumes "n < 1000"
  shows "listed 1 (file_parser data) [] n (file_world data)"
proof -
  have u: "unat (of_nat i :: u64) = i" if "i < 1000" for i using that by (simp add: unat_of_nat take_bit_nat_eq_self)
  have "inj_on (\<lambda>i. of_nat (i + 1) :: u64) {0..<n}"
  proof (rule inj_onI)
    fix i j :: nat assume "i \<in> {0..<n}" "j \<in> {0..<n}" and e: "(of_nat (i + 1) :: u64) = of_nat (j + 1)"
    then have "i + 1 < 1000" "j + 1 < 1000" using assms by simp_all
    then show "i = j" using arg_cong [OF e, of unat] u by (metis add_right_cancel)
  qed
  moreover have "(of_nat (i + 1) :: u64) \<noteq> 0" if "i \<in> {0..<n}" for i
  proof
    assume "(of_nat (i + 1) :: u64) = 0"
    then have "unat (of_nat (i + 1) :: u64) = 0" by simp
    then show False using u [of "i + 1"] that assms by simp
  qed
  ultimately have "alloc_fresh n {} (pmem (file_world data))"
    by (auto simp: alloc_fresh_def file_world_def simp del: of_nat_add of_nat_Suc)
  then show ?thesis by (simp add: listed_def parser_at_def file_world_def file_parser_def)
qed

definition demo_scode :: "unit pitcher_parser_scode" where
  "demo_scode = \<lparr>scode = 0xFFD8, smask = 0xFFFF, num = 2, extra_num = 0, extra_code = 0, extra_mask = 0,
     force_extra_on_first = 0, check_frame = None, priv_data_size = 0\<rparr>"


section \<open>The parser lists the units\<close>

lemma scan_splits:
  assumes "num psc \<noteq> 0" and "complete_scode psc = Some sc"
    and "scan_codes sc (pvirt pr) 0 (unat (psize pr)) 0 (force_extra_on_first sc) s = Some (cs, s')"
    and "listed p pr [] (Suc (length (file_units cs (uint (psize pr))))) w"
  shows "\<exists>s'' w'. pitcher_parse_startcode p psc s w = Some (0, s'', w') \<and> (number pr = 0 \<longrightarrow> s'' = s')
    \<and> listed p pr (frames_of_units 0 (limited pr 0 (file_units cs (uint (psize pr))))) 0 w'"
proof -
  let ?us = "file_units cs (uint (psize pr))"
  let ?st = "\<lparr>st_state = 0, st_start = -1, st_end = -1, st_type = PARSER_TYPE_FRAME, st_index = 0, st_frames = 0,
                     st_force = force_extra_on_first sc, st_priv = s\<rparr>"
  have c: "num sc \<noteq> 0" "num sc \<le> extra_num sc" using complete_scode_num [OF assms(2)] assms(1) by auto
  have rest: "\<exists>s'' w'. scan_rest p pr sc 0 (unat (psize pr)) ?st w = Some (s'', w') \<and> (number pr = 0 \<longrightarrow> s'' = s')
      \<and> listed p pr (frames_of_units 0 (limited pr 0 ?us)) 0 w'" if "listed p pr [] (length ?us) w" for w :: "'b pworld"
    using scan_rest_ok [of sc pr 0 "unat (psize pr)" ?st cs s' Before "[]" p w] assms(3) c that by (simp add: unat_gt_0)
  let ?has = "check_frame sc \<noteq> None \<and> priv_data_size sc \<noteq> 0"
  obtain a m where a: "(if ?has then pitcher_calloc (pmem w) else (0, pmem w)) = (a, m)" by force
  obtain q where q: "parser_at p w = Some (pr\<lparr>frame_queue := Some [], frame_cnt := 0\<rparr>)" "alloc_fresh (Suc (length ?us)) {} (pmem w)"
    using assms(4) by (auto simp: listed_def)
  have fresh: "alloc_fresh (length ?us) {} m" "?has \<Longrightarrow> a \<noteq> 0"
  proof -
    show "?has \<Longrightarrow> a \<noteq> 0" using a alloc_fresh_calloc(1) [OF q(2)] by simp
    show "alloc_fresh (length ?us) {} m"
    proof (cases ?has)
      case True
      then have "alloc_fresh (length ?us) (insert a {}) m" using a alloc_fresh_calloc(3) [OF q(2)] by simp
      then show ?thesis by (simp add: alloc_fresh_def)
    qed (use a alloc_fresh_mono [OF q(2)] in auto)
  qed
  have l: "listed p pr [] (length ?us) (w\<lparr>pmem := m\<rparr>)" using q(1) fresh(1) by (simp add: listed_def)
  obtain s'' w' where r: "scan_rest p pr sc 0 (unat (psize pr)) ?st (w\<lparr>pmem := m\<rparr>) = Some (s'', w')" "number pr = 0 \<longrightarrow> s'' = s'"
      "listed p pr (frames_of_units 0 (limited pr 0 ?us)) 0 w'" using rest [OF l] by blast
  obtain stopped st2 w2 where l2: "scode_loop p sc 0 (unat (psize pr)) ?st (w\<lparr>pmem := m\<rparr>) = Some (stopped, st2, w2)"
    "(if \<not> stopped \<and> 0 \<le> st_start st2 \<and> st_start st2 < uint (psize pr)
      then map_option snd (pitcher_parser_push_new_frame p (st_start st2) (uint (psize pr) - st_start st2) (st_index st2) w2)
      else Some w2) = Some w'" "s'' = st_priv st2"
    using r(1) by (auto simp: scan_rest_def bind_eq_Some_conv)
  have "pitcher_parse_startcode p psc s w = Some (0, s'', if ?has then w'\<lparr>pmem := pitcher_free (pmem w')\<rparr> else w')"
  proof (cases ?has)
    case True
    then show ?thesis using assms(1,2) listed_nonzero [OF assms(4)] a fresh(2) q(1) l2
      by (simp add: pitcher_parse_startcode_def Let_def split del: if_split cong: if_cong)
  next
    case False
    then show ?thesis using assms(1,2) listed_nonzero [OF assms(4)] a q(1) l2
      by (simp add: pitcher_parse_startcode_def Let_def split del: if_split cong: if_cong) auto
  qed
  then show ?thesis using r(2,3) listed_pmem [of p pr _ 0 w'] by auto
qed

text \<open>C15: \<open>pitcher_parse_startcode\<close> splits a file into units. Let the codes the scan accepts be \<open>cs\<close>. Then it returns 0
  and the parser lists one frame for each unit, numbered from 0: a unit begins with the first code behind the frame before,
  so the headers in front of a frame belong to it, and ends where the next one begins, the last at the end of the file. When
  the parser limits the number of frames, those up to the limit are listed.\<close>

theorem startcode_splits:
  assumes "num psc \<noteq> 0" and "complete_scode psc = Some sc"
    and "scan_codes sc (pvirt pr) 0 (unat (psize pr)) 0 (force_extra_on_first sc) s = Some (cs, s')"
    and "listed p pr [] (Suc (length (file_units cs (uint (psize pr))))) w"
  shows "\<exists>s'' w'. pitcher_parse_startcode p psc s w = Some (0, s'', w') \<and> (number pr = 0 \<longrightarrow> s'' = s')
    \<and> listed p pr (frames_of_units 0 (limited pr 0 (file_units cs (uint (psize pr))))) 0 w'"
  using assms by (rule scan_splits)

theorem startcode_splits_witness:
  "\<exists>s w. pitcher_parse_startcode 1 demo_scode () (file_world [0xFF, 0xD8, 7, 0xFF, 0xD8]) = Some (0, s, w)
     \<and> listed 1 (file_parser [0xFF, 0xD8, 7, 0xFF, 0xD8]) (frames_of_units 0 [(0, 3), (3, 5)]) 0 w"
proof -
  let ?data = "[0xFF, 0xD8, 7, 0xFF, 0xD8] :: u8 list"
  let ?sc = "\<lparr>scode = 0xFFD8, smask = 0xFFFF, num = 2, extra_num = 2, extra_code = 0xFFD8, extra_mask = 0xFFFF,
     force_extra_on_first = 0, check_frame = None, priv_data_size = 0\<rparr> :: unit pitcher_parser_scode"
  have c: "num demo_scode \<noteq> 0" "complete_scode demo_scode = Some ?sc" by (simp_all add: complete_scode_def demo_scode_def)
  have s: "scan_codes ?sc (pvirt (file_parser ?data)) 0 (unat (psize (file_parser ?data))) 0 (force_extra_on_first ?sc) ()
      = Some ([(0, True), (3, True)], ())"
    by (simp add: file_parser_def, code_simp)
  have u: "file_units [(0, True), (3, True)] (uint (psize (file_parser ?data))) = [(0, 3), (3, 5)]"
    by (simp add: file_units_def file_parser_def)
  have l: "listed 1 (file_parser ?data) [] (Suc (length (file_units [(0, True), (3, True)] (uint (psize (file_parser ?data))))))
      (file_world ?data)" unfolding u by (rule file_world_listed) simp
  have n: "limited (file_parser ?data) 0 us = us" for us :: "(int \<times> int) list" by (simp add: limited_def file_parser_def)
  show ?thesis using startcode_splits [OF c s l] unfolding u n by blast
qed


section \<open>Playing the frames\<close>

text \<open>What \<open>parser_run\<close> does with a parser: take the frame at the cursor and advance, until there is none; at most \<open>n\<close> times.\<close>

fun play :: "u64 \<Rightarrow> nat \<Rightarrow> 'e pworld \<Rightarrow> (pitcher_frame list \<times> 'e pworld) option" where
  "play p 0 w = Some ([], w)"
| "play p (Suc n) w =
     do {
       (f, w) \<leftarrow> pitcher_parser_cur_frame p w;
       if f = 0 then Some ([], w)
       else do {
         fr \<leftarrow> frame_at f w;
         w \<leftarrow> pitcher_parser_to_next_frame p w;
         (frs, w) \<leftarrow> play p n w;
         Some (fr # frs, w)
       }
     }"

lemma list_next_split: "distinct (xs @ x # y # ys) \<Longrightarrow> list_next h (xs @ x # y # ys) x = Some y"
  by (induction xs) auto

lemma play_from:
  assumes "parser_at p w = Some pr" and "frame_queue pr = Some (q1 @ q2)" and "distinct (q1 @ q2)"
    and "cur_frame pr = (case q2 of [] \<Rightarrow> 0 | f # _ \<Rightarrow> f)" and "map (\<lambda>f. frame_at f w) q2 = map Some fs"
    and "q2 \<noteq> []"
  shows "\<exists>w'. play p (Suc (length fs)) w
      = Some (butlast fs @ [(last fs)\<lparr>fr_flag := PITCHER_BUFFER_FLAG_LAST\<rparr>], w')"
  using assms
proof (induction q2 arbitrary: w pr q1 fs)
  case (Cons f q2)
  obtain fr frs where fs: "fs = fr # frs" "frame_at f w = Some fr" "map (\<lambda>f. frame_at f w) q2 = map Some frs"
    using Cons.prems(5) by (cases fs) auto
  have f0: "f \<noteq> 0" "p \<noteq> 0" using fs(2) Cons.prems(1) by (auto simp: frame_at_def parser_at_def split: if_splits)
  have last: "pitcher_parser_last_frame p w = Some (last (f # q2))"
    using Cons.prems(1,2) by (simp add: pitcher_parser_last_frame_def)
  show ?case
  proof (cases q2)
    case Nil
    let ?w = "set_frame f (fr\<lparr>fr_flag := PITCHER_BUFFER_FLAG_LAST\<rparr>) w"
    have "pitcher_parser_cur_frame p w = Some (f, ?w)"
      using Cons.prems(1,4) f0 last fs(2) Nil by (simp add: pitcher_parser_cur_frame_def)
    moreover have "pitcher_parser_to_next_frame p ?w = Some (set_parser p (pr\<lparr>cur_frame := 0\<rparr>) ?w)"
      using Cons.prems(1,2,4) f0 Nil by (simp add: pitcher_parser_to_next_frame_def pitcher_parser_last_frame_def)
    moreover have "frs = []" using fs(3) Nil by simp
    ultimately show ?thesis
      using fs(1,2) f0 by (simp add: pitcher_parser_cur_frame_def)
  next
    case (Cons g q3)
    have ne: "f \<noteq> last (g # q3)" using Cons.prems(3) Cons last_in_set [of "g # q3"] by (auto simp del: last.simps)
    let ?w = "set_parser p (pr\<lparr>cur_frame := g\<rparr>) w"
    have "pitcher_parser_cur_frame p w = Some (f, w)"
      using Cons.prems(1,4) f0 last ne Cons by (simp add: pitcher_parser_cur_frame_def)
    moreover have "pitcher_parser_to_next_frame p w = Some ?w"
      using Cons.prems(1-4) f0 last ne Cons list_next_split [of q1 f g q3]
      by (simp add: pitcher_parser_to_next_frame_def)
    moreover have "\<exists>w'. play p (Suc (length frs)) ?w
        = Some (butlast frs @ [(last frs)\<lparr>fr_flag := PITCHER_BUFFER_FLAG_LAST\<rparr>], w')"
      by (rule Cons.IH [where ?q1.0 = "q1 @ [f]" and pr = "pr\<lparr>cur_frame := g\<rparr>"]) (use Cons.prems(2,3) fs(3) f0 Cons in simp_all)
    moreover have "frs \<noteq> []" using fs(3) Cons by auto
    ultimately show ?thesis using fs(1,2) f0 play.simps(2) [of p "Suc (length frs)" w] by (auto simp del: play.simps(2))
  qed
qed simp

text \<open>C28: From a parser that lists frames, seeking to the beginning and then taking the frame at the cursor and advancing
  until there is none delivers all of them, each once, in order, and exactly the last with the flag that marks the end.\<close>

theorem playback_in_order:
  assumes "listed p pr fs k w"
  shows "\<exists>w1 w2. pitcher_parser_seek_to_begin p w = Some w1
    \<and> play p (Suc (length fs)) w1
        = Some (if fs = [] then [] else butlast fs @ [(last fs)\<lparr>fr_flag := PITCHER_BUFFER_FLAG_LAST\<rparr>], w2)"
proof -
  let ?pr = "\<lambda>q. pr\<lparr>frame_queue := Some q, frame_cnt := of_nat (length fs)\<rparr>"
  obtain q where q: "parser_at p w = Some (?pr q)" "map (\<lambda>f. frame_at f w) q = map Some fs" "distinct q"
    using assms by (auto simp: listed_def)
  let ?f = "case q of [] \<Rightarrow> 0 | f # _ \<Rightarrow> f"
  let ?w = "set_parser p ((?pr q)\<lparr>cur_frame := ?f\<rparr>) w"
  have p: "p \<noteq> 0" by (rule listed_nonzero [OF assms])
  have s: "pitcher_parser_seek_to_begin p w = Some ?w"
    using q(1) by (simp add: pitcher_parser_seek_to_begin_def pitcher_parser_first_frame_def)
  have at: "parser_at p ?w = Some ((?pr q)\<lparr>cur_frame := ?f\<rparr>)" using p by simp
  show ?thesis
  proof (cases "q = []")
    case True
    then show ?thesis using q(2) s p by (auto simp: pitcher_parser_cur_frame_def)
  next
    case False
    have "\<exists>w'. play p (Suc (length fs)) ?w = Some (butlast fs @ [(last fs)\<lparr>fr_flag := PITCHER_BUFFER_FLAG_LAST\<rparr>], w')"
      by (rule play_from [where ?q1.0 = "[]" and ?q2.0 = q, OF at]) (use q(2,3) False in simp_all)
    moreover have "fs \<noteq> []" using False q(2) by auto
    ultimately show ?thesis using s by auto
  qed
qed

theorem playback_in_order_witness:
  "\<exists>w w1 w2. pitcher_parser_push_new_frame 1 0 5 0 (file_world [1, 2, 3, 4, 5]) = Some (0, w)
     \<and> pitcher_parser_seek_to_begin 1 w = Some w1
     \<and> play 1 2 w1 = Some ([\<lparr>fr_idx = 0, fr_size = 5, fr_offset = 0, fr_flag = PITCHER_BUFFER_FLAG_LAST\<rparr>], w2)"
proof -
  obtain w where w: "pitcher_parser_push_new_frame 1 0 5 0 (file_world [1, 2, 3, 4, 5]) = Some (0, w)"
    "listed 1 (file_parser [1, 2, 3, 4, 5]) [\<lparr>fr_idx = 0, fr_size = 5, fr_offset = 0, fr_flag = 0\<rparr>] 0 w"
    using push_new_frame_listed [OF file_world_listed [of "Suc 0" "[1, 2, 3, 4, 5]"], of 0 5 0] by auto
  show ?thesis using playback_in_order [OF w(2)] w(1) by (auto simp: numeral_2_eq_2)
qed


section \<open>Codes that are recognised one by one\<close>

text \<open>The shift register after \<open>i\<close> bytes.\<close>

definition shift_reg :: "u8 list \<Rightarrow> nat \<Rightarrow> u32" where
  "shift_reg data i = foldl (\<lambda>s b. push_bit 8 s OR ucast b) 0 (take i data)"

lemma shift_reg_simps:
  "shift_reg data 0 = 0" "i < length data \<Longrightarrow> shift_reg data (Suc i) = push_bit 8 (shift_reg data i) OR ucast (data ! i)"
  by (simp_all add: shift_reg_def take_Suc_conv_app_nth)

text \<open>
  A description without longer codes whose check, if there is one, depends only on the position: \<open>ty\<close> is the type of what
  starts there.
\<close>

definition plain_scode :: "'s pitcher_parser_scode \<Rightarrow> u8 list \<Rightarrow> (nat \<Rightarrow> u32) \<Rightarrow> bool" where
  "plain_scode sc data ty \<longleftrightarrow> extra_num sc = num sc \<and> extra_code sc = scode sc \<and> extra_mask sc = smask sc
     \<and> (case check_frame sc of None \<Rightarrow> ty = (\<lambda>_. PARSER_TYPE_FRAME)
        | Some f \<Rightarrow> \<forall>n off s. off + n = length data \<longrightarrow> f data off (of_nat n) s = Some (ty off, s))"

text \<open>The positions of the last bytes of codes.\<close>

definition code_ends :: "'s pitcher_parser_scode \<Rightarrow> u8 list \<Rightarrow> (nat \<Rightarrow> u32) \<Rightarrow> nat \<Rightarrow> nat \<Rightarrow> nat list" where
  "code_ends sc data ty i j = filter (\<lambda>k. unat (num sc - 1) \<le> k \<and> shift_reg data (Suc k) AND smask sc = scode sc
     \<and> ty (Suc k) \<noteq> PARSER_TYPE_UNKNOWN) [i..<j]"

lemma scan_plain:
  assumes "plain_scode sc data ty" and "i + n = length data"
  shows "scan_codes sc data i n (shift_reg data i) 0 s
    = Some (map (\<lambda>k. (int k + 1 - uint (num sc), ty (Suc k) = PARSER_TYPE_FRAME)) (code_ends sc data ty i (length data)), s)"
  using assms(2)
proof (induction n arbitrary: i)
  case 0
  then show ?case by (simp add: code_ends_def)
next
  case (Suc n)
  then have i: "i < length data" "Suc i + n = length data" by simp_all
  have split: "[i..<length data] = i # [Suc i..<length data]" using i(1) by (rule upt_conv_Cons)
  have check: "(case check_frame sc of None \<Rightarrow> Some (PARSER_TYPE_FRAME, s) | Some f \<Rightarrow> f data (i + 1) (of_nat n) s)
      = Some (ty (Suc i), s)"
    using assms(1) i(2) by (auto simp: plain_scode_def split: option.splits)
  note e = assms(1) [unfolded plain_scode_def, THEN conjunct1]
  show ?case
    using Suc.IH [OF i(2)] check i(1) assms(1)
    by (auto simp: split code_ends_def shift_reg_simps Let_def plain_scode_def not_less)
qed


text \<open>The last two or three bytes in the register.\<close>

lemma bit_mask_u32: "m < 32 \<Longrightarrow> bit (mask m :: u32) n \<longleftrightarrow> n < m"
  by (auto simp: bit_mask_iff)

lemma reg_and_16:
  "(push_bit 8 (push_bit 8 s OR ucast a) OR ucast b) AND 0xFFFF = (push_bit 8 (ucast (a :: u8)) OR ucast (b :: u8) :: u32)"
proof -
  have m: "(0xFFFF :: u32) = mask 16" by (simp add: mask_eq_exp_minus_1)
  show ?thesis unfolding m by (rule bit_word_eqI) (auto simp: bit_simps dest: bit_imp_le_length)
qed

lemma reg_and_24:
  "(push_bit 8 (push_bit 8 (push_bit 8 s OR ucast a) OR ucast b) OR ucast c) AND 0xFFFFFF
     = (push_bit 16 (ucast (a :: u8)) OR push_bit 8 (ucast (b :: u8)) OR ucast (c :: u8) :: u32)"
proof -
  have m: "(0xFFFFFF :: u32) = mask 24" by (simp add: mask_eq_exp_minus_1)
  show ?thesis unfolding m by (rule bit_word_eqI) (auto simp: bit_simps dest: bit_imp_le_length)
qed

lemma two_bytes_inj:
  "push_bit 8 (ucast (a :: u8)) OR ucast (b :: u8) = (push_bit 8 (ucast a') OR ucast b' :: u32) \<longleftrightarrow> a = a' \<and> b = b'"
proof
  assume e: "push_bit 8 (ucast a) OR ucast b = (push_bit 8 (ucast a') OR ucast b' :: u32)"
  have x: "ucast (push_bit 8 (ucast a) OR ucast b :: u32) = b" "ucast (drop_bit 8 (push_bit 8 (ucast a) OR ucast b :: u32)) = a" for a b :: u8
    by (rule bit_word_eqI, auto simp: bit_simps dest: bit_imp_le_length)+
  show "a = a' \<and> b = b'" using arg_cong [OF e, of "ucast :: u32 \<Rightarrow> u8"] arg_cong [OF e, of "\<lambda>x. ucast (drop_bit 8 x) :: u8"] by (simp only: x)
qed simp

lemma three_bytes_inj:
  "push_bit 16 (ucast (a :: u8)) OR push_bit 8 (ucast (b :: u8)) OR ucast (c :: u8)
     = (push_bit 16 (ucast a') OR push_bit 8 (ucast b') OR ucast c' :: u32) \<longleftrightarrow> a = a' \<and> b = b' \<and> c = c'"
proof
  assume e: "push_bit 16 (ucast a) OR push_bit 8 (ucast b) OR ucast c = (push_bit 16 (ucast a') OR push_bit 8 (ucast b') OR ucast c' :: u32)"
  have x: "ucast (push_bit 16 (ucast a) OR push_bit 8 (ucast b) OR ucast c :: u32) = c"
    "ucast (drop_bit 8 (push_bit 16 (ucast a) OR push_bit 8 (ucast b) OR ucast c :: u32)) = b"
    "ucast (drop_bit 16 (push_bit 16 (ucast a) OR push_bit 8 (ucast b) OR ucast c :: u32)) = a" for a b c :: u8
    by (rule bit_word_eqI, auto simp: bit_simps dest: bit_imp_le_length)+
  show "a = a' \<and> b = b' \<and> c = c'"
    using arg_cong [OF e, of "ucast :: u32 \<Rightarrow> u8"] arg_cong [OF e, of "\<lambda>x. ucast (drop_bit 8 x) :: u8"]
      arg_cong [OF e, of "\<lambda>x. ucast (drop_bit 16 x) :: u8"] by (simp only: x)
qed simp

lemma start_code_at:
  assumes "Suc (Suc k) < length data"
  shows "shift_reg data (Suc (Suc (Suc k))) AND 0xFFFFFF = 1
    \<longleftrightarrow> data ! k = 0 \<and> data ! Suc k = 0 \<and> data ! Suc (Suc k) = 1"
proof -
  have "shift_reg data (Suc (Suc (Suc k)))
      = push_bit 8 (push_bit 8 (push_bit 8 (shift_reg data k) OR ucast (data ! k)) OR ucast (data ! Suc k)) OR ucast (data ! Suc (Suc k))"
    using assms by (simp add: shift_reg_simps)
  then have "shift_reg data (Suc (Suc (Suc k))) AND 0xFFFFFF
      = push_bit 16 (ucast (data ! k)) OR push_bit 8 (ucast (data ! Suc k)) OR ucast (data ! Suc (Suc k))"
    by (simp only: reg_and_24)
  then show ?thesis using three_bytes_inj [of "data ! k" "data ! Suc k" "data ! Suc (Suc k)" 0 0 1] by simp
qed

lemma jpeg_code_at:
  assumes "Suc k < length data"
  shows "shift_reg data (Suc (Suc k)) AND 0xFFFF = 0xFFD8 \<longleftrightarrow> data ! k = 0xFF \<and> data ! Suc k = 0xD8"
proof -
  have "shift_reg data (Suc (Suc k)) = push_bit 8 (push_bit 8 (shift_reg data k) OR ucast (data ! k)) OR ucast (data ! Suc k)"
    using assms by (simp add: shift_reg_simps)
  then have "shift_reg data (Suc (Suc k)) AND 0xFFFF = push_bit 8 (ucast (data ! k)) OR ucast (data ! Suc k)"
    by (simp only: reg_and_16)
  then show ?thesis using two_bytes_inj [of "data ! k" "data ! Suc k" "0xFF" "0xD8"] by simp
qed

end
