(* ===== verification/Formats.thy ===== *)
theory Formats
  imports Startcode
begin

text \<open>
  The formats of the parsers: those found by start codes (\<open>h263_parse.c\<close>, \<open>jpeg_parse.c\<close>, \<open>mpegx_parse.c\<close>,
  \<open>h265_parse.c\<close>, the advanced profile of \<open>vc1_parse.c\<close>) and those with a length in front of each frame (IVF files,
  \<open>vpx_parse.c\<close>; \<open>vp6_parse.c\<close>; RCV files, \<open>vc1_parse.c\<close>). A \<open>char\<close> is unsigned, as on the processors the
  program is for.
\<close>

section \<open>Formats with start codes\<close>

definition simple_scode :: "u32 \<Rightarrow> u32 \<Rightarrow> u32 \<Rightarrow> (u8 list \<Rightarrow> nat \<Rightarrow> u32 \<Rightarrow> unit \<Rightarrow> (u32 \<times> unit) option) option \<Rightarrow> unit pitcher_parser_scode" where
  "simple_scode c m n f = \<lparr>scode = c, smask = m, num = n, extra_num = 0, extra_code = 0, extra_mask = 0,
     force_extra_on_first = 0, check_frame = f, priv_data_size = 0\<rparr>"

text \<open>The checks look at the byte behind the code, when there is one.\<close>

definition check_byte :: "(u8 \<Rightarrow> u32) \<Rightarrow> u8 list \<Rightarrow> nat \<Rightarrow> u32 \<Rightarrow> unit \<Rightarrow> (u32 \<times> unit) option" where
  "check_byte f data off sz s =
     (if sz = 0 then Some (PARSER_TYPE_UNKNOWN, s) else do { b \<leftarrow> nth_opt data off; Some (f b, s) })"

definition mpeg4_check_frame :: "u8 list \<Rightarrow> nat \<Rightarrow> u32 \<Rightarrow> unit \<Rightarrow> (u32 \<times> unit) option" where
  "mpeg4_check_frame = check_byte (\<lambda>b.
     if b = 0xB6 then PARSER_TYPE_FRAME
     else if b = 0xB0 then PARSER_TYPE_CONFIG
     else if b = 0xB3 then PARSER_TYPE_CONFIG
     else if b = 0xB5 then PARSER_TYPE_CONFIG
     else if 0 \<le> b \<and> b \<le> 0x2F then PARSER_TYPE_CONFIG
     else PARSER_TYPE_UNKNOWN)"

definition mpeg2_check_frame :: "u8 list \<Rightarrow> nat \<Rightarrow> u32 \<Rightarrow> unit \<Rightarrow> (u32 \<times> unit) option" where
  "mpeg2_check_frame = check_byte (\<lambda>b.
     if b = 0 then PARSER_TYPE_FRAME
     else if b \<in> {0xB2, 0xB3, 0xB5, 0xB8} then PARSER_TYPE_CONFIG
     else PARSER_TYPE_UNKNOWN)"

definition avs_check_frame :: "u8 list \<Rightarrow> nat \<Rightarrow> u32 \<Rightarrow> unit \<Rightarrow> (u32 \<times> unit) option" where
  "avs_check_frame = check_byte (\<lambda>b.
     if b \<in> {0xB3, 0xB6} then PARSER_TYPE_FRAME
     else if b \<in> {0xB0, 0xB2, 0xB5} then PARSER_TYPE_CONFIG
     else PARSER_TYPE_UNKNOWN)"

definition vc1g_check_frame :: "u8 list \<Rightarrow> nat \<Rightarrow> u32 \<Rightarrow> unit \<Rightarrow> (u32 \<times> unit) option" where
  "vc1g_check_frame = check_byte (\<lambda>b. if b \<in> {0x0D, 0x0F} then PARSER_TYPE_FRAME else PARSER_TYPE_UNKNOWN)"

definition h263_scode :: "unit pitcher_parser_scode" where "h263_scode = simple_scode 0x80 0xFFFFFC 3 None"
definition spk_scode :: "unit pitcher_parser_scode" where "spk_scode = simple_scode 0x80 0xFFFFF8 3 None"
definition jpeg_scode :: "unit pitcher_parser_scode" where "jpeg_scode = simple_scode 0xFFD8 0xFFFF 2 None"
definition mpeg2_scode :: "unit pitcher_parser_scode" where "mpeg2_scode = simple_scode 1 0xFFFFFF 3 (Some mpeg2_check_frame)"
definition mpeg4_scode :: "unit pitcher_parser_scode" where "mpeg4_scode = simple_scode 1 0xFFFFFF 3 (Some mpeg4_check_frame)"
definition avs_scode :: "unit pitcher_parser_scode" where "avs_scode = simple_scode 1 0xFFFFFF 3 (Some avs_check_frame)"
definition vc1g_scode :: "unit pitcher_parser_scode" where "vc1g_scode = simple_scode 1 0xFFFFFF 3 (Some vc1g_check_frame)"

definition parse_simple :: "unit pitcher_parser_scode \<Rightarrow> u64 \<Rightarrow> 'e pworld \<Rightarrow> (int \<times> 'e pworld) option" where
  "parse_simple sc p w = map_option (\<lambda>(r, _, w). (r, w)) (pitcher_parse_startcode p sc () w)"

definition h263_parse :: "u64 \<Rightarrow> 'e pworld \<Rightarrow> (int \<times> 'e pworld) option" where "h263_parse = parse_simple h263_scode"
definition spk_parse :: "u64 \<Rightarrow> 'e pworld \<Rightarrow> (int \<times> 'e pworld) option" where "spk_parse = parse_simple spk_scode"
definition jpeg_parse :: "u64 \<Rightarrow> 'e pworld \<Rightarrow> (int \<times> 'e pworld) option" where "jpeg_parse = parse_simple jpeg_scode"
definition mpeg4_parse :: "u64 \<Rightarrow> 'e pworld \<Rightarrow> (int \<times> 'e pworld) option" where "mpeg4_parse = parse_simple mpeg4_scode"
definition mpeg2_parse :: "u64 \<Rightarrow> 'e pworld \<Rightarrow> (int \<times> 'e pworld) option" where "mpeg2_parse = parse_simple mpeg2_scode"
definition xvid_parse :: "u64 \<Rightarrow> 'e pworld \<Rightarrow> (int \<times> 'e pworld) option" where "xvid_parse = parse_simple mpeg4_scode"
definition avs_parse :: "u64 \<Rightarrow> 'e pworld \<Rightarrow> (int \<times> 'e pworld) option" where "avs_parse = parse_simple avs_scode"
definition divx_parse :: "u64 \<Rightarrow> 'e pworld \<Rightarrow> (int \<times> 'e pworld) option" where "divx_parse = parse_simple mpeg4_scode"
definition vc1g_parse :: "u64 \<Rightarrow> 'e pworld \<Rightarrow> (int \<times> 'e pworld) option" where "vc1g_parse = parse_simple vc1g_scode"

record h265_parse_t =
  header_cnt5 :: u32
  config_found5 :: u32

definition h265_check_frame :: "u8 list \<Rightarrow> nat \<Rightarrow> u32 \<Rightarrow> h265_parse_t \<Rightarrow> (u32 \<times> h265_parse_t) option" where
  "h265_check_frame data off sz s =
     (if sz < 3 then Some (PARSER_TYPE_UNKNOWN, s)
      else do {
        b \<leftarrow> nth_opt data off;
        let ty = drop_bit 1 (b AND 0x7E);
        if ty \<le> 9 \<or> 16 \<le> ty \<and> ty \<le> 21
        then (if header_cnt5 s = 0 then Some (PARSER_TYPE_UNKNOWN, s)
              else if config_found5 s \<noteq> 0 then Some (PARSER_TYPE_FRAME, s\<lparr>config_found5 := 0\<rparr>)
              else do {
                c \<leftarrow> nth_opt data (off + 2);
                Some (if c AND 0x80 \<noteq> 0 then PARSER_TYPE_FRAME else PARSER_TYPE_UNKNOWN, s)
              })
        else if ty = 33 then Some (PARSER_TYPE_CONFIG, s\<lparr>header_cnt5 := header_cnt5 s + 1, config_found5 := 1\<rparr>)
        else if ty \<in> {34, 32, 39, 40} then Some (PARSER_TYPE_CONFIG, s\<lparr>config_found5 := 1\<rparr>)
        else Some (PARSER_TYPE_UNKNOWN, s)
      })"

definition h265_scode :: "h265_parse_t pitcher_parser_scode" where
  "h265_scode = \<lparr>scode = 1, smask = 0xFFFFFF, num = 3, extra_num = 4, extra_code = 1, extra_mask = 0xFFFFFFFF,
     force_extra_on_first = 0, check_frame = Some h265_check_frame, priv_data_size = 8\<rparr>"

definition h265_parse :: "u64 \<Rightarrow> 'e pworld \<Rightarrow> (int \<times> 'e pworld) option" where
  "h265_parse p w = map_option (\<lambda>(r, _, w). (r, w))
     (pitcher_parse_startcode p h265_scode \<lparr>header_cnt5 = 0, config_found5 = 0\<rparr> w)"


section \<open>Formats with lengths\<close>

text \<open>\<open>n\<close> bytes from position \<open>off\<close> on, the low one first, as a signed number of 32 bits.\<close>

fun le_bytes :: "u8 list \<Rightarrow> int \<Rightarrow> nat \<Rightarrow> nat \<Rightarrow> u32 \<Rightarrow> u32 option" where
  "le_bytes data off i 0 dst = Some dst"
| "le_bytes data off i (Suc n) dst =
     do { b \<leftarrow> get_at data (off + int i); le_bytes data off (Suc i) n (dst OR push_bit (i * 8) (ucast b)) }"

definition byte_to_int :: "u8 list \<Rightarrow> int \<Rightarrow> nat \<Rightarrow> int option" where
  "byte_to_int data off n = map_option sint (le_bytes data off 0 n 0)"

definition VP8_IVF_SEQ_HEADER_LEN :: nat where "VP8_IVF_SEQ_HEADER_LEN = 32"
definition VP8_IVF_FRAME_HEADER_LEN :: nat where "VP8_IVF_FRAME_HEADER_LEN = 12"

text \<open>\<open>strncmp\<close> of a string, given with its end, and what lies at a position: whether they differ in the first \<open>n\<close>.\<close>

fun strn_differ :: "u8 list \<Rightarrow> u8 list \<Rightarrow> nat \<Rightarrow> nat \<Rightarrow> bool option" where
  "strn_differ s data off 0 = Some False"
| "strn_differ s data off (Suc n) =
     do {
       a \<leftarrow> nth_opt s 0;
       b \<leftarrow> nth_opt data off;
       if a \<noteq> b then Some True else if a = 0 then Some False else strn_differ (tl s) data (Suc off) n
     }"

text \<open>
  The loop over the frames of an IVF file: \<open>cur\<close> is the position in the file, \<open>left\<close> the bytes that are left. The body
  gives their new values, or nothing when it leaves the loop.
\<close>

definition vpx_step :: "u64 \<Rightarrow> int \<Rightarrow> int \<Rightarrow> int \<Rightarrow> 'e pworld \<Rightarrow> ((int \<times> int \<times> int) option \<times> 'e pworld) option" where
  "vpx_step p cur left idx w =
     do {
       pr \<leftarrow> parser_at p w;
       frame_size \<leftarrow> byte_to_int (pvirt pr) cur 4;
       let cur = cur + int VP8_IVF_FRAME_HEADER_LEN;
       let left = left - int VP8_IVF_FRAME_HEADER_LEN;
       if left < frame_size then Some (None, w)
       else do {
         (_, w) \<leftarrow> pitcher_parser_push_new_frame p (uint (psize pr) - left) frame_size idx w;
         Some (Some (cur + frame_size, left - frame_size, idx + 1), w)
       }
     }"

partial_function (option) vpx_loop :: "u64 \<Rightarrow> int \<Rightarrow> int \<Rightarrow> int \<Rightarrow> 'e pworld \<Rightarrow> 'e pworld option" where
  "vpx_loop p cur left idx w =
     (if left \<le> int VP8_IVF_FRAME_HEADER_LEN then Some w
      else do {
        (r, w) \<leftarrow> vpx_step p cur left idx w;
        (case r of None \<Rightarrow> Some w | Some (cur, left, idx) \<Rightarrow> vpx_loop p cur left idx w)
      })"

definition vpx_parse :: "u64 \<Rightarrow> 'e pworld \<Rightarrow> (int \<times> 'e pworld) option" where
  "vpx_parse p w =
     (if p = 0 then Some (err RET_E_INVAL, w)
      else do {
        pr \<leftarrow> parser_at p w;
        let left = sint (psize pr);
        if left < int VP8_IVF_SEQ_HEADER_LEN then Some (err RET_E_INVAL, w)
        else do {
          no_ivf \<leftarrow> strn_differ [0x44, 0x4B, 0x49, 0x46, 0] (pvirt pr) 0 5;
          if no_ivf then Some (err RET_E_INVAL, w)
          else do {
            no_vp8 \<leftarrow> strn_differ [0x56, 0x50, 0x38, 0x30, 0] (pvirt pr) 8 4;
            no_vp9 \<leftarrow> (if no_vp8 then strn_differ [0x56, 0x50, 0x39, 0x30, 0] (pvirt pr) 8 4 else Some False);
            if no_vp8 \<and> no_vp9 then Some (err RET_E_INVAL, w)
            else do {
              wd \<leftarrow> le_bytes (pvirt pr) 12 0 2 0;
              ht \<leftarrow> le_bytes (pvirt pr) 14 0 2 0;
              w \<leftarrow> vpx_loop p (int VP8_IVF_SEQ_HEADER_LEN) (left - int VP8_IVF_SEQ_HEADER_LEN) 0
                (set_parser p (pr\<lparr>pwidth := wd, pheight := ht\<rparr>) w);
              Some (ret_val RET_OK, w)
            }
          }
        }
      })"

definition vp8_parse :: "u64 \<Rightarrow> 'e pworld \<Rightarrow> (int \<times> 'e pworld) option" where "vp8_parse = vpx_parse"
definition vp9_parse :: "u64 \<Rightarrow> 'e pworld \<Rightarrow> (int \<times> 'e pworld) option" where "vp9_parse = vpx_parse"

text \<open>What the two functions write to a file.\<close>

definition vp8_insert_ivf_seqhdr :: "u32 \<Rightarrow> u32 \<Rightarrow> u32 \<Rightarrow> u8 list" where
  "vp8_insert_ivf_seqhdr width height frame_rate =
     [0x44, 0x4B, 0x49, 0x46, 0, 0, of_nat VP8_IVF_SEQ_HEADER_LEN, drop_bit 8 (of_nat VP8_IVF_SEQ_HEADER_LEN),
      0x56, 0x50, 0x38, 0x30, ucast width, ucast (drop_bit 8 width), ucast height, ucast (drop_bit 8 height),
      ucast frame_rate, ucast (drop_bit 8 frame_rate), ucast (drop_bit 16 frame_rate), ucast (drop_bit 24 frame_rate),
      1, 0, 0, 0, 0xFF, 0xFF, 0xFF, 0xFF, 0, 0, 0, 0]"

definition vp8_insert_ivf_pichdr :: "u64 \<Rightarrow> u8 list" where
  "vp8_insert_ivf_pichdr frame_size =
     [ucast frame_size, ucast (drop_bit 8 frame_size), ucast (drop_bit 16 frame_size), ucast (drop_bit 24 frame_size),
      0, 0, 0, 0, 0, 0, 0, 0]"

text \<open>\<open>vp6_parse\<close>: \<open>left\<close> is unsigned, and compared with the size of a frame as such.\<close>

partial_function (option) vp6_loop :: "u64 \<Rightarrow> int \<Rightarrow> u64 \<Rightarrow> int \<Rightarrow> 'e pworld \<Rightarrow> 'e pworld option" where
  "vp6_loop p off left idx w =
     (if left \<le> 4 then Some w
      else do {
        pr \<leftarrow> parser_at p w;
        frame_size \<leftarrow> byte_to_int (pvirt pr) off 4;
        let left = left - 4;
        let off = off + 4;
        if left < of_int frame_size then Some w
        else do {
          (_, w) \<leftarrow> pitcher_parser_push_new_frame p off frame_size idx w;
          vp6_loop p (off + frame_size) (left - of_int frame_size) (idx + 1) w
        }
      })"

definition vp6_parse :: "u64 \<Rightarrow> 'e pworld \<Rightarrow> (int \<times> 'e pworld) option" where
  "vp6_parse p w =
     (if p = 0 then Some (err RET_E_INVAL, w)
      else do { pr \<leftarrow> parser_at p w; w \<leftarrow> vp6_loop p 0 (psize pr) 0 w; Some (ret_val RET_OK, w) })"

text \<open>\<open>rcv_parse_header\<close> returns the size of the header, the version and the size of the metadata.\<close>

definition rcv_parse_header :: "u64 \<Rightarrow> 'e pworld \<Rightarrow> ((int \<times> int \<times> int) \<times> 'e pworld) option" where
  "rcv_parse_header p w =
     do {
       pr \<leftarrow> parser_at p w;
       _ \<leftarrow> byte_to_int (pvirt pr) 0 3;
       ext \<leftarrow> le_bytes (pvirt pr) 3 0 1 0;
       let version = (if ext AND 0x40 \<noteq> 0 then 1 else 0 :: int);
       meta \<leftarrow> byte_to_int (pvirt pr) 4 4;
       ht \<leftarrow> le_bytes (pvirt pr) (8 + meta) 0 4 0;
       wd \<leftarrow> le_bytes (pvirt pr) (12 + meta) 0 4 0;
       Some (((4 + 4 * version) * 4 + meta, version, meta), set_parser p (pr\<lparr>pheight := ht, pwidth := wd\<rparr>) w)
     }"

definition rcv_frame_size :: "u8 list \<Rightarrow> int \<Rightarrow> int option" where
  "rcv_frame_size data cur = byte_to_int data cur 3"

partial_function (option) vc1l_loop :: "u64 \<Rightarrow> int \<Rightarrow> int \<Rightarrow> int \<Rightarrow> int \<Rightarrow> 'e pworld \<Rightarrow> 'e pworld option" where
  "vc1l_loop p version cur off idx w =
     do {
       pr \<leftarrow> parser_at p w;
       if \<not> of_int off < psize pr then Some w
       else do {
         sz \<leftarrow> rcv_frame_size (pvirt pr) cur;
         if psize pr < of_int (off + sz) then Some w
         else do {
           (_, w) \<leftarrow> pitcher_parser_push_new_frame p off sz idx w;
           vc1l_loop p version (cur + (sz + (4 + 4 * version))) (off + (sz + (4 + 4 * version))) (idx + 1) w
         }
       }
     }"

definition vc1l_parse :: "u64 \<Rightarrow> 'e pworld \<Rightarrow> (int \<times> 'e pworld) option" where
  "vc1l_parse p w =
     (if p = 0 then Some (err RET_E_INVAL, w)
      else do {
        ((size, version, meta), w) \<leftarrow> rcv_parse_header p w;
        (_, w) \<leftarrow> pitcher_parser_push_new_frame p 8 meta 0 w;
        w \<leftarrow> vc1l_loop p version size (size + (4 + 4 * version)) 1 w;
        Some (ret_val RET_OK, w)
      })"

end
