(* ===== verification/Split.thy ===== *)
theory Split
  imports Formats
begin

text \<open>
  What the formats with start codes have in common: the interface a check of frames must offer to the scan, and that it is
  all the scan needs to cut a file of any content into consecutive frames. Then the formats whose frames can be told from
  the bytes at each position.
\<close>

section \<open>The interface of a check\<close>

text \<open>Consecutive pieces of a file of \<open>z\<close> bytes.\<close>

fun consecutive :: "(int \<times> int) list \<Rightarrow> int \<Rightarrow> bool" where
  "consecutive [] z = True"
| "consecutive [(a, b)] z = (0 \<le> a \<and> a \<le> b \<and> b \<le> z)"
| "consecutive ((a, b) # (c, d) # us) z = (0 \<le> a \<and> a \<le> b \<and> b = c \<and> consecutive ((c, d) # us) z)"

lemma consecutive_zip:
  assumes "sorted us" and "\<forall>u \<in> set us. 0 \<le> u \<and> u < z"
  shows "consecutive (zip us (tl us @ [z])) z"
  using assms
proof (induction us)
  case (Cons a us)
  then show ?case by (cases us; cases "tl us") auto
qed simp

lemma consecutive_bound: "consecutive ((a, b) # us) z \<Longrightarrow> b \<le> z"
proof (induction us arbitrary: a b)
  case (Cons u us)
  obtain c d where u: "u = (c, d)" by (cases u)
  then have "consecutive ((c, d) # us) z" "b = c" "c \<le> d" using Cons.prems by (auto, cases us, auto)
  then show ?case using Cons.IH by fastforce
qed simp

lemma consecutive_take: "consecutive us z \<Longrightarrow> consecutive (take n us) z"
proof (induction us z arbitrary: n rule: consecutive.induct)
  case (2 a b z)
  then show ?case by (cases n) simp_all
next
  case (3 a b c d us z)
  then show ?case
  proof (cases n)
    case (Suc m)
    have "consecutive (take m ((c, d) # us)) z" using 3 by simp
    moreover have "b \<le> z" by (rule consecutive_bound [OF "3.prems"])
    ultimately show ?thesis using Suc "3.prems" by (cases m) auto
  qed simp
qed simp

lemma unit_starts_sorted:
  assumes "sorted (map fst cs)" and "\<forall>u \<in> set (map fst cs). l \<le> u \<and> u < z"
    and "case hdr of None \<Rightarrow> True | Some h \<Rightarrow> l \<le> h \<and> h < z \<and> (\<forall>u \<in> set (map fst cs). h \<le> u)"
  shows "sorted (unit_starts hdr cs) \<and> (\<forall>u \<in> set (unit_starts hdr cs). l \<le> u \<and> u < z)
    \<and> length (unit_starts hdr cs) \<le> length cs"
  using assms
proof (induction cs arbitrary: hdr l)
  case (Cons c cs)
  obtain off f where c: "c = (off, f)" by (cases c)
  define start where "start = (case hdr of None \<Rightarrow> off | Some h \<Rightarrow> h)"
  have s: "l \<le> start" "start < z" "start \<le> off" "\<forall>u \<in> set (map fst cs). off \<le> u \<and> u < z" "sorted (map fst cs)"
    using Cons.prems c by (auto simp: start_def split: option.splits)
  have e: "unit_starts hdr (c # cs) = (if f then start # unit_starts None cs else unit_starts (Some start) cs)"
    by (simp add: c start_def)
  have "sorted (unit_starts hdr' cs) \<and> (\<forall>u \<in> set (unit_starts hdr' cs). start \<le> u \<and> u < z)
      \<and> length (unit_starts hdr' cs) \<le> length cs" if "hdr' = None \<or> hdr' = Some start" for hdr'
    by (rule Cons.IH) (use s that in \<open>fastforce split: option.splits\<close>)+
  then have "sorted (unit_starts None cs) \<and> (\<forall>u \<in> set (unit_starts None cs). start \<le> u \<and> u < z) \<and> length (unit_starts None cs) \<le> length cs"
    "sorted (unit_starts (Some start) cs) \<and> (\<forall>u \<in> set (unit_starts (Some start) cs). start \<le> u \<and> u < z) \<and> length (unit_starts (Some start) cs) \<le> length cs"
    by blast+
  then show ?case unfolding e using s(1,2) by (cases f) fastforce+
qed simp

lemma file_units_consecutive:
  assumes "sorted (map fst cs)" and "\<forall>u \<in> set (map fst cs). 0 \<le> u \<and> u < z"
  shows "consecutive (file_units cs z) z" "length (file_units cs z) \<le> length cs"
proof -
  let ?us = "if \<exists>c \<in> set cs. snd c then unit_starts None cs else map fst (take 1 cs)"
  have "sorted ?us \<and> (\<forall>u \<in> set ?us. 0 \<le> u \<and> u < z) \<and> length ?us \<le> length cs"
    using unit_starts_sorted [of cs 0 z None] assms by (cases cs) auto
  then show "consecutive (file_units cs z) z" "length (file_units cs z) \<le> length cs"
    using consecutive_zip [of ?us z] by (simp_all add: file_units_def Let_def)
qed

locale frame_check =
  fixes sc :: "'s pitcher_parser_scode"
  assumes num_positive: "num sc \<noteq> 0"
    and complete: "complete_scode sc \<noteq> None"
    and short_prefix: "uint (extra_num sc) \<le> uint (num sc) + 1"
    and returns: "check_frame sc = Some f \<Longrightarrow> off + n = length data \<Longrightarrow> length data < 2 ^ 32
      \<Longrightarrow> \<exists>t s'. f data off (of_nat n) s = Some (t, s')"
begin

lemma completed:
  obtains c where "complete_scode sc = Some c" "check_frame c = check_frame sc" "num c = num sc" "num c \<le> extra_num c"
    "uint (extra_num c) \<le> uint (num c) + 1"
proof -
  obtain c where c: "complete_scode sc = Some c" using complete by blast
  then have "uint (extra_num c) \<le> uint (num c) + 1" using short_prefix by (auto simp: complete_scode_def split: if_splits)
  then show ?thesis using complete_scode_num [OF c] by (intro that [OF c]) auto
qed

text \<open>The scan comes to its end, and finds at most one code for each byte, in order.\<close>

lemma scan_ends:
  assumes c: "check_frame c = check_frame sc" "num c = num sc" "num c \<le> extra_num c" "uint (extra_num c) \<le> uint (num c) + 1"
    and data: "length data < 2 ^ 32" "i + n = length data"
  shows "\<exists>cs s'. scan_codes c data i n state force s = Some (cs, s') \<and> length cs \<le> n
    \<and> sorted (map fst cs) \<and> (\<forall>u \<in> set (map fst cs). 0 \<le> u \<and> int i - uint (num c) \<le> u \<and> u < int (length data))"
  using data(2)
proof (induction n arbitrary: i state force s)
  case (Suc n)
  then have i: "i < length data" "Suc i + n = length data" by simp_all
  let ?state = "push_bit 8 state OR ucast (data ! i)"
  have b: "nth_opt data i = Some (data ! i)" using i(1) by simp
  have later: "\<exists>cs s'. scan_codes c data (Suc i) n st fo s = Some (cs, s') \<and> length cs \<le> n
    \<and> sorted (map fst cs) \<and> (\<forall>u \<in> set (map fst cs). 0 \<le> u \<and> int i + 1 - uint (num c) \<le> u \<and> u < int (length data))" for st fo s
    using Suc.IH [OF i(2), of st fo s] by (simp add: add.commute)
  have skip: ?case if "scan_codes c data i (Suc n) state force s = scan_codes c data (Suc i) n st fo s'" for st fo s'
    using later [of st fo s'] unfolding that by fastforce
  let ?skip = "force \<noteq> 0 \<and> i < unat (extra_num c - 1) \<or> i < unat (num c - 1)
          \<or> (if force \<noteq> 0 then ?state AND extra_mask c \<noteq> extra_code c else ?state AND smask c \<noteq> scode c)"
  show ?case
  proof (cases ?skip)
    case True
    then show ?thesis by (intro skip [of ?state force s]) (simp add: b Let_def)
  next
    case False
    let ?check = "case check_frame c of None \<Rightarrow> Some (PARSER_TYPE_FRAME, s) | Some f \<Rightarrow> f data (i + 1) (of_nat n) s"
    obtain t s1 where t: "?check = Some (t, s1)"
    proof (cases "check_frame c")
      case (Some f)
      then obtain t s1 where "f data (i + 1) (of_nat n) s = Some (t, s1)"
        using returns [of f "i + 1" n data s] c(1) data(1) i(2) by auto
      then show ?thesis using that Some by simp
    qed (use that in simp)
    show ?thesis
    proof (cases "t = PARSER_TYPE_UNKNOWN")
      case True
      then show ?thesis using False t
        by (intro skip [of ?state force s1], cases "force = 0") (simp_all add: b Let_def)
    next
      case known: False
      define off where "off = (if unat (extra_num c) \<le> i + 1 \<and> ?state AND extra_mask c = extra_code c
                      then int i + 1 - uint (extra_num c) else int i + 1 - uint (num c))"
      have pos: "num c \<noteq> 0" using num_positive c(2) by simp
      have off: "0 \<le> off" "off < int (Suc i)"
        by (rule code_offset [OF pos c(3) _ off_def]; use False in blast)+
      have near: "int i - uint (num c) \<le> off" "off \<le> int i + 1 - uint (num c)"
        using c(3,4) by (auto simp: off_def word_le_def)
      obtain cs s' where cs: "scan_codes c data (Suc i) n ?state 0 s1 = Some (cs, s')" "length cs \<le> n" "sorted (map fst cs)"
        "\<forall>u \<in> set (map fst cs). 0 \<le> u \<and> int i + 1 - uint (num c) \<le> u \<and> u < int (length data)"
        using later [of ?state 0 s1] by blast
      have "scan_codes c data i (Suc n) state force s = Some ((off, t = PARSER_TYPE_FRAME) # cs, s')"
        using False t known cs(1) unfolding off_def by (cases "force = 0") (simp_all add: b Let_def)
      then show ?thesis using cs(2-4) off near i by fastforce
    qed
  qed
qed simp

text \<open>A file of any content becomes consecutive frames that end with the file, unless their number is limited.\<close>

lemma splits:
  assumes "length (pvirt pr) < 2 ^ 32" and "unat (psize pr) = length (pvirt pr)" and "listed p pr [] (Suc (length (pvirt pr))) w"
  shows "\<exists>us s' w'. pitcher_parse_startcode p sc s w = Some (0, s', w') \<and> listed p pr (frames_of_units 0 us) 0 w'
    \<and> consecutive us (int (length (pvirt pr))) \<and> (number pr = 0 \<and> us \<noteq> [] \<longrightarrow> snd (last us) = int (length (pvirt pr)))"
proof -
  let ?data = "pvirt pr"
  obtain c where c: "complete_scode sc = Some c" "check_frame c = check_frame sc" "num c = num sc" "num c \<le> extra_num c"
    "uint (extra_num c) \<le> uint (num c) + 1" by (rule completed)
  obtain cs s' where cs: "scan_codes c ?data 0 (length ?data) 0 (force_extra_on_first c) s = Some (cs, s')" "length cs \<le> length ?data"
    "sorted (map fst cs)" "\<forall>u \<in> set (map fst cs). 0 \<le> u \<and> u < int (length ?data)"
    using scan_ends [OF c(2-5) assms(1), of 0 "length ?data" 0 "force_extra_on_first c" s] by auto
  let ?us = "file_units cs (int (length ?data))"
  have z: "uint (psize pr) = int (length ?data)" unfolding assms(2) [symmetric] by simp
  have u: "consecutive ?us (int (length ?data))" "length ?us \<le> length ?data"
    using file_units_consecutive [OF cs(3,4)] cs(2) by simp_all
  have l: "listed p pr [] (Suc (length ?us)) w" using listed_mono [OF assms(3), of "Suc (length ?us)"] u(2) by simp
  obtain s'' w' where r: "pitcher_parse_startcode p sc s w = Some (0, s'', w')"
    "listed p pr (frames_of_units 0 (limited pr 0 ?us)) 0 w'"
    using scan_splits [OF num_positive c(1), of pr s cs s' p w] cs(1) l assms(2) z by auto
  have "consecutive (limited pr 0 ?us) (int (length ?data))" using u(1) consecutive_take by (simp add: limited_def)
  moreover have "number pr = 0 \<and> limited pr 0 ?us \<noteq> [] \<longrightarrow> snd (last (limited pr 0 ?us)) = int (length ?data)"
    by (auto simp: limited_def file_units_def Let_def last_zip)
  ultimately show ?thesis using r by blast
qed

end


section \<open>The formats have it\<close>

lemma of_nat_u32_zero: "n < 2 ^ 32 \<Longrightarrow> (of_nat n :: u32) = 0 \<longleftrightarrow> n = 0"
  by (auto simp: word_of_nat_eq_0_iff dest: nat_dvd_not_less)

lemma check_byte_returns:
  "off + n = length data \<Longrightarrow> length data < 2 ^ 32
    \<Longrightarrow> check_byte f data off (of_nat n) s = Some (if n = 0 then PARSER_TYPE_UNKNOWN else f (data ! off), s)"
  by (auto simp: check_byte_def of_nat_u32_zero)

lemma h265_check_returns:
  assumes "off + n = length data" and "length data < 2 ^ 32"
  shows "\<exists>t s'. h265_check_frame data off (of_nat n) s = Some (t, s')"
proof -
  have "(of_nat n :: u32) < 3 \<longleftrightarrow> n < 3"
    using assms by (simp add: word_less_nat_alt unat_of_nat take_bit_nat_eq_self)
  moreover have "off < length data \<and> Suc (Suc off) < length data" if "\<not> n < 3" using assms(1) that by simp
  ultimately show ?thesis by (cases "n < 3") (auto simp: h265_check_frame_def Let_def)
qed

lemmas scode_defs = h263_scode_def spk_scode_def jpeg_scode_def mpeg2_scode_def mpeg4_scode_def avs_scode_def vc1g_scode_def
  simple_scode_def h265_scode_def complete_scode_def

interpretation h263: frame_check h263_scode by unfold_locales (simp_all add: scode_defs)
interpretation spk: frame_check spk_scode by unfold_locales (simp_all add: scode_defs)
interpretation jpeg: frame_check jpeg_scode by unfold_locales (simp_all add: scode_defs)

interpretation mpeg2: frame_check mpeg2_scode
  by unfold_locales (auto simp: scode_defs mpeg2_check_frame_def check_byte_returns)

interpretation mpeg4: frame_check mpeg4_scode
  by unfold_locales (auto simp: scode_defs mpeg4_check_frame_def check_byte_returns)

interpretation avs: frame_check avs_scode
  by unfold_locales (auto simp: scode_defs avs_check_frame_def check_byte_returns)

interpretation vc1g: frame_check vc1g_scode
  by unfold_locales (auto simp: scode_defs vc1g_check_frame_def check_byte_returns)

interpretation h265: frame_check h265_scode
  by unfold_locales (simp_all add: scode_defs h265_check_returns)

definition cuts :: "(u64 \<Rightarrow> 'e pworld \<Rightarrow> (int \<times> 'e pworld) option) \<Rightarrow> u64 \<Rightarrow> pitcher_parser \<Rightarrow> 'e pworld \<Rightarrow> bool" where
  "cuts parse p pr w \<longleftrightarrow> (\<exists>us w'. parse p w = Some (0, w') \<and> listed p pr (frames_of_units 0 us) 0 w'
     \<and> consecutive us (int (length (pvirt pr))) \<and> (number pr = 0 \<and> us \<noteq> [] \<longrightarrow> snd (last us) = int (length (pvirt pr))))"

lemma cuts_startcode:
  assumes "\<exists>us s' w'. pitcher_parse_startcode p sc s w = Some (0, s', w') \<and> listed p pr (frames_of_units 0 us) 0 w'
    \<and> consecutive us (int (length (pvirt pr))) \<and> (number pr = 0 \<and> us \<noteq> [] \<longrightarrow> snd (last us) = int (length (pvirt pr)))"
  shows "cuts (\<lambda>p w. map_option (\<lambda>(r, _, w). (r, w)) (pitcher_parse_startcode p sc s w)) p pr w"
proof -
  obtain us s' w' where "pitcher_parse_startcode p sc s w = Some (0, s', w')" "listed p pr (frames_of_units 0 us) 0 w'"
    "consecutive us (int (length (pvirt pr)))" "number pr = 0 \<and> us \<noteq> [] \<longrightarrow> snd (last us) = int (length (pvirt pr))"
    using assms by blast
  then show ?thesis unfolding cuts_def by (intro exI [of _ us] exI [of _ w']) simp
qed

text \<open>On a file of any content (of less than 4 GB) the parsers for H.263, Sorenson, JPEG, MPEG-4, Xvid, DivX, MPEG-2, AVS,
  the advanced profile of VC-1, and H.265 return 0 without an access outside of the file, and the frames they list are
  consecutive pieces of it, the last of which ends with the file unless the number of frames is limited.\<close>

theorem startcode_parsers_cut:
  assumes "length (pvirt pr) < 2 ^ 32" and "unat (psize pr) = length (pvirt pr)" and "listed p pr [] (Suc (length (pvirt pr))) w"
  shows "cuts h263_parse p pr w \<and> cuts spk_parse p pr w \<and> cuts jpeg_parse p pr w \<and> cuts mpeg4_parse p pr w
    \<and> cuts xvid_parse p pr w \<and> cuts divx_parse p pr w \<and> cuts mpeg2_parse p pr w \<and> cuts avs_parse p pr w
    \<and> cuts vc1g_parse p pr w \<and> cuts h265_parse p pr w"
  unfolding h263_parse_def spk_parse_def jpeg_parse_def mpeg4_parse_def xvid_parse_def divx_parse_def mpeg2_parse_def
    avs_parse_def vc1g_parse_def h265_parse_def parse_simple_def
  by (intro conjI cuts_startcode h263.splits spk.splits jpeg.splits mpeg4.splits mpeg2.splits avs.splits vc1g.splits h265.splits assms)

theorem startcode_parsers_cut_witness:
  "cuts h265_parse 1 (file_parser [0, 0, 1, 0x42, 1, 1, 0, 0, 1, 2, 1, 0x80]) (file_world [0, 0, 1, 0x42, 1, 1, 0, 0, 1, 2, 1, 0x80])"
proof -
  let ?data = "[0, 0, 1, 0x42, 1, 1, 0, 0, 1, 2, 1, 0x80] :: u8 list"
  have d: "length (pvirt (file_parser ?data)) < 2 ^ 32" "unat (psize (file_parser ?data)) = length (pvirt (file_parser ?data))"
    by (simp_all add: file_parser_def)
  have "length (pvirt (file_parser ?data)) = 12" by (simp add: file_parser_def)
  then have l: "listed 1 (file_parser ?data) [] (Suc (length (pvirt (file_parser ?data)))) (file_world ?data)"
    using file_world_listed [of 13] by simp
  show ?thesis using startcode_parsers_cut [OF d l] by blast
qed


section \<open>Frames by position\<close>

text \<open>The codes of a plain description begin at these positions.\<close>

definition plain_codes :: "'s pitcher_parser_scode \<Rightarrow> u8 list \<Rightarrow> (nat \<Rightarrow> u32) \<Rightarrow> (int \<times> bool) list" where
  "plain_codes sc data ty =
     (let m = unat (num sc) - 1
      in map (\<lambda>j. (int j, ty (Suc (j + m)) = PARSER_TYPE_FRAME))
           (filter (\<lambda>j. shift_reg data (Suc (j + m)) AND smask sc = scode sc \<and> ty (Suc (j + m)) \<noteq> PARSER_TYPE_UNKNOWN)
             [0..<length data - m]))"

lemma filter_shift: "filter (\<lambda>k. m \<le> k \<and> P k) [0..<n] = map (\<lambda>j. j + m) (filter (\<lambda>j. P (j + m)) [0..<n - m])"
proof (cases "m \<le> n")
  case True
  then have "[0..<n] = [0..<m] @ map (\<lambda>j. j + m) [0..<n - m]"
    using upt_add_eq_append [of 0 m "n - m"] by (simp add: map_add_upt)
  moreover have "filter (\<lambda>k. m \<le> k \<and> P k) [0..<m] = []" by (simp add: filter_empty_conv)
  ultimately show ?thesis by (simp add: filter_map o_def)
qed (simp add: filter_empty_conv)

lemma plain_splits:
  assumes num: "num psc \<noteq> 0" and c: "complete_scode psc = Some sc" and plain: "plain_scode sc (pvirt pr) ty"
    and force: "force_extra_on_first sc = 0" and size: "unat (psize pr) = length (pvirt pr)"
    and l: "listed p pr [] (Suc (length (file_units (plain_codes sc (pvirt pr) ty) (int (length (pvirt pr)))))) w"
  shows "\<exists>s' w'. pitcher_parse_startcode p psc s w = Some (0, s', w')
    \<and> listed p pr (frames_of_units 0 (limited pr 0 (file_units (plain_codes sc (pvirt pr) ty) (int (length (pvirt pr)))))) 0 w'"
proof -
  let ?data = "pvirt pr"
  have pos: "0 < unat (num sc)" using num complete_scode_num [OF c] by (simp add: unat_gt_0)
  then have m: "unat (num sc - 1) = unat (num sc) - 1" by (subst unat_minus_one) auto
  have z: "uint (psize pr) = int (length ?data)" unfolding size [symmetric] by simp
  have u: "uint (num sc) = int (unat (num sc))" by simp
  have "map (\<lambda>k. (int k + 1 - uint (num sc), ty (Suc k) = PARSER_TYPE_FRAME)) (code_ends sc ?data ty 0 (length ?data))
      = plain_codes sc ?data ty"
    unfolding code_ends_def filter_shift m plain_codes_def Let_def u using pos by simp
  then have "scan_codes sc ?data 0 (unat (psize pr)) 0 (force_extra_on_first sc) s = Some (plain_codes sc ?data ty, s)"
    using scan_plain [OF plain, of 0 "length ?data" s] size force by (simp add: shift_reg_simps)
  from scan_splits [OF num c this, of p w] l show ?thesis unfolding z by blast
qed

definition jpeg_starts :: "u8 list \<Rightarrow> nat list" where
  "jpeg_starts data = filter (\<lambda>k. data ! k = 0xFF \<and> data ! Suc k = 0xD8) [0..<length data - 1]"

lemma units_of_frames: "file_units (map (\<lambda>k. (f k, True)) ks) z = zip (map f ks) (tl (map f ks) @ [z])"
proof -
  have "unit_starts None (map (\<lambda>k. (f k, True)) ks) = map f ks" by (induction ks) simp_all
  then show ?thesis by (cases ks) (simp_all add: file_units_def)
qed

text \<open>A file of JPEG images is cut exactly at the markers that begin an image: the frames the parser lists begin at the
  positions with FF D8, in order, and each ends where the next begins.\<close>

theorem jpeg_images_found:
  assumes "unat (psize pr) = length (pvirt pr)" and "S = map int (jpeg_starts (pvirt pr))" and "listed p pr [] (Suc (length S)) w"
  shows "\<exists>w'. jpeg_parse p w = Some (0, w')
    \<and> listed p pr (frames_of_units 0 (limited pr 0 (zip S (tl S @ [int (length (pvirt pr))])))) 0 w'"
proof -
  let ?data = "pvirt pr" and ?ty = "\<lambda>_ :: nat. PARSER_TYPE_FRAME"
  let ?sc = "jpeg_scode\<lparr>extra_num := 2, extra_code := 0xFFD8, extra_mask := 0xFFFF\<rparr>"
  have c: "num jpeg_scode \<noteq> 0" "complete_scode jpeg_scode = Some ?sc" "force_extra_on_first ?sc = 0" by (simp_all add: scode_defs)
  have plain: "plain_scode ?sc ?data ?ty" by (simp add: plain_scode_def scode_defs)
  have "plain_codes ?sc ?data ?ty = map (\<lambda>k. (int k, True)) (jpeg_starts ?data)"
    unfolding plain_codes_def jpeg_starts_def Let_def
    by (intro arg_cong2 [where f = map] ext filter_cong) (auto simp: scode_defs jpeg_code_at parser_types)
  then have u: "file_units (plain_codes ?sc ?data ?ty) (int (length ?data)) = zip S (tl S @ [int (length ?data)])"
    using units_of_frames [of int "jpeg_starts ?data"] assms(2) by simp
  have "length (zip S (tl S @ [int (length ?data)])) = length S" by (cases S) simp_all
  then show ?thesis
    using plain_splits [OF c(1,2) plain c(3) assms(1), of p w "()"] assms(3) unfolding u
    by (auto simp: jpeg_parse_def parse_simple_def)
qed

theorem jpeg_images_found_witness:
  "jpeg_starts [0xFF, 0xD8, 7, 0xFF, 0xD8] = [0, 3]
   \<and> (\<exists>w. jpeg_parse 1 (file_world [0xFF, 0xD8, 7, 0xFF, 0xD8]) = Some (0, w)
     \<and> listed 1 (file_parser [0xFF, 0xD8, 7, 0xFF, 0xD8]) (frames_of_units 0 [(0, 3), (3, 5)]) 0 w)"
proof -
  let ?data = "[0xFF, 0xD8, 7, 0xFF, 0xD8] :: u8 list"
  have s: "jpeg_starts ?data = [0, 3]" by code_simp
  have z: "unat (psize (file_parser ?data)) = length (pvirt (file_parser ?data))" "pvirt (file_parser ?data) = ?data"
    by (simp_all add: file_parser_def)
  have S: "[0, 3] = map int (jpeg_starts (pvirt (file_parser ?data)))" unfolding z(2) s by simp
  have l: "listed 1 (file_parser ?data) [] (Suc (length [0, 3 :: int])) (file_world ?data)" by (rule file_world_listed) simp
  have "limited (file_parser ?data) 0 us = us" for us :: "(int \<times> int) list" by (simp add: limited_def file_parser_def)
  then show ?thesis using jpeg_images_found [OF z(1) S l] s z(2) by simp
qed

text \<open>Codes 00 00 01 with a byte behind them that says what they are.\<close>

definition start_codes :: "(u8 \<Rightarrow> u32) \<Rightarrow> u8 list \<Rightarrow> (int \<times> bool) list" where
  "start_codes f data = map (\<lambda>k. (int k, f (data ! (k + 3)) = PARSER_TYPE_FRAME))
     (filter (\<lambda>k. data ! k = 0 \<and> data ! (k + 1) = 0 \<and> data ! (k + 2) = 1 \<and> f (data ! (k + 3)) \<noteq> PARSER_TYPE_UNKNOWN)
       [0..<length data - 3])"

lemma byte_checked_splits:
  assumes sc: "sc = simple_scode 1 0xFFFFFF 3 (Some (check_byte f))" and size: "unat (psize pr) = length (pvirt pr)"
    and len: "length (pvirt pr) < 2 ^ 32"
    and l: "listed p pr [] (Suc (length (file_units (start_codes f (pvirt pr)) (int (length (pvirt pr)))))) w"
  shows "\<exists>w'. parse_simple sc p w = Some (0, w')
    \<and> listed p pr (frames_of_units 0 (limited pr 0 (file_units (start_codes f (pvirt pr)) (int (length (pvirt pr)))))) 0 w'"
proof -
  let ?data = "pvirt pr"
  let ?ty = "\<lambda>off. if off < length ?data then f (?data ! off) else PARSER_TYPE_UNKNOWN"
  let ?sc = "sc\<lparr>extra_num := 3, extra_code := 1, extra_mask := 0xFFFFFF\<rparr>"
  have c: "num sc \<noteq> 0" "complete_scode sc = Some ?sc" "force_extra_on_first ?sc = 0"
    by (simp_all add: sc simple_scode_def complete_scode_def)
  have plain: "plain_scode ?sc ?data ?ty"
    using len by (auto simp: plain_scode_def sc simple_scode_def check_byte_returns)
  have three: "unat (num ?sc) - 1 = 2" by (simp add: sc simple_scode_def)
  have "filter (\<lambda>j. shift_reg ?data (Suc (j + 2)) AND smask ?sc = scode ?sc \<and> ?ty (Suc (j + 2)) \<noteq> PARSER_TYPE_UNKNOWN) [0..<length ?data - 2]
      = filter (\<lambda>k. ?data ! k = 0 \<and> ?data ! (k + 1) = 0 \<and> ?data ! (k + 2) = 1 \<and> f (?data ! (k + 3)) \<noteq> PARSER_TYPE_UNKNOWN)
       [0..<length ?data - 3]" (is "filter ?P _ = filter ?Q _")
  proof (cases "3 \<le> length ?data")
    case True
    then have "length ?data - 2 = Suc (length ?data - 3)" by simp
    then have "[0..<length ?data - 2] = [0..<length ?data - 3] @ [length ?data - 3]"
      by (simp only: upt_Suc_append le0)
    moreover have "?P j \<longleftrightarrow> ?Q j" if "j < length ?data - 3" for j
    proof -
      have "Suc (Suc j) < length ?data" "Suc (Suc (Suc j)) < length ?data" using that by simp_all
      then show ?thesis using start_code_at [of j ?data] by (simp add: sc simple_scode_def numeral_3_eq_3)
    qed
    then have "filter ?P [0..<length ?data - 3] = filter ?Q [0..<length ?data - 3]"
      by (intro filter_cong) (simp_all only: set_upt atLeastLessThan_iff)
    moreover have "\<not> Suc (length ?data - 3 + 2) < length ?data" using True by simp
    then have "\<not> ?P (length ?data - 3)" by (simp only: if_False simp_thms)
    ultimately show ?thesis by (simp only: filter_append filter.simps if_False append_Nil2)
  qed auto
  moreover have "map (\<lambda>j. (int j, ?ty (Suc (j + 2)) = PARSER_TYPE_FRAME)) (filter ?Q [0..<length ?data - 3])
      = map (\<lambda>k. (int k, f (?data ! (k + 3)) = PARSER_TYPE_FRAME)) (filter ?Q [0..<length ?data - 3])"
    by (intro map_cong) (auto simp: numeral_3_eq_3)
  ultimately have e: "plain_codes ?sc ?data ?ty = start_codes f ?data"
    unfolding plain_codes_def start_codes_def Let_def three by simp
  show ?thesis using plain_splits [OF c(1,2) plain c(3) size, of p w "()"] l unfolding e
    by (auto simp: parse_simple_def)
qed

text \<open>What the second byte of MPEG-2 says: a picture, or a header of one of four kinds.\<close>

definition mpeg2_kind :: "u8 \<Rightarrow> u32" where
  "mpeg2_kind b = (if b = 0 then PARSER_TYPE_FRAME
     else if b \<in> {0xB2, 0xB3, 0xB5, 0xB8} then PARSER_TYPE_CONFIG else PARSER_TYPE_UNKNOWN)"

text \<open>C29: An MPEG-2 file is cut in front of its pictures. The codes that count are 00 00 01 followed by 00 (a picture), or by
  B2, B3, B5 or B8 (user data, a sequence header, an extension, a group of pictures); each frame begins at the first of them
  behind the picture before, so that the headers go with the picture that follows, and ends where the next frame begins.\<close>

theorem mpeg2_units_found:
  assumes "unat (psize pr) = length (pvirt pr)" and "length (pvirt pr) < 2 ^ 32"
    and "us = file_units (start_codes mpeg2_kind (pvirt pr)) (int (length (pvirt pr)))" and "listed p pr [] (Suc (length us)) w"
  shows "\<exists>w'. mpeg2_parse p w = Some (0, w') \<and> listed p pr (frames_of_units 0 (limited pr 0 us)) 0 w'"
proof -
  have "mpeg2_scode = simple_scode 1 0xFFFFFF 3 (Some (check_byte mpeg2_kind))"
    by (simp add: mpeg2_scode_def mpeg2_check_frame_def mpeg2_kind_def [abs_def])
  from byte_checked_splits [OF this assms(1,2), of p w] assms(3,4) show ?thesis by (simp add: mpeg2_parse_def)
qed

theorem mpeg2_units_found_witness:
  "file_units (start_codes mpeg2_kind [0, 0, 1, 0xB3, 0, 0, 1, 0, 7, 0, 0, 1, 0, 8]) 14 = [(0, 9), (9, 14)]
   \<and> (\<exists>w. mpeg2_parse 1 (file_world [0, 0, 1, 0xB3, 0, 0, 1, 0, 7, 0, 0, 1, 0, 8]) = Some (0, w)
     \<and> listed 1 (file_parser [0, 0, 1, 0xB3, 0, 0, 1, 0, 7, 0, 0, 1, 0, 8]) (frames_of_units 0 [(0, 9), (9, 14)]) 0 w)"
proof -
  let ?data = "[0, 0, 1, 0xB3, 0, 0, 1, 0, 7, 0, 0, 1, 0, 8] :: u8 list"
  have s: "file_units (start_codes mpeg2_kind ?data) 14 = [(0, 9), (9, 14)]" by code_simp
  have z: "unat (psize (file_parser ?data)) = length (pvirt (file_parser ?data))" "length (pvirt (file_parser ?data)) < 2 ^ 32"
    "pvirt (file_parser ?data) = ?data" and len: "int (length ?data) = 14"
    by (simp_all add: file_parser_def)
  have S: "[(0, 9), (9, 14)] = file_units (start_codes mpeg2_kind (pvirt (file_parser ?data))) (int (length (pvirt (file_parser ?data))))"
    unfolding z(3) len s ..
  have l: "listed 1 (file_parser ?data) [] (Suc (length [(0 :: int, 9 :: int), (9, 14)])) (file_world ?data)"
    by (rule file_world_listed) simp
  have "limited (file_parser ?data) 0 us = us" for us :: "(int \<times> int) list" by (simp add: limited_def file_parser_def)
  then show ?thesis using mpeg2_units_found [OF z(1,2) S l] s by simp
qed

end
