(* ===== verification/H264.thy ===== *)
theory H264
  imports Startcode Bitstream
begin

text \<open>
  Where the frames of an H.264 stream begin (\<open>h264_parse.c\<close>): the sequence parameter set and the beginning of the header of a
  slice are read with the bit reader. \<open>None\<close> is a failed assertion, which aborts the program, or an access outside of a
  buffer, and a shift by 32 or more, which has no defined value.
\<close>

section \<open>Parameter sets and slice headers\<close>

record h264_parse_t =
  header_cnt :: u32
  config_found :: u32
  max_frame_num :: u32
  frame_mbs_only_flag :: u32
  tf_found :: u32
  bf_found :: u32
  pre_frame_num :: u32
  cur_frame_num :: u32
  field_cnt :: u32

definition MAX_SLICE_HDR_SZ :: u32 where "MAX_SLICE_HDR_SZ = 32"

text \<open>The loop of \<open>scaling_list\<close>: \<open>i\<close> scales have been read, \<open>n\<close> are left.\<close>

fun scaling_loop :: "nat \<Rightarrow> nat \<Rightarrow> u32 \<Rightarrow> u32 \<Rightarrow> bitstream_buf \<Rightarrow> bitstream_buf option" where
  "scaling_loop i 0 last_scale next_scale bs = Some bs"
| "scaling_loop i (Suc n) last_scale next_scale bs =
     do {
       (next_scale, bs) \<leftarrow> (if next_scale \<noteq> 0
         then do { (delta, bs) \<leftarrow> bs_read_svlc bs; Some ((last_scale + of_int delta + 256) AND 0xFF, bs) }
         else Some (next_scale, bs));
       if i = 0 \<and> next_scale = 0 then Some bs
       else scaling_loop (Suc i) n (if next_scale \<noteq> 0 then next_scale AND 0xFF else last_scale AND 0xFF) next_scale bs
     }"

definition scaling_list :: "nat \<Rightarrow> bitstream_buf \<Rightarrow> bitstream_buf option" where
  "scaling_list idx bs = scaling_loop 0 (if idx < 6 then 16 else 64) 8 8 bs"

fun scaling_lists :: "nat \<Rightarrow> nat \<Rightarrow> bitstream_buf \<Rightarrow> bitstream_buf option" where
  "scaling_lists i 0 bs = Some bs"
| "scaling_lists i (Suc n) bs =
     do {
       (value, bs) \<leftarrow> bs_read_flag bs;
       bs \<leftarrow> (if value \<noteq> 0 then scaling_list i bs else Some bs);
       scaling_lists (Suc i) n bs
     }"

fun skip_svlc :: "nat \<Rightarrow> bitstream_buf \<Rightarrow> bitstream_buf option" where
  "skip_svlc 0 bs = Some bs"
| "skip_svlc (Suc n) bs = do { (_, bs) \<leftarrow> bs_read_svlc bs; skip_svlc n bs }"

definition parse_high_profile :: "bitstream_buf \<Rightarrow> (unit \<times> bitstream_buf) option" where
  "parse_high_profile bs =
     do {
       (chroma_format_idc, bs) \<leftarrow> bs_read_uvlc bs;
       (_, bs) \<leftarrow> (if chroma_format_idc = 3 then bs_read_flag bs else Some (0, bs));
       (_, bs) \<leftarrow> bs_read_uvlc bs;
       (_, bs) \<leftarrow> bs_read_uvlc bs;
       (_, bs) \<leftarrow> bs_read_flag bs;
       (value, bs) \<leftarrow> bs_read_flag bs;
       if value \<noteq> 0
       then (if chroma_format_idc = 3 then None else map_option (Pair ()) (scaling_lists 0 8 bs))
       else Some ((), bs)
     }"

definition parse_poc_type :: "bitstream_buf \<Rightarrow> (unit \<times> bitstream_buf) option" where
  "parse_poc_type bs =
     do {
       (pic_order_cnt_type, bs) \<leftarrow> bs_read_uvlc bs;
       if pic_order_cnt_type = 0 then do { (_, bs) \<leftarrow> bs_read_uvlc bs; Some ((), bs) }
       else if pic_order_cnt_type = 1
       then do {
         (_, bs) \<leftarrow> bs_read_flag bs;
         (_, bs) \<leftarrow> bs_read_svlc bs;
         (_, bs) \<leftarrow> bs_read_svlc bs;
         (value, bs) \<leftarrow> bs_read_uvlc bs;
         map_option (Pair ()) (skip_svlc (unat value) bs)
       }
       else Some ((), bs)
     }"

definition parse_cropping :: "bitstream_buf \<Rightarrow> (unit \<times> bitstream_buf) option" where
  "parse_cropping bs =
     do {
       (value, bs) \<leftarrow> bs_read_flag bs;
       if value \<noteq> 0
       then do {
         (_, bs) \<leftarrow> bs_read_uvlc bs;
         (_, bs) \<leftarrow> bs_read_uvlc bs;
         (_, bs) \<leftarrow> bs_read_uvlc bs;
         (_, bs) \<leftarrow> bs_read_uvlc bs;
         Some ((), bs)
       }
       else Some ((), bs)
     }"

definition parse_sps_info :: "h264_parse_t \<Rightarrow> bitstream_buf \<Rightarrow> (h264_parse_t \<times> bitstream_buf) option" where
  "parse_sps_info info bs =
     do {
       (profile_idc, bs) \<leftarrow> bs_read_code bs 8;
       (_, bs) \<leftarrow> bs_read_flag bs;
       (_, bs) \<leftarrow> bs_read_flag bs;
       (_, bs) \<leftarrow> bs_read_flag bs;
       (_, bs) \<leftarrow> bs_read_flag bs;
       (_, bs) \<leftarrow> bs_read_flag bs;
       (_, bs) \<leftarrow> bs_read_flag bs;
       (_, bs) \<leftarrow> bs_read_code bs 2;
       (_, bs) \<leftarrow> bs_read_code bs 8;
       (_, bs) \<leftarrow> bs_read_uvlc bs;
       (_, bs) \<leftarrow> (if 100 \<le> profile_idc then parse_high_profile bs else Some ((), bs));
       (value, bs) \<leftarrow> bs_read_uvlc bs;
       info \<leftarrow> (if value + 4 < 32 then Some (info\<lparr>max_frame_num := push_bit (unat (value + 4)) 1\<rparr>) else None);
       (_, bs) \<leftarrow> parse_poc_type bs;
       (_, bs) \<leftarrow> bs_read_uvlc bs;
       (_, bs) \<leftarrow> bs_read_flag bs;
       (_, bs) \<leftarrow> bs_read_uvlc bs;
       (_, bs) \<leftarrow> bs_read_uvlc bs;
       (value, bs) \<leftarrow> bs_read_flag bs;
       let info = info\<lparr>frame_mbs_only_flag := value\<rparr>;
       (_, bs) \<leftarrow> (if value = 0 then bs_read_flag bs else Some (0, bs));
       (_, bs) \<leftarrow> bs_read_flag bs;
       (_, bs) \<leftarrow> parse_cropping bs;
       (_, bs) \<leftarrow> bs_read_flag bs;
       Some (info, bs)
     }"

text \<open>The loop \<open>while (info->max_frame_num >> i)\<close>, with \<open>n\<close> defined shifts left.\<close>

fun count_shifts :: "u32 \<Rightarrow> nat \<Rightarrow> nat \<Rightarrow> nat option" where
  "count_shifts m i 0 = None"
| "count_shifts m i (Suc n) = (if drop_bit i m \<noteq> 0 then count_shifts m (Suc i) n else Some i)"

text \<open>Whether the first slice of a picture begins a frame: the two fields of a frame are one.\<close>

definition slice_boundary :: "h264_parse_t \<Rightarrow> u32 \<Rightarrow> u32 \<Rightarrow> u32 \<Rightarrow> bool \<times> h264_parse_t" where
  "slice_boundary info frame_num field_pic_flag bottom_field_flag =
     (let info = info\<lparr>pre_frame_num := (if field_cnt info = 0 then -1 else cur_frame_num info)\<rparr>;
          info = info\<lparr>cur_frame_num := frame_num, field_cnt := field_cnt info + 1\<rparr>
      in if frame_mbs_only_flag info \<noteq> 0 then (True, info)
         else
           let (boundary, info) =
                 (if field_pic_flag = 0 then (True, info)
                  else
                    let (boundary, info) = (if bf_found info = tf_found info then (True, info\<lparr>tf_found := 0, bf_found := 0\<rparr>)
                                            else (False, info))
                    in (boundary, if bottom_field_flag \<noteq> 0 then info\<lparr>bf_found := 1\<rparr> else info\<lparr>tf_found := 1\<rparr>))
           in (boundary \<or> cur_frame_num info \<noteq> pre_frame_num info, info))"

definition parse_slice_header_info :: "h264_parse_t \<Rightarrow> bool \<Rightarrow> bitstream_buf \<Rightarrow> ((bool \<times> h264_parse_t) \<times> bitstream_buf) option" where
  "parse_slice_header_info info idr_flag bs =
     do {
       (first_mb_in_slice, bs) \<leftarrow> bs_read_uvlc bs;
       (_, bs) \<leftarrow> bs_read_uvlc bs;
       (_, bs) \<leftarrow> bs_read_uvlc bs;
       i \<leftarrow> count_shifts (max_frame_num info) 0 32;
       (frame_num, bs) \<leftarrow> bs_read_code bs (of_int (int i - 1));
       (field_pic_flag, bs) \<leftarrow> (if frame_mbs_only_flag info = 0 then bs_read_flag bs else Some (0, bs));
       (bottom_field_flag, bs) \<leftarrow> (if frame_mbs_only_flag info = 0 \<and> field_pic_flag \<noteq> 0 then bs_read_flag bs else Some (0, bs));
       let (boundary, info) = (if first_mb_in_slice = 0
                               then slice_boundary info frame_num field_pic_flag bottom_field_flag else (False, info));
       (_, bs) \<leftarrow> (if idr_flag then bs_read_uvlc bs else Some (0, bs));
       Some ((boundary, info), bs)
     }"


section \<open>NAL units\<close>

text \<open>
  \<open>psps\<close> is a static variable: where the last parameter set lies, in the file of which parser, until it has been read.
  \<open>this_file\<close> is the parser at work; a parameter set that was left in another file is no part of this one.
\<close>

record h264_scan =
  info :: h264_parse_t
  psps :: "(u64 \<times> nat) option"
  this_file :: u64

definition rbsp_reader :: "u8 list \<Rightarrow> nat \<Rightarrow> u32 \<Rightarrow> bitstream_buf option" where
  "rbsp_reader data off sz =
     do {
       nal \<leftarrow> (if 0 \<le> sint sz then nal_remove_emul_bytes (drop off data) (unat sz) 1 3 else Some []);
       Some (bs_init nal (of_nat (length nal)))
     }"

definition read_sps :: "u8 list \<Rightarrow> nat \<Rightarrow> h264_scan \<Rightarrow> h264_scan option" where
  "read_sps data off s =
     (case psps s of
        None \<Rightarrow> Some s
      | Some (file, o_sps) \<Rightarrow>
          if file \<noteq> this_file s then None
          else
            let sps_size = of_int (int off - int o_sps) in
            do {
              bs \<leftarrow> rbsp_reader data o_sps sps_size;
              (i, bs) \<leftarrow> parse_sps_info (info s) bs;
              if drop_bit 3 (bs_consumed_bits bs + 7) \<le> sps_size then Some (s\<lparr>info := i, psps := None\<rparr>) else None
            })"

definition h264_check_frame :: "u8 list \<Rightarrow> nat \<Rightarrow> u32 \<Rightarrow> h264_scan \<Rightarrow> (u32 \<times> h264_scan) option" where
  "h264_check_frame data off sz s =
     (if sz < 2 then Some (PARSER_TYPE_UNKNOWN, s)
      else do {
        b \<leftarrow> nth_opt data off;
        let ty = b AND 0x1F;
        s \<leftarrow> read_sps data off s;
        if ty = 1 \<or> ty = 5
        then (if header_cnt (info s) = 0 then Some (PARSER_TYPE_UNKNOWN, s)
              else do {
                bs \<leftarrow> rbsp_reader data off (min sz MAX_SLICE_HDR_SZ);
                ((new_frame, i), bs) \<leftarrow> parse_slice_header_info (info s) (ty = 5) bs;
                if drop_bit 3 (bs_consumed_bits bs + 7) \<le> MAX_SLICE_HDR_SZ
                then Some (if new_frame then PARSER_TYPE_FRAME else PARSER_TYPE_UNKNOWN, s\<lparr>info := i\<rparr>) else None
              })
        else if ty = 7
        then Some (PARSER_TYPE_CONFIG,
               s\<lparr>info := (info s)\<lparr>header_cnt := header_cnt (info s) + 1, config_found := 1\<rparr>, psps := Some (this_file s, off)\<rparr>)
        else if ty = 8 \<or> ty = 6 then Some (PARSER_TYPE_CONFIG, s\<lparr>info := (info s)\<lparr>config_found := 1\<rparr>\<rparr>)
        else Some (PARSER_TYPE_UNKNOWN, s)
      })"

definition h264_scode :: "h264_scan pitcher_parser_scode" where
  "h264_scode = \<lparr>scode = 1, smask = 0xFFFFFF, num = 3, extra_num = 4, extra_code = 1, extra_mask = 0xFFFFFFFF,
     force_extra_on_first = 0, check_frame = Some h264_check_frame, priv_data_size = 36\<rparr>"

definition no_h264_info :: h264_parse_t where
  "no_h264_info = \<lparr>header_cnt = 0, config_found = 0, max_frame_num = 0, frame_mbs_only_flag = 0, tf_found = 0, bf_found = 0,
     pre_frame_num = 0, cur_frame_num = 0, field_cnt = 0\<rparr>"

text \<open>The static variable goes in and comes out.\<close>

definition h264_parse :: "(u64 \<times> nat) option \<Rightarrow> u64 \<Rightarrow> 'e pworld \<Rightarrow> (int \<times> (u64 \<times> nat) option \<times> 'e pworld) option" where
  "h264_parse sps p w = map_option (\<lambda>(r, s, w). (r, psps s, w))
     (pitcher_parse_startcode p h264_scode \<lparr>info = no_h264_info, psps = sps, this_file = p\<rparr> w)"


section \<open>Codes in front of a reader\<close>

text \<open>\<open>decodes f bits v\<close>: on a reader in front of these bits \<open>f\<close> returns \<open>v\<close> and leaves the rest.\<close>

definition decodes :: "(bitstream_buf \<Rightarrow> ('a \<times> bitstream_buf) option) \<Rightarrow> bool list \<Rightarrow> 'a \<Rightarrow> bool" where
  "decodes f bits v \<longleftrightarrow> (\<forall>bs rest. bs_wf bs \<and> bs_bits bs = bits @ rest
     \<longrightarrow> (\<exists>bs'. f bs = Some (v, bs') \<and> bs_bits bs' = rest \<and> bs_wf bs'))"

lemma decodes_return: "decodes (\<lambda>bs. Some (v, bs)) [] v"
  by (simp add: decodes_def)

lemma decodes_bind:
  assumes "decodes f xs u" and "decodes (g u) ys v"
  shows "decodes (\<lambda>bs. f bs \<bind> (\<lambda>(u, bs). g u bs)) (xs @ ys) v"
  unfolding decodes_def
proof (intro allI impI, elim conjE)
  fix bs rest assume "bs_wf bs" "bs_bits bs = (xs @ ys) @ rest"
  then obtain bs' where "f bs = Some (u, bs')" "bs_bits bs' = ys @ rest" "bs_wf bs'"
    using assms(1) by (auto simp: decodes_def)
  then show "\<exists>bs'. f bs \<bind> (\<lambda>(u, bs). g u bs) = Some (v, bs') \<and> bs_bits bs' = rest \<and> bs_wf bs'"
    using assms(2) by (auto simp: decodes_def)
qed

lemma decodes_uvlc: "v + 1 < 2 ^ 31 \<Longrightarrow> decodes bs_read_uvlc (ue_bits v) (of_nat v)"
  unfolding decodes_def using bs_read_uvlc_ue by blast

lemma decodes_flag: "decodes bs_read_flag [b] (of_bool b)"
  unfolding decodes_def bs_read_flag_def using bs_read_bit by fastforce

lemma decodes_code:
  assumes "0 < n" and "n \<le> 32" and "k < 2 ^ n"
  shows "decodes (\<lambda>bs. bs_read_code bs (of_nat n)) (nat_bits n k) (of_nat k)"
proof -
  have "(0 :: u32) < of_nat n" using assms(1,2) by (simp add: word_less_nat_alt unat_of_nat take_bit_nat_eq_self)
  moreover have "bits_val (nat_bits n k) = (of_nat k :: u32)"
    using bits_val_nat_bits [OF assms(2), of k] assms(3) by (simp add: take_bit_nat_eq_self)
  ultimately show ?thesis
    using bs_read_bits [where xs = "nat_bits n k"] assms(2) unfolding decodes_def bs_read_code_def by fastforce
qed


section \<open>The syntax of the standard\<close>

text \<open>
  A parameter set without the extensions of the high profiles, and the beginning of a slice header, as bits
  (H.264, clauses 7.3.2.1.1 and 7.3.3).
\<close>

record sps =
  sps_profile :: nat
  sps_constraints :: "bool \<times> bool \<times> bool \<times> bool \<times> bool \<times> bool"
  sps_level :: nat
  sps_id :: nat
  sps_log2_max_frame_num_minus4 :: nat
  sps_log2_max_poc_minus4 :: nat
  sps_num_ref_frames :: nat
  sps_gaps_allowed :: bool
  sps_width :: nat
  sps_height :: nat
  sps_frame_mbs_only :: bool
  sps_mb_adaptive :: bool
  sps_direct_8x8 :: bool
  sps_cropping :: "(nat \<times> nat \<times> nat \<times> nat) option"
  sps_vui :: bool

definition crop_bits :: "(nat \<times> nat \<times> nat \<times> nat) option \<Rightarrow> bool list" where
  "crop_bits c = (case c of None \<Rightarrow> [False]
     | Some (l, r, t, b) \<Rightarrow> [True] @ ue_bits l @ ue_bits r @ ue_bits t @ ue_bits b)"

definition sps_bits :: "sps \<Rightarrow> bool list" where
  "sps_bits s = (case sps_constraints s of (c0, c1, c2, c3, c4, c5) \<Rightarrow>
     nat_bits 8 (sps_profile s) @ [c0] @ [c1] @ [c2] @ [c3] @ [c4] @ [c5] @ nat_bits 2 0 @ nat_bits 8 (sps_level s)
     @ ue_bits (sps_id s) @ ue_bits (sps_log2_max_frame_num_minus4 s) @ (ue_bits 0 @ ue_bits (sps_log2_max_poc_minus4 s))
     @ ue_bits (sps_num_ref_frames s) @ [sps_gaps_allowed s] @ ue_bits (sps_width s) @ ue_bits (sps_height s)
     @ [sps_frame_mbs_only s] @ (if sps_frame_mbs_only s then [] else [sps_mb_adaptive s]) @ [sps_direct_8x8 s]
     @ crop_bits (sps_cropping s) @ [sps_vui s])"

definition sps_ok :: "sps \<Rightarrow> bool" where
  "sps_ok s \<longleftrightarrow> sps_profile s < 100 \<and> sps_level s < 256 \<and> sps_log2_max_frame_num_minus4 s \<le> 12
     \<and> (\<forall>v \<in> {sps_id s, sps_log2_max_poc_minus4 s, sps_num_ref_frames s, sps_width s, sps_height s}
            \<union> (case sps_cropping s of None \<Rightarrow> {} | Some (l, r, t, b) \<Rightarrow> {l, r, t, b}). v + 1 < 2 ^ 31)"

lemma decodes_cropping:
  assumes "\<forall>v \<in> (case c of None \<Rightarrow> {} | Some (l, r, t, b) \<Rightarrow> {l, r, t, b}). v + 1 < 2 ^ 31"
  shows "decodes parse_cropping (crop_bits c) ()"
proof (cases c)
  case None
  have "decodes parse_cropping ([False] @ []) ()"
    unfolding parse_cropping_def by (rule decodes_bind [OF decodes_flag]) (simp add: decodes_return)
  then show ?thesis using None by (simp add: crop_bits_def)
next
  case (Some x)
  obtain l r t b where x: "x = (l, r, t, b)" by (cases x) auto
  have v: "l + 1 < 2 ^ 31" "r + 1 < 2 ^ 31" "t + 1 < 2 ^ 31" "b + 1 < 2 ^ 31" using assms Some x by simp_all
  have "decodes parse_cropping ([True] @ ue_bits l @ ue_bits r @ ue_bits t @ ue_bits b @ []) ()"
    unfolding parse_cropping_def
    by (rule decodes_bind [OF decodes_flag], simp only: of_bool_eq if_True one_neq_zero not_False_eq_True)
      (rule decodes_bind decodes_uvlc decodes_return v)+
  then show ?thesis using Some x by (simp add: crop_bits_def)
qed

lemma decodes_then: "c \<Longrightarrow> decodes f xs v \<Longrightarrow> decodes (\<lambda>bs. if c then f bs else g bs) xs v"
  by simp

lemma decodes_poc:
  assumes "v + 1 < 2 ^ 31"
  shows "decodes parse_poc_type (ue_bits 0 @ ue_bits v) ()"
proof -
  have z: "(0 :: nat) + 1 < 2 ^ 31" and ze: "of_nat 0 = (0 :: u32)" by simp_all
  have "decodes parse_poc_type (ue_bits 0 @ ue_bits v @ []) ()"
    unfolding parse_poc_type_def
    by (rule decodes_bind decodes_uvlc decodes_then [OF ze] decodes_return assms z)+
  then show ?thesis by simp
qed

lemma decodes_byte_code: "k < 2 ^ n \<Longrightarrow> 0 < n \<Longrightarrow> n \<le> 32 \<Longrightarrow> u = of_nat n \<Longrightarrow> decodes (\<lambda>bs. bs_read_code bs u) (nat_bits n k) (of_nat k)"
  using decodes_code by simp

lemma decodes_else: "\<not> c \<Longrightarrow> decodes g xs v \<Longrightarrow> decodes (\<lambda>bs. if c then f bs else g bs) xs v"
  by simp

lemma decodes_pure: "x = Some u \<Longrightarrow> decodes (g u) ys v \<Longrightarrow> decodes (\<lambda>bs. x \<bind> (\<lambda>u. g u bs)) ys v"
  by simp

lemma parse_sps_bits:
  assumes "sps_ok s"
  shows "decodes (parse_sps_info h) (sps_bits s)
    (h\<lparr>max_frame_num := 2 ^ (sps_log2_max_frame_num_minus4 s + 4), frame_mbs_only_flag := of_bool (sps_frame_mbs_only s)\<rparr>)"
proof -
  let ?v = "sps_log2_max_frame_num_minus4 s" and ?f = "sps_frame_mbs_only s"
  obtain c0 c1 c2 c3 c4 c5 where c: "sps_constraints s = (c0, c1, c2, c3, c4, c5)" by (cases "sps_constraints s") auto
  have b: "sps_id s + 1 < 2 ^ 31" "?v + 1 < 2 ^ 31" "sps_log2_max_poc_minus4 s + 1 < 2 ^ 31" "sps_num_ref_frames s + 1 < 2 ^ 31"
    "sps_width s + 1 < 2 ^ 31" "sps_height s + 1 < 2 ^ 31" "sps_profile s < 2 ^ 8" "sps_level s < 2 ^ 8" "(0 :: nat) < 2 ^ 2"
    "(0 :: nat) < 8" "(8 :: nat) \<le> 32" "(0 :: nat) < 2" "(2 :: nat) \<le> 32" "8 = (of_nat 8 :: u32)" "2 = (of_nat 2 :: u32)"
    using assms by (simp_all add: sps_ok_def)
  have crop: "decodes parse_cropping (crop_bits (sps_cropping s)) ()" by (rule decodes_cropping) (use assms in \<open>simp add: sps_ok_def\<close>)
  have profile: "\<not> 100 \<le> (of_nat (sps_profile s) :: u32)"
    using assms by (simp add: sps_ok_def word_le_nat_alt unat_of_nat take_bit_nat_eq_self)
  have v: "?v \<le> 12" using assms by (simp add: sps_ok_def)
  then have u: "unat ((of_nat ?v :: u32) + 4) = ?v + 4"
    by (simp add: unat_word_ariths unat_of_nat take_bit_nat_eq_self)
  let ?h = "h\<lparr>max_frame_num := 2 ^ (?v + 4)\<rparr>"
  have num: "(if of_nat ?v + 4 < (32 :: u32) then Some (h\<lparr>max_frame_num := push_bit (unat ((of_nat ?v :: u32) + 4)) 1\<rparr>) else None) = Some ?h"
    using v u by (simp add: word_less_nat_alt push_bit_eq_mult)
  have mb: "decodes (\<lambda>bs. if of_bool ?f = (0 :: u32) then bs_read_flag bs else Some (0, bs))
      (if ?f then [] else [sps_mb_adaptive s]) (if ?f then 0 else of_bool (sps_mb_adaptive s))"
    using decodes_flag decodes_return by (cases ?f) simp_all
  have "decodes (parse_sps_info h) (nat_bits 8 (sps_profile s) @ [c0] @ [c1] @ [c2] @ [c3] @ [c4] @ [c5] @ nat_bits 2 0
     @ nat_bits 8 (sps_level s) @ ue_bits (sps_id s) @ [] @ ue_bits ?v @ (ue_bits 0 @ ue_bits (sps_log2_max_poc_minus4 s))
     @ ue_bits (sps_num_ref_frames s) @ [sps_gaps_allowed s] @ ue_bits (sps_width s) @ ue_bits (sps_height s)
     @ [?f] @ (if ?f then [] else [sps_mb_adaptive s]) @ [sps_direct_8x8 s] @ crop_bits (sps_cropping s) @ [sps_vui s] @ [])
     (?h\<lparr>frame_mbs_only_flag := of_bool ?f\<rparr>)"
    unfolding parse_sps_info_def Let_def
    by (rule decodes_bind decodes_uvlc decodes_flag decodes_byte_code decodes_poc decodes_else [OF profile] decodes_return
        decodes_pure [OF num] crop mb b)+
  then show ?thesis by (simp add: sps_bits_def c)
qed


section \<open>Slice headers\<close>

lemma drop_bit_power: "n < 32 \<Longrightarrow> drop_bit i (2 ^ n :: u32) = (if i \<le> n then 2 ^ (n - i) else 0)"
  by (rule bit_eqI) (auto simp: bit_simps)

lemma count_shifts_power: "n < 32 \<Longrightarrow> i \<le> n + 1 \<Longrightarrow> n + 1 < i + k \<Longrightarrow> count_shifts (2 ^ n) i k = Some (n + 1)"
proof (induction k arbitrary: i)
  case (Suc k)
  show ?case
  proof (cases "i \<le> n")
    case True
    then have "(2 ^ (n - i) :: u32) \<noteq> 0" using Suc.prems(1) by (simp add: power_eq_0_iff)
    then show ?thesis using Suc True by (simp add: drop_bit_power)
  next
    case False
    then have "i = n + 1" using Suc.prems by simp
    then show ?thesis using Suc.prems(1) by (simp add: drop_bit_power)
  qed
qed simp

record slice =
  sl_first_mb :: nat
  sl_type :: nat
  sl_pps :: nat
  sl_frame_num :: nat
  sl_field :: "bool option"
  sl_idr :: "nat option"

definition slice_header :: "nat \<Rightarrow> bool \<Rightarrow> slice \<Rightarrow> bool list" where
  "slice_header n frame_mbs_only s =
     ue_bits (sl_first_mb s) @ ue_bits (sl_type s) @ ue_bits (sl_pps s) @ nat_bits n (sl_frame_num s)
     @ (if frame_mbs_only then [] else [sl_field s \<noteq> None]) @ (case sl_field s of None \<Rightarrow> [] | Some bottom \<Rightarrow> [bottom])
     @ (case sl_idr s of None \<Rightarrow> [] | Some i \<Rightarrow> ue_bits i)"

definition slice_ok :: "nat \<Rightarrow> bool \<Rightarrow> slice \<Rightarrow> bool" where
  "slice_ok n frame_mbs_only s \<longleftrightarrow> sl_first_mb s + 1 < 2 ^ 31 \<and> sl_type s + 1 < 2 ^ 31 \<and> sl_pps s + 1 < 2 ^ 31
     \<and> sl_frame_num s < 2 ^ n \<and> (frame_mbs_only \<longrightarrow> sl_field s = None)
     \<and> (case sl_idr s of None \<Rightarrow> True | Some i \<Rightarrow> i + 1 < 2 ^ 31)"

definition slice_effect :: "h264_parse_t \<Rightarrow> slice \<Rightarrow> bool \<times> h264_parse_t" where
  "slice_effect h s = (if sl_first_mb s = 0
     then slice_boundary h (of_nat (sl_frame_num s)) (of_bool (sl_field s \<noteq> None)) (of_bool (sl_field s = Some True))
     else (False, h))"

lemma decodes_slice:
  assumes h: "max_frame_num h = 2 ^ n" "frame_mbs_only_flag h = of_bool fmo" and n: "0 < n" "n \<le> 16" and s: "slice_ok n fmo s"
  shows "decodes (parse_slice_header_info h (sl_idr s \<noteq> None)) (slice_header n fmo s) (slice_effect h s)"
proof -
  have b: "sl_first_mb s + 1 < 2 ^ 31" "sl_type s + 1 < 2 ^ 31" "sl_pps s + 1 < 2 ^ 31" "sl_frame_num s < 2 ^ n" "n \<le> 32"
    using s n by (simp_all add: slice_ok_def)
  have code: "(of_int (int (n + 1) - 1) :: u32) = of_nat n" by simp
  have shifts: "count_shifts (max_frame_num h) 0 32 = Some (n + 1)"
    using n h(1) by (simp add: count_shifts_power)
  have first: "(of_nat (sl_first_mb s) :: u32) = 0 \<longleftrightarrow> sl_first_mb s = 0"
    using b(1) by (simp add: word_eq_iff_unsigned unat_of_nat take_bit_nat_eq_self flip: unat_eq_zero)
  have pic: "decodes (\<lambda>bs. if frame_mbs_only_flag h = 0 then bs_read_flag bs else Some (0, bs))
      (if fmo then [] else [sl_field s \<noteq> None]) (of_bool (sl_field s \<noteq> None))"
    using decodes_flag decodes_return h(2) s by (cases fmo) (simp_all add: slice_ok_def)
  have field: "decodes (\<lambda>bs. if frame_mbs_only_flag h = 0 \<and> of_bool (sl_field s \<noteq> None) \<noteq> (0 :: u32) then bs_read_flag bs else Some (0, bs))
      (case sl_field s of None \<Rightarrow> [] | Some bottom \<Rightarrow> [bottom]) (of_bool (sl_field s = Some True))"
    using decodes_flag [of True] decodes_flag [of False] decodes_return h(2) s
    by (cases fmo; cases "sl_field s"; cases "the (sl_field s)") (simp_all add: slice_ok_def)
  have idr: "\<exists>u. decodes (\<lambda>bs. if sl_idr s \<noteq> None then bs_read_uvlc bs else Some (0, bs)) (case sl_idr s of None \<Rightarrow> [] | Some i \<Rightarrow> ue_bits i) u"
  proof (cases "sl_idr s")
    case (Some i)
    then have "i + 1 < 2 ^ 31" using s by (simp add: slice_ok_def)
    then show ?thesis using Some decodes_uvlc by auto
  qed (auto intro: decodes_return)
  then obtain u where idr: "decodes (\<lambda>bs. if sl_idr s \<noteq> None then bs_read_uvlc bs else Some (0, bs))
      (case sl_idr s of None \<Rightarrow> [] | Some i \<Rightarrow> ue_bits i) u" ..
  have "decodes (parse_slice_header_info h (sl_idr s \<noteq> None)) (ue_bits (sl_first_mb s) @ ue_bits (sl_type s) @ ue_bits (sl_pps s)
      @ nat_bits n (sl_frame_num s) @ (if fmo then [] else [sl_field s \<noteq> None])
      @ (case sl_field s of None \<Rightarrow> [] | Some bottom \<Rightarrow> [bottom]) @ (case sl_idr s of None \<Rightarrow> [] | Some i \<Rightarrow> ue_bits i) @ [])
      (slice_effect h s)"
    unfolding parse_slice_header_info_def
    apply (rule decodes_bind decodes_uvlc b)+
    apply (rule decodes_pure, rule shifts)
    apply (rule decodes_bind, rule decodes_byte_code, rule b, rule n, rule b, rule code)
    apply (rule decodes_bind, rule pic, rule decodes_bind, rule field)
    apply (simp only: first slice_effect_def [symmetric] Let_def)
    apply (cases "slice_effect h s", simp only: prod.case)
    apply (rule decodes_bind, rule idr, simp only: decodes_return)
    done
  then show ?thesis by (simp add: slice_header_def)
qed

text \<open>The slices of a stream are read one after the other, each from a reader on its unit.\<close>

fun read_slices :: "h264_parse_t \<Rightarrow> (bool \<times> bitstream_buf) list \<Rightarrow> (bool list \<times> h264_parse_t) option" where
  "read_slices h [] = Some ([], h)"
| "read_slices h ((idr_flag, bs) # us) =
     do { ((new_frame, h), _) \<leftarrow> parse_slice_header_info h idr_flag bs; (fs, h) \<leftarrow> read_slices h us; Some (new_frame # fs, h) }"

fun slice_effects :: "h264_parse_t \<Rightarrow> slice list \<Rightarrow> bool list \<times> h264_parse_t" where
  "slice_effects h [] = ([], h)"
| "slice_effects h (s # ss) = (let (b, h) = slice_effect h s; (bs, h) = slice_effects h ss in (b # bs, h))"

definition carries :: "nat \<Rightarrow> bool \<Rightarrow> slice \<Rightarrow> bool \<times> bitstream_buf \<Rightarrow> bool" where
  "carries n fmo s u \<longleftrightarrow> fst u = (sl_idr s \<noteq> None) \<and> bs_wf (snd u)
     \<and> take (length (slice_header n fmo s)) (bs_bits (snd u)) = slice_header n fmo s"

lemma slice_effect_same:
  "max_frame_num (snd (slice_effect h s)) = max_frame_num h" "frame_mbs_only_flag (snd (slice_effect h s)) = frame_mbs_only_flag h"
  by (auto simp: slice_effect_def slice_boundary_def Let_def split: prod.split if_splits)

lemma read_slices_effects:
  assumes "max_frame_num h = 2 ^ n" "frame_mbs_only_flag h = of_bool fmo" "0 < n" "n \<le> 16"
    and "list_all2 (carries n fmo) ss us" and "list_all (slice_ok n fmo) ss"
  shows "read_slices h us = Some (slice_effects h ss)"
  using assms(5,1,2,6)
proof (induction arbitrary: h rule: list_all2_induct)
  case (Cons s ss u us)
  obtain idr bs where u: "u = (idr, bs)" by (cases u)
  have c: "idr = (sl_idr s \<noteq> None)" "bs_wf bs"
    "bs_bits bs = slice_header n fmo s @ drop (length (slice_header n fmo s)) (bs_bits bs)"
    using Cons.hyps(1) append_take_drop_id [of "length (slice_header n fmo s)" "bs_bits bs"] by (simp_all add: carries_def u)
  have "decodes (parse_slice_header_info h (sl_idr s \<noteq> None)) (slice_header n fmo s) (slice_effect h s)"
    by (rule decodes_slice) (use Cons.prems assms(3,4) in auto)
  then obtain bs' where "parse_slice_header_info h idr bs = Some (slice_effect h s, bs')"
    using c unfolding decodes_def by blast
  moreover obtain b h1 where e: "slice_effect h s = (b, h1)" by (cases "slice_effect h s")
  moreover have "read_slices h1 us = Some (slice_effects h1 ss)"
    by (rule Cons.IH) (use Cons.prems slice_effect_same [of h s] e in auto)
  ultimately show ?case by (simp add: u split: prod.split)
qed simp


section \<open>Pictures\<close>

text \<open>A coded picture is a frame, or two fields of opposite parity with one frame number, each with its slices.\<close>

datatype picture = Frame "slice list" | Fields bool "slice list" "slice list"

definition field_ok :: "nat \<Rightarrow> bool option \<Rightarrow> slice list \<Rightarrow> bool" where
  "field_ok k f ss \<longleftrightarrow> ss \<noteq> [] \<and> sl_first_mb (hd ss) = 0 \<and> list_all (\<lambda>s. sl_first_mb s \<noteq> 0) (tl ss)
     \<and> list_all (\<lambda>s. sl_field s = f \<and> sl_frame_num s = k) ss"

fun picture_ok :: "picture \<Rightarrow> bool" where
  "picture_ok (Frame ss) = field_ok (sl_frame_num (hd ss)) None ss"
| "picture_ok (Fields bottom xs ys) =
     (field_ok (sl_frame_num (hd xs)) (Some bottom) xs \<and> field_ok (sl_frame_num (hd xs)) (Some (\<not> bottom)) ys)"

fun picture_slices :: "picture \<Rightarrow> slice list" where
  "picture_slices (Frame ss) = ss"
| "picture_slices (Fields bottom xs ys) = xs @ ys"

definition one_start :: "picture \<Rightarrow> bool list" where
  "one_start p = True # replicate (length (picture_slices p) - 1) False"

lemma slice_effects_append:
  "slice_effects h (xs @ ys) = (let (a, h) = slice_effects h xs; (b, h) = slice_effects h ys in (a @ b, h))"
  by (induction xs arbitrary: h) (simp_all add: Let_def split: prod.split)

lemma slice_effects_rest: "list_all (\<lambda>s. sl_first_mb s \<noteq> 0) ss \<Longrightarrow> slice_effects h ss = (replicate (length ss) False, h)"
  by (induction ss) (simp_all add: slice_effect_def)

lemma slice_effects_field:
  assumes "field_ok k f ss"
  shows "slice_effects h ss = (let (b, h) = slice_boundary h (of_nat k) (of_bool (f \<noteq> None)) (of_bool (f = Some True))
    in (b # replicate (length ss - 1) False, h))"
  using assms by (cases ss) (simp_all add: field_ok_def slice_effects_rest slice_effect_def split: prod.split)

text \<open>Between two pictures as many top fields as bottom fields have been found since the last frame.\<close>

lemma picture_effects:
  assumes "picture_ok p" and "bf_found h = tf_found h" and "unat (field_cnt h) + 2 < 2 ^ 32"
    and "frame_mbs_only_flag h \<noteq> 0 \<longrightarrow> (\<forall>s \<in> set (picture_slices p). sl_field s = None)"
  shows "\<exists>h'. slice_effects h (picture_slices p) = (one_start p, h') \<and> bf_found h' = tf_found h'
    \<and> unat (field_cnt h') \<le> unat (field_cnt h) + 2 \<and> frame_mbs_only_flag h' = frame_mbs_only_flag h"
proof -
  have cnt: "unat (field_cnt h + 1) = unat (field_cnt h) + 1" "unat (field_cnt h + 2) = unat (field_cnt h) + 2"
    using assms(3) by (simp_all add: unat_word_ariths)
  then have nz: "field_cnt h + 1 \<noteq> 0" by (metis Suc_eq_plus1 nat.distinct(1) unat_0)
  show ?thesis
  proof (cases p)
    case (Frame ss)
    then have "field_ok (sl_frame_num (hd ss)) None ss" using assms(1) by simp
    note e = slice_effects_field [OF this]
    show ?thesis using assms(2) cnt
      by (simp add: Frame e one_start_def slice_boundary_def Let_def)
  next
    case (Fields bottom xs ys)
    then have ok: "field_ok (sl_frame_num (hd xs)) (Some bottom) xs" "field_ok (sl_frame_num (hd xs)) (Some (\<not> bottom)) ys"
      using assms(1) by simp_all
    have ne: "xs \<noteq> []" "ys \<noteq> []" using ok by (auto simp: field_ok_def)
    have "sl_field (hd xs) = Some bottom" using ok(1) by (cases xs) (auto simp: field_ok_def)
    then have fmo: "frame_mbs_only_flag h = 0" using assms(4) Fields ne(1) by auto
    have len: "replicate (length xs - 1) False @ False # replicate (length ys - 1) False = replicate (length (xs @ ys) - 1) False"
      using ne replicate_add [of "length xs - 1" "length ys" False] by (cases xs; cases ys) simp_all
    show ?thesis using assms(2) cnt nz fmo len
      by (cases bottom)
        (simp_all add: Fields slice_effects_append slice_effects_field [OF ok(1)] slice_effects_field [OF ok(2)] one_start_def
          slice_boundary_def Let_def add.assoc)
  qed
qed

lemma pictures_effects:
  assumes "list_all picture_ok ps" and "bf_found h = tf_found h" and "unat (field_cnt h) + 2 * length ps < 2 ^ 32"
    and "frame_mbs_only_flag h \<noteq> 0 \<longrightarrow> (\<forall>s \<in> set (concat (map picture_slices ps)). sl_field s = None)"
  shows "fst (slice_effects h (concat (map picture_slices ps))) = concat (map one_start ps)"
  using assms
proof (induction ps arbitrary: h)
  case (Cons p ps)
  have "\<exists>h'. slice_effects h (picture_slices p) = (one_start p, h') \<and> bf_found h' = tf_found h'
    \<and> unat (field_cnt h') \<le> unat (field_cnt h) + 2 \<and> frame_mbs_only_flag h' = frame_mbs_only_flag h"
    by (rule picture_effects) (use Cons.prems in auto)
  then obtain h' where h': "slice_effects h (picture_slices p) = (one_start p, h')" "bf_found h' = tf_found h'"
    "unat (field_cnt h') \<le> unat (field_cnt h) + 2" "frame_mbs_only_flag h' = frame_mbs_only_flag h" by blast
  have "fst (slice_effects h' (concat (map picture_slices ps))) = concat (map one_start ps)"
    by (rule Cons.IH) (use Cons.prems h' in auto)
  then show ?case using h'(1)
    by (cases "slice_effects h' (concat (map picture_slices ps))") (simp add: slice_effects_append)
qed simp

definition demo_sps :: sps where
  "demo_sps = \<lparr>sps_profile = 66, sps_constraints = (False, False, False, False, False, False), sps_level = 30, sps_id = 0,
     sps_log2_max_frame_num_minus4 = 0, sps_log2_max_poc_minus4 = 0, sps_num_ref_frames = 1, sps_gaps_allowed = False,
     sps_width = 10, sps_height = 8, sps_frame_mbs_only = False, sps_mb_adaptive = False, sps_direct_8x8 = True,
     sps_cropping = None, sps_vui = False\<rparr>"

definition demo_slice :: "nat \<Rightarrow> bool option \<Rightarrow> nat option \<Rightarrow> slice" where
  "demo_slice k f i = \<lparr>sl_first_mb = 0, sl_type = 2, sl_pps = 0, sl_frame_num = k, sl_field = f, sl_idr = i\<rparr>"

definition demo_pictures :: "picture list" where
  "demo_pictures = [Fields False [demo_slice 0 (Some False) (Some 0)] [demo_slice 0 (Some True) None], Frame [demo_slice 1 None None]]"

definition demo_readers :: "(bool \<times> bitstream_buf) list" where
  "demo_readers = [(True, bs_init [184, 80] 2), (False, bs_init [184, 96] 2), (False, bs_init [184, 128] 2)]"

text \<open>C16: The H.264 parser reads what the standard writes. From a sequence parameter set (of a profile below 100, with pictures
  ordered by type 0) it takes the widths the slice headers depend on and stops right behind it; then, over the slices of any
  coded pictures, frames or pairs of fields, each with one or more slices, a new frame is announced at the first slice of each
  picture and nowhere else: the second field of a picture does not begin a frame.\<close>

theorem h264_pictures_found:
  assumes "bs_wf sps_reader" and "bs_bits sps_reader = sps_bits s @ rest" and "sps_ok s"
    and "bf_found h = tf_found h" and "unat (field_cnt h) + 2 * length ps < 2 ^ 32" and "list_all picture_ok ps"
    and "list_all (slice_ok (sps_log2_max_frame_num_minus4 s + 4) (sps_frame_mbs_only s)) (concat (map picture_slices ps))"
    and "list_all2 (carries (sps_log2_max_frame_num_minus4 s + 4) (sps_frame_mbs_only s)) (concat (map picture_slices ps)) readers"
  shows "\<exists>h1 bs1 h2. parse_sps_info h sps_reader = Some (h1, bs1) \<and> bs_bits bs1 = rest
    \<and> read_slices h1 readers = Some (concat (map one_start ps), h2)"
proof -
  let ?n = "sps_log2_max_frame_num_minus4 s + 4"
  let ?h = "h\<lparr>max_frame_num := 2 ^ ?n, frame_mbs_only_flag := of_bool (sps_frame_mbs_only s)\<rparr>"
  obtain bs1 where p: "parse_sps_info h sps_reader = Some (?h, bs1)" "bs_bits bs1 = rest"
    using parse_sps_bits [OF assms(3), of h] assms(1,2) unfolding decodes_def by blast
  have "read_slices ?h readers = Some (slice_effects ?h (concat (map picture_slices ps)))"
    by (rule read_slices_effects) (use assms(3,7,8) in \<open>auto simp: sps_ok_def\<close>)
  moreover have "fst (slice_effects ?h (concat (map picture_slices ps))) = concat (map one_start ps)"
    by (rule pictures_effects) (use assms(4-7) in \<open>auto simp: list_all_iff slice_ok_def\<close>)
  ultimately show ?thesis using p by (cases "slice_effects ?h (concat (map picture_slices ps))") auto
qed

theorem h264_pictures_found_witness:
  "\<exists>h1 bs1 h2. parse_sps_info no_h264_info (bs_init [66, 0, 30, 244, 22, 36, 128] 7) = Some (h1, bs1)
     \<and> map fst demo_readers = [True, False, False]
     \<and> read_slices h1 demo_readers = Some ([True, False, True], h2)"
proof -
  let ?r = "bs_init [66, 0, 30, 244, 22, 36, 128] 7"
  have wf: "bs_wf ?r" by (simp add: bs_wf_def bs_init_def)
  have bits: "bs_bits ?r = sps_bits demo_sps @ replicate 5 False" by code_simp
  have ok: "sps_ok demo_sps" by (simp add: sps_ok_def demo_sps_def)
  have h: "bf_found no_h264_info = tf_found no_h264_info" "unat (field_cnt no_h264_info) + 2 * length demo_pictures < 2 ^ 32"
    by (simp_all add: no_h264_info_def demo_pictures_def)
  have pics: "list_all picture_ok demo_pictures"
    by (simp add: demo_pictures_def field_ok_def demo_slice_def)
  have slices: "list_all (slice_ok (sps_log2_max_frame_num_minus4 demo_sps + 4) (sps_frame_mbs_only demo_sps))
      (concat (map picture_slices demo_pictures))"
    by (simp add: demo_pictures_def slice_ok_def demo_slice_def demo_sps_def)
  have c: "carries 4 False (demo_slice 0 (Some False) (Some 0)) (True, bs_init [184, 80] 2)"
    "carries 4 False (demo_slice 0 (Some True) None) (False, bs_init [184, 96] 2)"
    "carries 4 False (demo_slice 1 None None) (False, bs_init [184, 128] 2)"
    unfolding carries_def by (simp_all add: bs_wf_def bs_init_def demo_slice_def, code_simp+)
  have readers: "list_all2 (carries (sps_log2_max_frame_num_minus4 demo_sps + 4) (sps_frame_mbs_only demo_sps))
      (concat (map picture_slices demo_pictures)) demo_readers"
    using c by (simp add: demo_pictures_def demo_readers_def demo_sps_def)
  have starts: "concat (map one_start demo_pictures) = [True, False, True]"
    by (simp add: demo_pictures_def one_start_def)
  show ?thesis
    using h264_pictures_found [OF wf bits ok h pics slices readers] unfolding starts by (auto simp: demo_readers_def)
qed

end
