(* ===== verification/Pixfmt.thy ===== *)
theory Pixfmt
  imports Queue
begin

text \<open>
  The formats of pixels and of compressed video (\<open>pitcher/pixfmt.c\<close>, \<open>pixfmt.h\<close>): the table of formats, its lookups by name
  and by four-character code, and how large the lines and planes of a picture are.

  The header files of Linux are not part of the program: \<open>v4l2_env\<close> holds the macro that packs four characters into a
  code and the values of the constants \<open>V4L2_PIX_FMT_...\<close>.
\<close>

section \<open>The table of formats\<close>

datatype pixel_format = PIX_FMT_I420 | PIX_FMT_NV12 | PIX_FMT_NV21 | PIX_FMT_NV16 | PIX_FMT_YUYV | PIX_FMT_YUV24
   | PIX_FMT_I420_10LE | PIX_FMT_NV12_10LE | PIX_FMT_NV12_8L128 | PIX_FMT_NV12_10BE_8L128 | PIX_FMT_DTRC
   | PIX_FMT_DTRC10 | PIX_FMT_P010 | PIX_FMT_P012 | PIX_FMT_P016 | PIX_FMT_NVX2 | PIX_FMT_RFC | PIX_FMT_RFCX
   | PIX_FMT_RGB24 | PIX_FMT_RGB565 | PIX_FMT_BGR565 | PIX_FMT_RGB555 | PIX_FMT_RGBA | PIX_FMT_BGR32 | PIX_FMT_ARGB
   | PIX_FMT_RGBX | PIX_FMT_BGR24 | PIX_FMT_ABGR | PIX_FMT_BGR48_12 | PIX_FMT_ABGR64_12 | PIX_FMT_GRAY | PIX_FMT_Y012
   | PIX_FMT_Y16 | PIX_FMT_Y212 | PIX_FMT_YUV48_12 | PIX_FMT_H264 | PIX_FMT_H265 | PIX_FMT_VP8 | PIX_FMT_VP9
   | PIX_FMT_VP6 | PIX_FMT_VC1L | PIX_FMT_VC1G | PIX_FMT_XVID | PIX_FMT_DIVX | PIX_FMT_MPEG4 | PIX_FMT_MPEG2
   | PIX_FMT_H263 | PIX_FMT_AVS | PIX_FMT_SPK | PIX_FMT_RV30 | PIX_FMT_RV40 | PIX_FMT_JPEG

text \<open>The values of the enumeration, the last of them first one that is none of the formats, and the one for no format.\<close>

primrec pix_fmt_number :: "pixel_format \<Rightarrow> u32" where
  "pix_fmt_number PIX_FMT_I420 = 0"
| "pix_fmt_number PIX_FMT_NV12 = 1"
| "pix_fmt_number PIX_FMT_NV21 = 2"
| "pix_fmt_number PIX_FMT_NV16 = 3"
| "pix_fmt_number PIX_FMT_YUYV = 4"
| "pix_fmt_number PIX_FMT_YUV24 = 5"
| "pix_fmt_number PIX_FMT_I420_10LE = 6"
| "pix_fmt_number PIX_FMT_NV12_10LE = 7"
| "pix_fmt_number PIX_FMT_NV12_8L128 = 8"
| "pix_fmt_number PIX_FMT_NV12_10BE_8L128 = 9"
| "pix_fmt_number PIX_FMT_DTRC = 10"
| "pix_fmt_number PIX_FMT_DTRC10 = 11"
| "pix_fmt_number PIX_FMT_P010 = 12"
| "pix_fmt_number PIX_FMT_P012 = 13"
| "pix_fmt_number PIX_FMT_P016 = 14"
| "pix_fmt_number PIX_FMT_NVX2 = 15"
| "pix_fmt_number PIX_FMT_RFC = 16"
| "pix_fmt_number PIX_FMT_RFCX = 17"
| "pix_fmt_number PIX_FMT_RGB24 = 18"
| "pix_fmt_number PIX_FMT_RGB565 = 19"
| "pix_fmt_number PIX_FMT_BGR565 = 20"
| "pix_fmt_number PIX_FMT_RGB555 = 21"
| "pix_fmt_number PIX_FMT_RGBA = 22"
| "pix_fmt_number PIX_FMT_BGR32 = 23"
| "pix_fmt_number PIX_FMT_ARGB = 24"
| "pix_fmt_number PIX_FMT_RGBX = 25"
| "pix_fmt_number PIX_FMT_BGR24 = 26"
| "pix_fmt_number PIX_FMT_ABGR = 27"
| "pix_fmt_number PIX_FMT_BGR48_12 = 28"
| "pix_fmt_number PIX_FMT_ABGR64_12 = 29"
| "pix_fmt_number PIX_FMT_GRAY = 30"
| "pix_fmt_number PIX_FMT_Y012 = 31"
| "pix_fmt_number PIX_FMT_Y16 = 32"
| "pix_fmt_number PIX_FMT_Y212 = 33"
| "pix_fmt_number PIX_FMT_YUV48_12 = 34"
| "pix_fmt_number PIX_FMT_H264 = 35"
| "pix_fmt_number PIX_FMT_H265 = 36"
| "pix_fmt_number PIX_FMT_VP8 = 37"
| "pix_fmt_number PIX_FMT_VP9 = 38"
| "pix_fmt_number PIX_FMT_VP6 = 39"
| "pix_fmt_number PIX_FMT_VC1L = 40"
| "pix_fmt_number PIX_FMT_VC1G = 41"
| "pix_fmt_number PIX_FMT_XVID = 42"
| "pix_fmt_number PIX_FMT_DIVX = 43"
| "pix_fmt_number PIX_FMT_MPEG4 = 44"
| "pix_fmt_number PIX_FMT_MPEG2 = 45"
| "pix_fmt_number PIX_FMT_H263 = 46"
| "pix_fmt_number PIX_FMT_AVS = 47"
| "pix_fmt_number PIX_FMT_SPK = 48"
| "pix_fmt_number PIX_FMT_RV30 = 49"
| "pix_fmt_number PIX_FMT_RV40 = 50"
| "pix_fmt_number PIX_FMT_JPEG = 51"

definition PIX_FMT_NB :: u32 where "PIX_FMT_NB = 52"
definition PIX_FMT_NONE :: u32 where "PIX_FMT_NONE = 0xFFFFFFFF"
definition PIX_FMT_COMPRESSED :: u32 where "PIX_FMT_COMPRESSED = pix_fmt_number PIX_FMT_H264"

definition pixel_formats :: "pixel_format list" where
  "pixel_formats = [PIX_FMT_I420, PIX_FMT_NV12, PIX_FMT_NV21, PIX_FMT_NV16, PIX_FMT_YUYV, PIX_FMT_YUV24, PIX_FMT_I420_10LE,
     PIX_FMT_NV12_10LE, PIX_FMT_NV12_8L128, PIX_FMT_NV12_10BE_8L128, PIX_FMT_DTRC, PIX_FMT_DTRC10,
     PIX_FMT_P010, PIX_FMT_P012, PIX_FMT_P016, PIX_FMT_NVX2, PIX_FMT_RFC, PIX_FMT_RFCX, PIX_FMT_RGB24,
     PIX_FMT_RGB565, PIX_FMT_BGR565, PIX_FMT_RGB555, PIX_FMT_RGBA, PIX_FMT_BGR32, PIX_FMT_ARGB, PIX_FMT_RGBX,
     PIX_FMT_BGR24, PIX_FMT_ABGR, PIX_FMT_BGR48_12, PIX_FMT_ABGR64_12, PIX_FMT_GRAY, PIX_FMT_Y012,
     PIX_FMT_Y16, PIX_FMT_Y212, PIX_FMT_YUV48_12, PIX_FMT_H264, PIX_FMT_H265, PIX_FMT_VP8, PIX_FMT_VP9,
     PIX_FMT_VP6, PIX_FMT_VC1L, PIX_FMT_VC1G, PIX_FMT_XVID, PIX_FMT_DIVX, PIX_FMT_MPEG4, PIX_FMT_MPEG2,
     PIX_FMT_H263, PIX_FMT_AVS, PIX_FMT_SPK, PIX_FMT_RV30, PIX_FMT_RV40, PIX_FMT_JPEG]"

record v4l2_env =
  fourcc :: "string \<Rightarrow> u32"
  fmt_const :: "string \<Rightarrow> u32"

definition VPU_PIX_FMT_AVS :: "v4l2_env \<Rightarrow> u32" where "VPU_PIX_FMT_AVS v = fourcc v ''AVS0''"
definition VPU_PIX_FMT_VP6 :: "v4l2_env \<Rightarrow> u32" where "VPU_PIX_FMT_VP6 v = fourcc v ''VP60''"
definition VPU_PIX_FMT_SPK :: "v4l2_env \<Rightarrow> u32" where "VPU_PIX_FMT_SPK v = fourcc v ''SPK0''"
definition VPU_PIX_FMT_DIVX :: "v4l2_env \<Rightarrow> u32" where "VPU_PIX_FMT_DIVX v = fourcc v ''DIVX''"
definition V4L2_PIX_FMT_BGR565 :: "v4l2_env \<Rightarrow> u32" where "V4L2_PIX_FMT_BGR565 v = fourcc v ''BGRP''"

text \<open>The components are those that are given; the others of the eight are 0.\<close>

record pixel_format_desc =
  fd_name :: "string option"
  fd_fourcc :: u32
  fd_fourcc_nc :: u32
  fd_num_planes :: u32
  log2_chroma_w :: u32
  log2_chroma_h :: u32
  comp :: "(u32 \<times> u32) list"
  fd_tile_ws :: u32
  fd_tile_hs :: u32

definition pix_desc :: "string \<Rightarrow> u32 \<Rightarrow> u32 \<Rightarrow> u32 \<Rightarrow> u32 \<Rightarrow> u32 \<Rightarrow> (u32 \<times> u32) list \<Rightarrow> u32 \<Rightarrow> u32 \<Rightarrow> pixel_format_desc" where
  "pix_desc name fcc fcc_nc n lw lh cs tw th =
     \<lparr>fd_name = Some name, fd_fourcc = fcc, fd_fourcc_nc = fcc_nc, fd_num_planes = n, log2_chroma_w = lw,
      log2_chroma_h = lh, comp = cs, fd_tile_ws = tw, fd_tile_hs = th\<rparr>"

definition yuv_descriptors :: "v4l2_env \<Rightarrow> (pixel_format \<times> pixel_format_desc) list" where
  "yuv_descriptors v =
    [(PIX_FMT_I420, pix_desc ''i420'' (fmt_const v ''YUV420'') (fmt_const v ''YUV420M'') 3 1 1 [(8, 8), (8, 8), (8, 8)] 0 0),
     (PIX_FMT_NV12, pix_desc ''nv12'' (fmt_const v ''NV12'') (fmt_const v ''NV12M'') 2 1 1 [(8, 8), (16, 8)] 0 0),
     (PIX_FMT_NV21, pix_desc ''nv21'' (fmt_const v ''NV21'') (fmt_const v ''NV21M'') 2 1 1 [(8, 8), (16, 8)] 0 0),
     (PIX_FMT_NV16, pix_desc ''nv16'' (fmt_const v ''NV16'') (fmt_const v ''NV16M'') 2 1 0 [(8, 8), (16, 8)] 0 0),
     (PIX_FMT_YUYV, pix_desc ''yuyv'' (fmt_const v ''YUYV'') 0 1 0 0 [(16, 8)] 0 0),
     (PIX_FMT_YUV24, pix_desc ''yuv24'' (fmt_const v ''YUV24'') 0 1 0 0 [(24, 8)] 0 0),
     (PIX_FMT_I420_10LE, pix_desc ''yuv420p10le'' 0 0 3 1 1 [(16, 10), (16, 10), (16, 10)] 0 0),
     (PIX_FMT_NV12_10LE, pix_desc ''yuv420sp10le'' 0 0 2 1 1 [(16, 10), (32, 10)] 0 0)]"

definition tiled_descriptors :: "v4l2_env \<Rightarrow> (pixel_format \<times> pixel_format_desc) list" where
  "tiled_descriptors v =
    [(PIX_FMT_NV12_8L128, pix_desc ''na12'' 0 (fmt_const v ''NV12M_8L128'') 2 1 1 [(8, 8), (16, 8)] 8 128),
     (PIX_FMT_NV12_10BE_8L128, pix_desc ''nt12'' 0 (fmt_const v ''NV12M_10BE_8L128'') 2 1 1 [(10, 10), (20, 10)] 8 128),
     (PIX_FMT_DTRC, pix_desc ''dtrc'' (fourcc v ''DTRC'') 0 2 1 1 [(8, 8), (16, 8)] 4 4),
     (PIX_FMT_DTRC10, pix_desc ''dtrc10'' (fourcc v ''DTRX'') 0 2 1 1 [(10, 10), (20, 10)] 5 4),
     (PIX_FMT_P010, pix_desc ''p010'' (fourcc v ''P010'') 0 2 1 1 [(16, 10), (32, 10)] 0 0),
     (PIX_FMT_P012, pix_desc ''p012'' (fourcc v ''P012'') (fourcc v ''PM12'') 2 1 1 [(16, 12), (32, 12)] 0 0),
     (PIX_FMT_P016, pix_desc ''p016'' (fourcc v ''P016'') (fourcc v ''PM16'') 2 1 1 [(16, 16), (32, 16)] 0 0),
     (PIX_FMT_NVX2, pix_desc ''nvx2'' (fourcc v ''NVX2'') 0 2 1 1 [(10, 10), (20, 10)] 0 0),
     (PIX_FMT_RFC, pix_desc ''rfc'' (fourcc v ''RFC0'') 0 1 0 0 [] 0 0),
     (PIX_FMT_RFCX, pix_desc ''rfcx'' (fourcc v ''RFCX'') 0 1 0 0 [] 0 0)]"

definition packed_descriptors :: "v4l2_env \<Rightarrow> (pixel_format \<times> pixel_format_desc) list" where
  "packed_descriptors v =
    [(PIX_FMT_RGB24, pix_desc ''rgb888'' (fmt_const v ''RGB24'') 0 1 0 0 [(24, 8)] 0 0),
     (PIX_FMT_RGB565, pix_desc ''rgb565'' (fmt_const v ''RGB565'') 0 1 0 0 [(16, 6)] 0 0),
     (PIX_FMT_BGR565, pix_desc ''bgr565'' (V4L2_PIX_FMT_BGR565 v) 0 1 0 0 [(16, 6)] 0 0),
     (PIX_FMT_RGB555, pix_desc ''rgb555'' (fmt_const v ''RGB555'') 0 1 0 0 [(16, 5)] 0 0),
     (PIX_FMT_RGBA, pix_desc ''rgba'' (fmt_const v ''RGBA32'') 0 1 0 0 [(32, 8)] 0 0),
     (PIX_FMT_BGR24, pix_desc ''bgr'' (fmt_const v ''BGR24'') 0 1 0 0 [(24, 8)] 0 0),
     (PIX_FMT_BGR32, pix_desc ''bgr32'' (fmt_const v ''BGR32'') 0 1 0 0 [(32, 8)] 0 0),
     (PIX_FMT_ARGB, pix_desc ''argb'' (fmt_const v ''ARGB32'') 0 1 0 0 [(32, 8)] 0 0),
     (PIX_FMT_RGBX, pix_desc ''rgbx'' (fmt_const v ''RGBX32'') 0 1 0 0 [(32, 8)] 0 0),
     (PIX_FMT_ABGR, pix_desc ''abgr'' (fmt_const v ''ABGR32'') 0 1 0 0 [(32, 8)] 0 0),
     (PIX_FMT_BGR48_12, pix_desc ''bgr48_12'' (fourcc v ''B312'') 0 1 0 0 [(48, 12)] 0 0),
     (PIX_FMT_ABGR64_12, pix_desc ''abgr64_12'' (fourcc v ''B412'') 0 1 0 0 [(64, 12)] 0 0),
     (PIX_FMT_GRAY, pix_desc ''gray'' (fmt_const v ''GREY'') 0 1 0 0 [(8, 8)] 0 0),
     (PIX_FMT_Y012, pix_desc ''y012'' (fourcc v ''Y012'') 0 1 0 0 [(16, 12)] 0 0),
     (PIX_FMT_Y16, pix_desc ''y16'' (fmt_const v ''Y16'') 0 1 0 0 [(16, 16)] 0 0),
     (PIX_FMT_Y212, pix_desc ''y212'' (fourcc v ''Y212'') 0 1 0 0 [(32, 12)] 0 0),
     (PIX_FMT_YUV48_12, pix_desc ''yuv48_12'' (fourcc v ''Y312'') 0 1 0 0 [(48, 12)] 0 0)]"

definition compressed_descriptors :: "v4l2_env \<Rightarrow> (pixel_format \<times> pixel_format_desc) list" where
  "compressed_descriptors v =
    [(PIX_FMT_H264, pix_desc ''h264'' (fmt_const v ''H264'') 0 1 0 0 [] 0 0),
     (PIX_FMT_H265, pix_desc ''h265'' (fmt_const v ''HEVC'') 0 1 0 0 [] 0 0),
     (PIX_FMT_VP8, pix_desc ''vp8'' (fmt_const v ''VP8'') 0 1 0 0 [] 0 0),
     (PIX_FMT_VP9, pix_desc ''vp9'' (fmt_const v ''VP9'') 0 1 0 0 [] 0 0),
     (PIX_FMT_VP6, pix_desc ''vp6'' (VPU_PIX_FMT_VP6 v) 0 1 0 0 [] 0 0),
     (PIX_FMT_VC1L, pix_desc ''vc1l'' (fmt_const v ''VC1_ANNEX_L'') 0 1 0 0 [] 0 0),
     (PIX_FMT_VC1G, pix_desc ''vc1g'' (fmt_const v ''VC1_ANNEX_G'') 0 1 0 0 [] 0 0),
     (PIX_FMT_XVID, pix_desc ''xvid'' (fmt_const v ''XVID'') 0 1 0 0 [] 0 0),
     (PIX_FMT_DIVX, pix_desc ''divx'' (VPU_PIX_FMT_DIVX v) 0 1 0 0 [] 0 0),
     (PIX_FMT_MPEG4, pix_desc ''mpeg4'' (fmt_const v ''MPEG4'') 0 1 0 0 [] 0 0),
     (PIX_FMT_MPEG2, pix_desc ''mpeg2'' (fmt_const v ''MPEG2'') 0 1 0 0 [] 0 0),
     (PIX_FMT_H263, pix_desc ''h263'' (fmt_const v ''H263'') 0 1 0 0 [] 0 0),
     (PIX_FMT_AVS, pix_desc ''avs'' (VPU_PIX_FMT_AVS v) 0 1 0 0 [] 0 0),
     (PIX_FMT_SPK, pix_desc ''spk'' (VPU_PIX_FMT_SPK v) 0 1 0 0 [] 0 0),
     (PIX_FMT_RV30, pix_desc ''rv30'' (fourcc v ''RV30'') 0 1 0 0 [] 0 0),
     (PIX_FMT_RV40, pix_desc ''rv40'' (fourcc v ''RV40'') 0 1 0 0 [] 0 0),
     (PIX_FMT_JPEG, pix_desc ''jpeg'' (fmt_const v ''JPEG'') 0 1 0 0 [] 0 0)]"

text \<open>The array: entries that are not initialised are 0.\<close>

definition no_desc :: pixel_format_desc where
  "no_desc = \<lparr>fd_name = None, fd_fourcc = 0, fd_fourcc_nc = 0, fd_num_planes = 0, log2_chroma_w = 0, log2_chroma_h = 0,
     comp = [], fd_tile_ws = 0, fd_tile_hs = 0\<rparr>"

definition all_descriptors :: "v4l2_env \<Rightarrow> (pixel_format \<times> pixel_format_desc) list" where
  "all_descriptors v = yuv_descriptors v @ tiled_descriptors v @ packed_descriptors v @ compressed_descriptors v"

definition pix_fmt_descriptors :: "v4l2_env \<Rightarrow> pixel_format_desc list" where
  "pix_fmt_descriptors v =
     map (\<lambda>f. case map_of (all_descriptors v) f of None \<Rightarrow> no_desc | Some d \<Rightarrow> d) pixel_formats"

definition comp_bpp :: "pixel_format_desc \<Rightarrow> nat \<Rightarrow> u32" where
  "comp_bpp d i = (if i < length (comp d) then fst (comp d ! i) else 0)"


section \<open>Lookups\<close>

text \<open>\<open>strcasecmp\<close>, in the C locale: whether the strings are equal but for the case of letters.\<close>

definition lower :: "char \<Rightarrow> char" where
  "lower c = (if of_char c \<in> {65 .. 90 :: nat} then char_of (of_char c + 32 :: nat) else c)"

definition same_ignoring_case :: "string \<Rightarrow> string \<Rightarrow> bool" where
  "same_ignoring_case s t \<longleftrightarrow> map lower s = map lower t"

fun name_loop :: "string \<Rightarrow> u32 \<Rightarrow> pixel_format_desc list \<Rightarrow> u32" where
  "name_loop name format [] = PIX_FMT_NONE"
| "name_loop name format (d # ds) =
     (case fd_name d of
        None \<Rightarrow> name_loop name (format + 1) ds
      | Some n \<Rightarrow> if same_ignoring_case name n then format else name_loop name (format + 1) ds)"

definition pitcher_get_format_by_name :: "v4l2_env \<Rightarrow> string option \<Rightarrow> u32" where
  "pitcher_get_format_by_name v name =
     (case name of
        None \<Rightarrow> PIX_FMT_NONE
      | Some name \<Rightarrow>
          if same_ignoring_case name ''yuv420p'' then pix_fmt_number PIX_FMT_I420
          else name_loop name 0 (pix_fmt_descriptors v))"

fun fourcc_loop :: "u32 \<Rightarrow> u32 \<Rightarrow> pixel_format_desc list \<Rightarrow> u32" where
  "fourcc_loop code format [] = PIX_FMT_NONE"
| "fourcc_loop code format (d # ds) =
     (if fd_fourcc_nc d = code then format
      else if fd_fourcc d = code then format
      else fourcc_loop code (format + 1) ds)"

definition pitcher_get_format_by_fourcc :: "v4l2_env \<Rightarrow> u32 \<Rightarrow> u32" where
  "pitcher_get_format_by_fourcc v code = fourcc_loop code 0 (pix_fmt_descriptors v)"

definition pitcher_get_format_num_planes :: "v4l2_env \<Rightarrow> u32 \<Rightarrow> u32" where
  "pitcher_get_format_num_planes v format =
     (if PIX_FMT_NB \<le> format then 0 else fd_num_planes (pix_fmt_descriptors v ! unat format))"

definition pitcher_get_format_name :: "v4l2_env \<Rightarrow> u32 \<Rightarrow> string option" where
  "pitcher_get_format_name v format =
     (if PIX_FMT_NB \<le> format then Some ''unknown foramt'' else fd_name (pix_fmt_descriptors v ! unat format))"

text \<open>\<open>None\<close> is the null pointer.\<close>

definition pitcher_get_format_desc_by_name :: "v4l2_env \<Rightarrow> string option \<Rightarrow> pixel_format_desc option" where
  "pitcher_get_format_desc_by_name v name =
     (let format = pitcher_get_format_by_name v name
      in if format = PIX_FMT_NONE then None else Some (pix_fmt_descriptors v ! unat format))"


section \<open>Sizes of lines and planes\<close>

record pix_plane_info =
  pl_line :: u32
  pl_size :: u32

record pix_fmt_info =
  pf_format :: u32
  pf_desc :: "pixel_format_desc option"
  pf_width :: u32
  pf_height :: u32
  pf_interlaced :: u32
  pf_size :: u64
  pf_num_planes :: u32
  pf_planes :: "pix_plane_info list"
  pf_tile_ws :: u32
  pf_tile_hs :: u32

definition pitcher_fill_plane_desc :: "u32 \<Rightarrow> u32 \<Rightarrow> pix_plane_info" where
  "pitcher_fill_plane_desc line h = \<lparr>pl_line = line, pl_size = line * h\<rparr>"

text \<open>One iteration of the loop of \<open>pitcher_get_pix_fmt_info\<close>; \<open>None\<close> is a division by 0.\<close>

definition plane_geometry :: "pixel_format_desc \<Rightarrow> u32 \<Rightarrow> u32 \<Rightarrow> u32 \<Rightarrow> u32 \<Rightarrow> u32 \<Rightarrow> nat \<Rightarrow> pix_plane_info option" where
  "plane_geometry d width height al_w al_h alignment i =
     (let w = ALIGN width al_w; h = ALIGN height al_h; lw = unat (log2_chroma_w d); lh = unat (log2_chroma_h d)
      in do {
        (w, h, align) \<leftarrow>
          (if i \<noteq> 0
           then (if comp_bpp d 0 = 0 then None
                 else
                   let h = (if fd_tile_hs d \<noteq> 0 then ALIGN height (push_bit lh al_h) else h)
                   in Some (drop_bit lw w, drop_bit lh h, DIV_ROUND_UP (drop_bit lw (alignment * comp_bpp d i)) (comp_bpp d 0)))
           else Some (w, h, alignment));
        let align = (if align = 0 then 1 else align);
        let line = (if comp_bpp d i \<noteq> 0 then drop_bit 3 (ALIGN (w * comp_bpp d i) 8) else w);
        let line = ALIGN line align;
        Some (pitcher_fill_plane_desc line h)
      })"

text \<open>The loop: \<open>i\<close> planes are done, \<open>n\<close> are left.\<close>

fun planes_loop :: "pixel_format_desc \<Rightarrow> u32 \<Rightarrow> u32 \<Rightarrow> u32 \<Rightarrow> u32 \<Rightarrow> u32 \<Rightarrow> nat \<Rightarrow> nat \<Rightarrow> pix_plane_info list \<Rightarrow> u32
    \<Rightarrow> (pix_plane_info list \<times> u32) option" where
  "planes_loop d width height al_w al_h alignment i 0 pls sz = Some (pls, sz)"
| "planes_loop d width height al_w al_h alignment i (Suc n) pls sz =
     do {
       p \<leftarrow> plane_geometry d width height al_w al_h alignment i;
       if i < length pls then planes_loop d width height al_w al_h alignment (Suc i) n (pls[i := p]) (sz + pl_size p) else None
     }"

definition pitcher_get_pix_fmt_info :: "v4l2_env \<Rightarrow> pix_fmt_info option \<Rightarrow> u32 \<Rightarrow> (int \<times> pix_fmt_info option) option" where
  "pitcher_get_pix_fmt_info v i alignment =
     (case i of
        None \<Rightarrow> Some (err RET_E_NULL_POINTER, None)
      | Some info \<Rightarrow>
          if PIX_FMT_NB \<le> pf_format info \<or> pf_width info = 0 \<or> pf_height info = 0 then Some (err RET_E_INVAL, Some info)
          else
            let alignment = (if alignment = 0 then 1 else alignment);
                d = pix_fmt_descriptors v ! unat (pf_format info);
                al_w = push_bit (unat (log2_chroma_w d)) 1;
                al_h = push_bit (unat (log2_chroma_h d)) 1;
                al_w = (if fd_tile_ws d \<noteq> 0 then max al_w (fd_tile_ws d) else al_w);
                al_h = (if fd_tile_hs d \<noteq> 0 then max al_h (fd_tile_hs d) else al_h);
                al_h = (if pf_interlaced info \<noteq> 0 then push_bit 1 al_h else al_h)
            in do {
              (pls, sz) \<leftarrow> planes_loop d (pf_width info) (pf_height info) al_w al_h alignment 0 (unat (fd_num_planes d))
                (pf_planes info) 0;
              let info = info\<lparr>pf_planes := pls, pf_num_planes := fd_num_planes d, pf_desc := Some d, pf_tile_ws := fd_tile_ws d,
                pf_tile_hs := fd_tile_hs d\<rparr>;
              let info = (if pf_size info < ucast sz then info\<lparr>pf_size := ucast sz\<rparr> else info);
              Some (ret_val RET_OK, Some info)
            })"

text \<open>The arguments are \<open>None\<close> when they are null pointers.\<close>

definition pitcher_compare_format :: "pix_fmt_info option \<Rightarrow> pix_fmt_info option \<Rightarrow> int" where
  "pitcher_compare_format src dst =
     (case (src, dst) of
        (Some s, Some d) \<Rightarrow>
          if pf_format s \<noteq> pf_format d then err RET_E_NOT_MATCH
          else if pf_width s \<noteq> pf_width d then err RET_E_NOT_MATCH
          else if pf_height s \<noteq> pf_height d then err RET_E_NOT_MATCH
          else if pf_interlaced s \<noteq> pf_interlaced d then err RET_E_NOT_MATCH
          else 0
      | _ \<Rightarrow> err RET_E_NULL_POINTER)"


section \<open>The table\<close>

lemma pix_fmt_number_nth: "map pix_fmt_number pixel_formats = map of_nat [0..<52]"
  by (simp add: pixel_formats_def upt_rec numeral_eq_Suc)

definition format_names :: "string list" where
  "format_names = [''i420'', ''nv12'', ''nv21'', ''nv16'', ''yuyv'', ''yuv24'', ''yuv420p10le'', ''yuv420sp10le'', ''na12'', ''nt12'',
     ''dtrc'', ''dtrc10'', ''p010'', ''p012'', ''p016'', ''nvx2'', ''rfc'', ''rfcx'', ''rgb888'', ''rgb565'', ''bgr565'', ''rgb555'',
     ''rgba'', ''bgr32'', ''argb'', ''rgbx'', ''bgr'', ''abgr'', ''bgr48_12'', ''abgr64_12'', ''gray'', ''y012'', ''y16'', ''y212'',
     ''yuv48_12'', ''h264'', ''h265'', ''vp8'', ''vp9'', ''vp6'', ''vc1l'', ''vc1g'', ''xvid'', ''divx'', ''mpeg4'', ''mpeg2'', ''h263'',
     ''avs'', ''spk'', ''rv30'', ''rv40'', ''jpeg'']"

lemma length_formats: "length pixel_formats = 52" "length format_names = 52" "length (pix_fmt_descriptors v) = 52"
  by (simp_all add: pixel_formats_def format_names_def pix_fmt_descriptors_def)

lemma initialised: "set pixel_formats = fst ` set (all_descriptors v)"
proof -
  have "map fst (all_descriptors v) = map fst (all_descriptors \<lparr>fourcc = (\<lambda>_. 0), fmt_const = (\<lambda>_. 0)\<rparr>)"
    by (simp add: all_descriptors_def yuv_descriptors_def tiled_descriptors_def packed_descriptors_def compressed_descriptors_def)
  moreover have "set pixel_formats = set (map fst (all_descriptors \<lparr>fourcc = (\<lambda>_. 0), fmt_const = (\<lambda>_. 0)\<rparr>))"
    by code_simp
  ultimately have "set pixel_formats = set (map fst (all_descriptors v))" by (simp only:)
  then show ?thesis by simp
qed

text \<open>What holds of every initialiser of the table holds of its entries.\<close>

lemma table_entry:
  assumes "i < 52" and "list_all (\<lambda>(f, d). P f d) (all_descriptors v)"
  shows "P (pixel_formats ! i) (pix_fmt_descriptors v ! i)"
proof -
  let ?f = "pixel_formats ! i"
  have "?f \<in> fst ` set (all_descriptors v)" using assms(1) by (simp add: length_formats flip: initialised)
  then obtain d where d: "map_of (all_descriptors v) ?f = Some d" by (metis map_of_eq_None_iff not_None_eq)
  then have "P ?f d" using assms(2) by (auto simp: list_all_iff dest: map_of_SomeD)
  then show ?thesis using assms(1) d by (simp add: pix_fmt_descriptors_def length_formats)
qed

lemmas descriptor_defs = all_descriptors_def yuv_descriptors_def tiled_descriptors_def packed_descriptors_def
  compressed_descriptors_def pix_desc_def

lemma table_name_at:
  assumes "i < 52"
  shows "fd_name (pix_fmt_descriptors v ! i) = Some (format_names ! i)"
proof -
  have "map (\<lambda>f. format_names ! unat (pix_fmt_number f)) pixel_formats = format_names"
    by code_simp
  then have "format_names ! unat (pix_fmt_number (pixel_formats ! i)) = format_names ! i"
    using assms by (metis length_formats(1) nth_map)
  moreover have "fd_name (pix_fmt_descriptors v ! i) = Some (format_names ! unat (pix_fmt_number (pixel_formats ! i)))"
    by (rule table_entry [OF assms, where P = "\<lambda>f d. fd_name d = Some (format_names ! unat (pix_fmt_number f))"])
      (simp add: descriptor_defs format_names_def)
  ultimately show ?thesis by simp
qed

lemma table_names: "map fd_name (pix_fmt_descriptors v) = map Some format_names"
  by (rule nth_equalityI) (simp_all add: length_formats table_name_at)


lemma name_loop_none:
  "map fd_name ds = map Some ns \<Longrightarrow> \<forall>n \<in> set ns. \<not> same_ignoring_case s n \<Longrightarrow> name_loop s k ds = PIX_FMT_NONE"
proof (induction ds arbitrary: k ns)
  case (Cons d ds)
  then obtain n ms where "ns = n # ms" by (cases ns) auto
  then show ?case using Cons by auto
qed simp

lemma name_loop_at:
  "map fd_name ds = map Some ns \<Longrightarrow> i < length ns \<Longrightarrow> same_ignoring_case s (ns ! i) \<Longrightarrow> \<forall>j < i. \<not> same_ignoring_case s (ns ! j)
    \<Longrightarrow> name_loop s k ds = k + of_nat i"
proof (induction ds arbitrary: k ns i)
  case (Cons d ds)
  then obtain n ms where ns: "ns = n # ms" "fd_name d = Some n" "map fd_name ds = map Some ms" by (cases ns) auto
  show ?case
  proof (cases i)
    case 0
    then show ?thesis using Cons.prems ns by simp
  next
    case (Suc i')
    then have "name_loop s (k + 1) ds = k + 1 + of_nat i'"
      using Cons.IH [OF ns(3), of i' "k + 1"] Cons.prems ns(1) by fastforce
    moreover have "\<not> same_ignoring_case s n" using Cons.prems(4) ns(1) Suc by fastforce
    ultimately show ?thesis using ns Suc by (simp add: add.assoc)
  qed
qed simp

lemma names_distinct: "distinct (map (map lower) format_names)" "map lower ''yuv420p'' \<notin> set (map (map lower) format_names)"
  by code_simp+

lemma format_position:
  obtains i where "i < 52" "pixel_formats ! i = f" "pix_fmt_number f = of_nat i"
proof -
  have "f \<in> set pixel_formats" by (cases f) (simp_all add: pixel_formats_def)
  then obtain i where i: "i < 52" "pixel_formats ! i = f" by (metis in_set_conv_nth length_formats(1))
  have "map pix_fmt_number pixel_formats ! i = map of_nat [0..<52] ! i" by (simp only: pix_fmt_number_nth)
  then have "pix_fmt_number f = of_nat i" using i by (simp add: length_formats)
  with i show ?thesis by (rule that)
qed

lemma number_small: "i < 52 \<Longrightarrow> \<not> PIX_FMT_NB \<le> (of_nat i :: u32)" "i < 52 \<Longrightarrow> unat (of_nat i :: u32) = i"
  by (simp_all add: word_le_nat_alt unat_of_nat take_bit_nat_eq_self PIX_FMT_NB_def)

lemma number_inj: "i < 52 \<Longrightarrow> j < 52 \<Longrightarrow> (of_nat i :: u32) = of_nat j \<longleftrightarrow> i = j"
  using number_small(2) by metis

lemma number_not_none: "i < 52 \<Longrightarrow> (of_nat i :: u32) \<noteq> PIX_FMT_NONE"
  using number_small(1) [of i] by (auto simp: PIX_FMT_NB_def PIX_FMT_NONE_def)

lemma same_name_unique:
  assumes "same_ignoring_case s (format_names ! i)" and "i < 52" and "j < 52"
  shows "same_ignoring_case s (format_names ! j) \<longleftrightarrow> j = i"
  using nth_eq_iff_index_eq [OF names_distinct(1), of i j] assms by (auto simp: same_ignoring_case_def length_formats)

lemma by_name_at:
  assumes "i < 52" and "\<not> same_ignoring_case s ''yuv420p''"
  shows "pitcher_get_format_by_name v (Some s) = of_nat i \<longleftrightarrow> same_ignoring_case s (format_names ! i)"
proof (cases "\<exists>j < 52. same_ignoring_case s (format_names ! j)")
  case True
  then obtain j where j: "j < 52" "same_ignoring_case s (format_names ! j)" by blast
  have "name_loop s 0 (pix_fmt_descriptors v) = 0 + of_nat j"
    by (rule name_loop_at [OF table_names]) (use j same_name_unique [OF j(2,1)] in \<open>auto simp: length_formats\<close>)
  then show ?thesis using assms j same_name_unique [OF j(2,1) assms(1)] number_inj [OF j(1) assms(1)]
    by (auto simp: pitcher_get_format_by_name_def)
next
  case False
  then have "\<forall>n \<in> set format_names. \<not> same_ignoring_case s n" by (metis in_set_conv_nth length_formats(2))
  then have "name_loop s 0 (pix_fmt_descriptors v) = PIX_FMT_NONE" by (rule name_loop_none [OF table_names])
  then show ?thesis using assms False number_not_none [OF assms(1)] by (simp add: pitcher_get_format_by_name_def)
qed

lemma by_name_alias:
  assumes "same_ignoring_case s ''yuv420p''"
  shows "pitcher_get_format_by_name v (Some s) = 0" "n \<in> set format_names \<Longrightarrow> \<not> same_ignoring_case s n"
proof -
  show "pitcher_get_format_by_name v (Some s) = 0" using assms by (simp add: pitcher_get_format_by_name_def)
  show "\<not> same_ignoring_case s n" if "n \<in> set format_names"
    using assms names_distinct(2) that unfolding same_ignoring_case_def by (metis image_eqI list.set_map)
qed

text \<open>C34: The names of the formats are read back: for every format of the table \<open>pitcher_get_format_name\<close> gives a name, and
  \<open>pitcher_get_format_by_name\<close> finds this format for exactly the strings that are equal to it but for the case of letters, and,
  for the first format, for one more name.\<close>

theorem format_names_roundtrip:
  "\<exists>n. pitcher_get_format_name v (pix_fmt_number f) = Some n
     \<and> (\<forall>s. pitcher_get_format_by_name v (Some s) = pix_fmt_number f
          \<longleftrightarrow> same_ignoring_case s n \<or> f = PIX_FMT_I420 \<and> same_ignoring_case s ''yuv420p'')"
proof -
  obtain i where i: "i < 52" "pixel_formats ! i = f" "pix_fmt_number f = of_nat i" by (rule format_position)
  have "f = PIX_FMT_I420 \<longleftrightarrow> (of_nat i :: u32) = of_nat 0"
    unfolding i(3) [symmetric] by (cases f) simp_all
  then have zero: "f = PIX_FMT_I420 \<longleftrightarrow> i = 0" using number_inj [OF i(1), of 0] by simp
  have "pitcher_get_format_by_name v (Some s) = pix_fmt_number f
      \<longleftrightarrow> same_ignoring_case s (format_names ! i) \<or> f = PIX_FMT_I420 \<and> same_ignoring_case s ''yuv420p''" for s
  proof (cases "same_ignoring_case s ''yuv420p''")
    case True
    then show ?thesis using by_name_alias [OF True] number_inj [of 0 i] i zero length_formats(2) by auto
  next
    case False
    then show ?thesis using by_name_at [OF i(1) False] i(3) by simp
  qed
  then show ?thesis
    using i table_name_at [OF i(1)] number_small [OF i(1)] by (auto simp: pitcher_get_format_name_def)
qed

end
