(* ===== verification/Parsers.thy ===== *)
theory Parsers
  imports Split H264 Pixfmt
begin

text \<open>
  The table of parsers and the choice of one by the format of a file (the rest of \<open>pitcher/parse.c\<close>). That of H.264 keeps a static
  variable, which goes in and comes out of all of them; \<open>RV_PARSE\<close> is not defined.
\<close>

section \<open>The table of parsers\<close>

type_synonym 'e handler = "(u64 \<times> nat) option \<Rightarrow> u64 \<Rightarrow> 'e pworld \<Rightarrow> (int \<times> (u64 \<times> nat) option \<times> 'e pworld) option"

text \<open>The handler is \<open>None\<close> for a null pointer.\<close>

record 'e parse_handler =
  h_format :: u32
  handle_parse :: "'e handler option"

definition leaves_static :: "(u64 \<Rightarrow> 'e pworld \<Rightarrow> (int \<times> 'e pworld) option) \<Rightarrow> 'e handler" where
  "leaves_static parse = (\<lambda>sps p w. map_option (\<lambda>(r, w). (r, sps, w)) (parse p w))"

definition handler_for :: "pixel_format \<Rightarrow> 'e handler \<Rightarrow> 'e parse_handler" where
  "handler_for f g = \<lparr>h_format = pix_fmt_number f, handle_parse = Some g\<rparr>"

definition parse_handler_table :: "'e parse_handler list" where
  "parse_handler_table =
    [handler_for PIX_FMT_H264 h264_parse,
     handler_for PIX_FMT_H265 (leaves_static h265_parse),
     handler_for PIX_FMT_JPEG (leaves_static jpeg_parse),
     handler_for PIX_FMT_H263 (leaves_static h263_parse),
     handler_for PIX_FMT_SPK (leaves_static spk_parse),
     handler_for PIX_FMT_MPEG4 (leaves_static mpeg4_parse),
     handler_for PIX_FMT_MPEG2 (leaves_static mpeg2_parse),
     handler_for PIX_FMT_XVID (leaves_static xvid_parse),
     handler_for PIX_FMT_AVS (leaves_static avs_parse),
     handler_for PIX_FMT_VP8 (leaves_static vp8_parse),
     handler_for PIX_FMT_VP9 (leaves_static vp9_parse),
     handler_for PIX_FMT_VC1L (leaves_static vc1l_parse),
     handler_for PIX_FMT_VC1G (leaves_static vc1g_parse),
     handler_for PIX_FMT_VP6 (leaves_static vp6_parse),
     handler_for PIX_FMT_DIVX (leaves_static divx_parse),
     \<lparr>h_format = 0, handle_parse = None\<rparr>]"

fun handler_loop :: "u32 \<Rightarrow> 'e parse_handler list \<Rightarrow> 'e parse_handler option" where
  "handler_loop fmt [] = None"
| "handler_loop fmt (h # hs) = (if h_format h = fmt then Some h else handler_loop fmt hs)"

definition find_handler :: "u32 \<Rightarrow> 'e parse_handler option" where
  "find_handler fmt = handler_loop fmt parse_handler_table"

definition is_support_parser :: "u32 \<Rightarrow> int" where
  "is_support_parser fmt = (case find_handler fmt :: unit parse_handler option of None \<Rightarrow> 0 | Some _ \<Rightarrow> 1)"

definition pitcher_parse :: "'e handler" where
  "pitcher_parse sps p w =
     (if p = 0 then Some (err RET_E_INVAL, sps, w)
      else do {
        pr \<leftarrow> parser_at p w;
        case find_handler (pformat pr) of
          None \<Rightarrow> Some (err RET_E_NOT_SUPPORT, sps, w)
        | Some h \<Rightarrow> do { g \<leftarrow> handle_parse h; g sps p w }
      })"


section \<open>The choice of a parser\<close>

definition parser_formats :: "pixel_format set" where
  "parser_formats = {f. PIX_FMT_COMPRESSED \<le> pix_fmt_number f} - {PIX_FMT_RV30, PIX_FMT_RV40}"

lemmas handler_defs = find_handler_def parse_handler_table_def handler_for_def

lemma parser_formats_eq:
  "parser_formats = {PIX_FMT_H264, PIX_FMT_H265, PIX_FMT_JPEG, PIX_FMT_H263, PIX_FMT_SPK, PIX_FMT_MPEG4, PIX_FMT_MPEG2,
     PIX_FMT_XVID, PIX_FMT_AVS, PIX_FMT_VP8, PIX_FMT_VP9, PIX_FMT_VC1L, PIX_FMT_VC1G, PIX_FMT_VP6, PIX_FMT_DIVX}"
proof (rule set_eqI)
  fix f show "f \<in> parser_formats \<longleftrightarrow> f \<in> {PIX_FMT_H264, PIX_FMT_H265, PIX_FMT_JPEG, PIX_FMT_H263, PIX_FMT_SPK, PIX_FMT_MPEG4,
      PIX_FMT_MPEG2, PIX_FMT_XVID, PIX_FMT_AVS, PIX_FMT_VP8, PIX_FMT_VP9, PIX_FMT_VC1L, PIX_FMT_VC1G, PIX_FMT_VP6, PIX_FMT_DIVX}"
    by (cases f) (simp_all add: parser_formats_def PIX_FMT_COMPRESSED_def word_le_nat_alt)
qed

lemma no_handler: "n \<noteq> 0 \<Longrightarrow> n \<notin> pix_fmt_number ` parser_formats \<Longrightarrow> find_handler n = None"
  by (simp add: parser_formats_eq handler_defs)

lemma some_handler: "f \<in> parser_formats \<Longrightarrow> \<exists>g. find_handler (pix_fmt_number f) = Some (handler_for f g)"
  by (auto simp: parser_formats_eq handler_defs)

lemma handler_loop_in: "handler_loop n hs = Some h \<Longrightarrow> h \<in> set hs"
  by (induction hs) (auto split: if_splits)

lemma null_handler: "find_handler 0 = Some \<lparr>h_format = 0, handle_parse = None\<rparr>"
  by (simp add: handler_defs)

lemma find_handler_None: "find_handler n = None \<longleftrightarrow> n \<noteq> 0 \<and> n \<notin> pix_fmt_number ` parser_formats"
  using no_handler some_handler null_handler by (metis imageE option.distinct(1))

lemma called:
  assumes "parser_at p w = Some pr" and "find_handler (pformat pr) = Some (handler_for f g)"
  shows "pitcher_parse sps p w = g sps p w"
  using assms by (auto simp: pitcher_parse_def handler_for_def parser_at_def split: if_splits)

text \<open>C35: \<open>is_support_parser\<close> holds of the compressed formats but the two of RealVideo, and of format 0, I420, which the empty entry
  at the end of the table has. With the first \<open>pitcher_parse\<close> calls a parser, with format 0 it calls through a null pointer, and
  with any other it returns the error for what is not supported and changes nothing.\<close>

theorem parser_chosen:
  fixes w :: "'e pworld"
  assumes "parser_at p w = Some pr"
  shows "is_support_parser (pformat pr) = (if pformat pr = 0 \<or> pformat pr \<in> pix_fmt_number ` parser_formats then 1 else 0)
    \<and> (if pformat pr = 0 then pitcher_parse sps p w = None
       else if pformat pr \<in> pix_fmt_number ` parser_formats
       then \<exists>f g. pformat pr = pix_fmt_number f \<and> handler_for f g \<in> set parse_handler_table \<and> pitcher_parse sps p w = g sps p w
       else pitcher_parse sps p w = Some (err RET_E_NOT_SUPPORT, sps, w))"
proof -
  have p: "p \<noteq> 0" using assms by (auto simp: parser_at_def)
  have supported: "is_support_parser n = (if n = 0 \<or> n \<in> pix_fmt_number ` parser_formats then 1 else 0)" for n
    using find_handler_None [of n, where 'a = unit] by (auto simp: is_support_parser_def split: option.splits)
  have "\<exists>f g. pformat pr = pix_fmt_number f \<and> handler_for f g \<in> set parse_handler_table \<and> pitcher_parse sps p w = g sps p w"
    if in_table: "pformat pr \<in> pix_fmt_number ` parser_formats"
  proof -
    obtain f where f: "f \<in> parser_formats" "pformat pr = pix_fmt_number f" using in_table by blast
    obtain g :: "'e handler" where g: "find_handler (pformat pr) = Some (handler_for f g)" using some_handler [OF f(1)] f(2) by auto
    then have "handler_for f g \<in> set parse_handler_table" by (simp add: find_handler_def handler_loop_in)
    then show ?thesis using f(2) called [OF assms g, of sps] by blast
  qed
  moreover have "pitcher_parse sps p w = Some (err RET_E_NOT_SUPPORT, sps, w)"
    if "pformat pr \<noteq> 0" "pformat pr \<notin> pix_fmt_number ` parser_formats"
    using p assms that by (simp add: pitcher_parse_def no_handler)
  moreover have "pitcher_parse sps p w = None" if "pformat pr = 0"
    using p assms that by (simp add: pitcher_parse_def null_handler)
  ultimately show ?thesis using supported [of "pformat pr"] by auto
qed

definition raw_video :: parse_heap where
  "raw_video = (file_world [])\<lparr>parsers := [1 \<mapsto> (file_parser [])\<lparr>pformat := 0\<rparr>]\<rparr>"

theorem parser_chosen_witness:
  "is_support_parser 0 = 1 \<and> pitcher_parse None 1 raw_video = None"
proof -
  have "parser_at 1 raw_video = Some ((file_parser [])\<lparr>pformat := 0\<rparr>)" by (simp add: raw_video_def parser_at_def)
  from parser_chosen [OF this, of None] show ?thesis by simp
qed


section \<open>Parsing by format\<close>

lemma cuts_by_format:
  assumes "listed p pr [] n w" and "find_handler (pformat pr) = Some (handler_for f (leaves_static parse))" and "cuts parse p pr w"
  shows "cuts (\<lambda>p w. map_option (\<lambda>(r, _, w). (r, w)) (pitcher_parse sps p w)) p pr w"
proof -
  obtain q where q: "parser_at p w = Some (pr\<lparr>frame_queue := Some q, frame_cnt := 0\<rparr>)" using listed_parser [OF assms(1)] by auto
  have "pitcher_parse sps p w = leaves_static parse sps p w" by (rule called [OF q]) (simp add: assms(2))
  then have "map_option (\<lambda>(r, _, w). (r, w)) (pitcher_parse sps p w) = parse p w"
    by (cases "parse p w") (auto simp: leaves_static_def)
  then show ?thesis using assms(3) by (simp add: cuts_def)
qed

text \<open>C26: \<open>pitcher_parse\<close> on a file of any content, less than 4 GB, whose format is one of those with plain start codes: it
  returns 0, and the frames it lists are consecutive pieces of the file, up to its end unless their number is limited.\<close>

theorem pitcher_parse_cuts:
  assumes "pformat pr = pix_fmt_number f" and "f \<in> parser_formats - {PIX_FMT_H264, PIX_FMT_VP8, PIX_FMT_VP9, PIX_FMT_VP6, PIX_FMT_VC1L}"
    and "length (pvirt pr) < 2 ^ 32" and "unat (psize pr) = length (pvirt pr)" and "listed p pr [] (Suc (length (pvirt pr))) w"
  shows "cuts (\<lambda>p w. map_option (\<lambda>(r, _, w). (r, w)) (pitcher_parse sps p w)) p pr w"
proof -
  note c = startcode_parsers_cut [OF assms(3-5)]
  have "\<exists>parse. find_handler (pformat pr) = Some (handler_for f (leaves_static parse)) \<and> cuts parse p pr w"
    using assms(1,2) c by (auto simp: parser_formats_eq handler_defs)
  then show ?thesis using cuts_by_format [OF assms(5)] by blast
qed

theorem pitcher_parse_cuts_witness:
  "cuts (\<lambda>p w. map_option (\<lambda>(r, _, w). (r, w)) (pitcher_parse None p w)) 1 (file_parser [0xFF, 0xD8, 7]) (file_world [0xFF, 0xD8, 7])"
proof -
  let ?pr = "file_parser [0xFF, 0xD8, 7]"
  have "pformat ?pr = pix_fmt_number PIX_FMT_JPEG"
    "PIX_FMT_JPEG \<in> parser_formats - {PIX_FMT_H264, PIX_FMT_VP8, PIX_FMT_VP9, PIX_FMT_VP6, PIX_FMT_VC1L}"
    "length (pvirt ?pr) < 2 ^ 32" "unat (psize ?pr) = length (pvirt ?pr)" "Suc (length (pvirt ?pr)) < 1000"
    by (simp_all add: file_parser_def parser_formats_eq)
  then show ?thesis using pitcher_parse_cuts file_world_listed by blast
qed

end
