(* ===== verification/Ivf.thy ===== *)
theory Ivf
  imports Formats
begin

text \<open>
  Files with a length in front of each frame: what \<open>vp8_insert_ivf_seqhdr\<close> and \<open>vp8_insert_ivf_pichdr\<close> write is read back by
  \<open>vpx_parse\<close> of \<open>pitcher/vpx_parse.c\<close>, and what it does with a length that is negative.
\<close>

section \<open>IVF files\<close>

lemma le_bytes_at:
  assumes "data = xs @ [a, b, c, d] @ ys"
  shows "le_bytes data (int (length xs)) 0 4 0 = Some (ucast a OR push_bit 8 (ucast b) OR push_bit 16 (ucast c) OR push_bit 24 (ucast d))"
    and "le_bytes data (int (length xs)) 0 2 0 = Some (ucast a OR push_bit 8 (ucast b))"
proof -
  have "get_at data (int (length xs) + int i) = nth_opt data (length xs + i)" for i
    using get_at_int(1) [of data "length xs + i"] by simp
  note g = this [of 0] this [of 1] this [of 2] this [of 3]
  show "le_bytes data (int (length xs)) 0 4 0 = Some (ucast a OR push_bit 8 (ucast b) OR push_bit 16 (ucast c) OR push_bit 24 (ucast d))"
    "le_bytes data (int (length xs)) 0 2 0 = Some (ucast a OR push_bit 8 (ucast b))"
    using g by (simp_all add: assms eval_nat_numeral nth_append or.assoc)
qed

lemma u32_of_bytes:
  "ucast (ucast x :: u8) OR push_bit 8 (ucast (ucast (drop_bit 8 x) :: u8)) OR push_bit 16 (ucast (ucast (drop_bit 16 x) :: u8))
     OR push_bit 24 (ucast (ucast (drop_bit 24 (x :: u64)) :: u8)) = (ucast x :: u32)"
proof (rule bit_word_eqI)
  fix n assume "n < LENGTH(32)"
  then consider "n < 8" | "8 \<le> n" "n < 16" | "16 \<le> n" "n < 24" | "24 \<le> n" "n < 32" by fastforce
  then show "bit (ucast (ucast x :: u8) OR push_bit 8 (ucast (ucast (drop_bit 8 x) :: u8)) OR push_bit 16 (ucast (ucast (drop_bit 16 x) :: u8))
     OR push_bit 24 (ucast (ucast (drop_bit 24 x) :: u8)) :: u32) n \<longleftrightarrow> bit (ucast x :: u32) n"
    by cases (auto simp: bit_simps dest: bit_imp_le_length)
qed

lemma u32_of_half:
  assumes "x < 0x10000"
  shows "ucast (ucast x :: u8) OR push_bit 8 (ucast (ucast (drop_bit 8 x) :: u8)) = (x :: u32)"
proof (rule bit_word_eqI)
  fix n assume n: "n < LENGTH(32)"
  have "take_bit 16 x = x" using assms
    by (intro word_eqI_unat) (simp add: unsigned_take_bit_eq take_bit_nat_eq_self word_less_nat_alt)
  then have "bit x n \<Longrightarrow> n < 16" by (metis bit_take_bit_iff)
  then show "bit (ucast (ucast x :: u8) OR push_bit 8 (ucast (ucast (drop_bit 8 x) :: u8)) :: u32) n \<longleftrightarrow> bit x n"
    using n by (cases "n < 8") (auto simp: bit_simps dest: bit_imp_le_length)
qed

definition ivf_body :: "u8 list list \<Rightarrow> u8 list" where
  "ivf_body fs = concat (map (\<lambda>f. vp8_insert_ivf_pichdr (of_nat (length f)) @ f) fs)"

lemma ivf_body_simps [simp]:
  "ivf_body [] = []" "ivf_body (f # fs) = vp8_insert_ivf_pichdr (of_nat (length f)) @ f @ ivf_body fs"
  by (simp_all add: ivf_body_def)

lemma length_pichdr [simp]: "length (vp8_insert_ivf_pichdr n) = 12"
  by (simp add: vp8_insert_ivf_pichdr_def)

fun ivf_frames :: "nat \<Rightarrow> nat \<Rightarrow> u8 list list \<Rightarrow> pitcher_frame list" where
  "ivf_frames k pos [] = []"
| "ivf_frames k pos (f # fs) =
     \<lparr>fr_idx = of_nat k, fr_size = of_nat (length f), fr_offset = of_nat (pos + 12), fr_flag = 0\<rparr>
     # ivf_frames (Suc k) (pos + 12 + length f) fs"

lemma byte_to_int_pichdr:
  assumes "n < 2 ^ 31" and "data = xs @ vp8_insert_ivf_pichdr (of_nat n) @ ys"
  shows "byte_to_int data (int (length xs)) 4 = Some (int n)"
proof -
  have "le_bytes data (int (length xs)) 0 4 0 = Some (ucast (of_nat n :: u64))"
    by (subst le_bytes_at(1) [of data xs "ucast (of_nat n :: u64)" "ucast (drop_bit 8 (of_nat n :: u64))"
        "ucast (drop_bit 16 (of_nat n :: u64))" "ucast (drop_bit 24 (of_nat n :: u64))" "[0, 0, 0, 0, 0, 0, 0, 0] @ ys"])
      (simp_all add: assms(2) vp8_insert_ivf_pichdr_def u32_of_bytes)
  moreover have "ucast (of_nat n :: u64) = (of_nat n :: u32)" by (rule bit_word_eqI) (auto simp: bit_simps)
  moreover have "sint (of_nat n :: u32) = int n" using assms(1) by (simp add: signed_of_nat signed_take_bit_int_eq_self)
  ultimately show ?thesis by (simp add: byte_to_int_def)
qed

lemma vpx_loop_ok:
  assumes "pvirt pr = pre @ ivf_body fs" and "listed p pr frs (length fs) w" and "unat (psize pr) = length (pvirt pr)"
    and "length (pvirt pr) < 2 ^ 31" and "fs \<noteq> [] \<longrightarrow> last fs \<noteq> []"
  shows "\<exists>w'. vpx_loop p (int (length pre)) (int (length (ivf_body fs))) (int k) w = Some w'
    \<and> listed p pr (frs @ ivf_frames k (length pre) fs) 0 w'"
  using assms
proof (induction fs arbitrary: pre frs k w)
  case Nil
  then show ?case by (subst vpx_loop.simps) (simp add: VP8_IVF_FRAME_HEADER_LEN_def)
next
  case (Cons f fs)
  obtain q where q: "parser_at p w = Some (pr\<lparr>frame_queue := Some q, frame_cnt := of_nat (length frs)\<rparr>)"
    using listed_parser [OF Cons.prems(2)] by blast
  have len: "length f < 2 ^ 31" using Cons.prems(1,4) by simp
  have sz: "uint (psize pr) = int (length (pvirt pr))" unfolding Cons.prems(3) [symmetric] by simp
  have b: "byte_to_int (pvirt pr) (int (length pre)) 4 = Some (int (length f))"
    by (rule byte_to_int_pichdr [OF len]) (simp add: Cons.prems(1))
  have ne: "0 < int (length f) + int (length (ivf_body fs))" using Cons.prems(5) by (cases fs) (auto simp: vp8_insert_ivf_pichdr_def)
  have l: "listed p pr frs (Suc (length fs)) w" using Cons.prems(2) by simp
  let ?off = "uint (psize pr) - (int (length (ivf_body (f # fs))) - 12)"
  have off: "?off = int (length pre + 12)" using sz Cons.prems(1) by simp
  obtain w1 where w1: "pitcher_parser_push_new_frame p ?off (int (length f)) (int k) w = Some (0, w1)"
    "listed p pr (frs @ ivf_frames k (length pre) [f]) (length fs) w1"
    using push_new_frame_listed [OF l, of ?off "int (length f)" "int k"] unfolding off by auto
  let ?pre = "pre @ vp8_insert_ivf_pichdr (of_nat (length f)) @ f"
  have step: "vpx_step p (int (length pre)) (int (length (ivf_body (f # fs)))) (int k) w
      = Some (Some (int (length ?pre), int (length (ivf_body fs)), int (Suc k)), w1)"
    using q b w1(1) by (simp add: vpx_step_def VP8_IVF_FRAME_HEADER_LEN_def add.commute add.left_commute)
  have "\<exists>w'. vpx_loop p (int (length ?pre)) (int (length (ivf_body fs))) (int (Suc k)) w1 = Some w'
      \<and> listed p pr ((frs @ ivf_frames k (length pre) [f]) @ ivf_frames (Suc k) (length ?pre) fs) 0 w'"
    by (rule Cons.IH) (use Cons.prems w1(2) in \<open>auto split: if_splits\<close>)
  moreover have "vpx_loop p (int (length pre)) (int (length (ivf_body (f # fs)))) (int k) w
      = vpx_loop p (int (length ?pre)) (int (length (ivf_body fs))) (int (Suc k)) w1"
    using ne step by (subst vpx_loop.simps) (auto simp: VP8_IVF_FRAME_HEADER_LEN_def)
  ultimately show ?case by (simp add: add.assoc)
qed

lemma ivf_frames_content:
  assumes "data = pre @ ivf_body fs" and "length data < 2 ^ 31"
  shows "map (\<lambda>fr. take (unat (fr_size fr)) (drop (unat (fr_offset fr)) data)) (ivf_frames k (length pre) fs) = fs"
  using assms
proof (induction fs arbitrary: k pre)
  case (Cons f fs)
  have n: "length f < 2 ^ 64" "length pre + 12 < 2 ^ 32" using Cons.prems by simp_all
  then have u: "unat (of_nat (length f) :: u64) = length f" "unat (of_nat (length pre + 12) :: u32) = length pre + 12"
    by (simp_all add: unat_of_nat take_bit_nat_eq_self del: of_nat_add)
  have "map (\<lambda>fr. take (unat (fr_size fr)) (drop (unat (fr_offset fr)) data))
      (ivf_frames (Suc k) (length (pre @ vp8_insert_ivf_pichdr (of_nat (length f)) @ f)) fs) = fs"
    by (rule Cons.IH) (use Cons.prems in simp_all)
  then show ?case using u Cons.prems(1) by (simp add: add.assoc)
qed simp


lemma length_seqhdr [simp]: "length (vp8_insert_ivf_seqhdr wd ht rate) = 32"
  by (simp add: vp8_insert_ivf_seqhdr_def)

lemma seqhdr_checks:
  "strn_differ [0x44, 0x4B, 0x49, 0x46, 0] (vp8_insert_ivf_seqhdr wd ht rate @ ys) 0 5 = Some False"
  "strn_differ [0x56, 0x50, 0x38, 0x30, 0] (vp8_insert_ivf_seqhdr wd ht rate @ ys) 8 4 = Some False"
  by (simp_all add: vp8_insert_ivf_seqhdr_def numeral_eq_Suc)

lemma seqhdr_fields:
  assumes "wd < 0x10000" and "ht < 0x10000"
  shows "le_bytes (vp8_insert_ivf_seqhdr wd ht rate @ ys) 12 0 2 0 = Some wd"
    "le_bytes (vp8_insert_ivf_seqhdr wd ht rate @ ys) 14 0 2 0 = Some ht"
proof -
  let ?d = "vp8_insert_ivf_seqhdr wd ht rate @ ys"
  have split: "?d = take 12 ?d @ [ucast wd, ucast (drop_bit 8 wd), ucast ht, ucast (drop_bit 8 ht)] @ drop 16 ?d"
    "?d = take 14 ?d @ [ucast ht, ucast (drop_bit 8 ht), ucast rate, ucast (drop_bit 8 rate)] @ drop 18 ?d"
    by (simp_all add: vp8_insert_ivf_seqhdr_def numeral_eq_Suc)
  have "length (take 12 ?d) = 12" "length (take 14 ?d) = 14" by simp_all
  then show "le_bytes ?d 12 0 2 0 = Some wd" "le_bytes ?d 14 0 2 0 = Some ht"
    using le_bytes_at(2) [OF split(1)] le_bytes_at(2) [OF split(2)] u32_of_half [OF assms(1)] u32_of_half [OF assms(2)] by simp_all
qed

text \<open>C25: A file that consists of the header \<open>vp8_insert_ivf_seqhdr\<close> makes, and for each frame the header of
  \<open>vp8_insert_ivf_pichdr\<close> and the data, is parsed into exactly these frames, with the width and height of the header. The last
  frame must not be empty: the loop does not look at a header at the very end of a file.\<close>

theorem ivf_roundtrip:
  assumes "pvirt pr = vp8_insert_ivf_seqhdr wd ht rate @ concat (map (\<lambda>f. vp8_insert_ivf_pichdr (of_nat (length f)) @ f) fs)"
    and "unat (psize pr) = length (pvirt pr)" and "length (pvirt pr) < 2 ^ 31" and "wd < 0x10000" and "ht < 0x10000"
    and "fs \<noteq> [] \<longrightarrow> last fs \<noteq> []" and "listed p pr [] (length fs) w"
  shows "\<exists>frs w'. vp8_parse p w = Some (0, w') \<and> listed p (pr\<lparr>pwidth := wd, pheight := ht\<rparr>) frs 0 w'
    \<and> map (\<lambda>fr. take (unat (fr_size fr)) (drop (unat (fr_offset fr)) (pvirt pr))) frs = fs"
proof -
  let ?pr = "pr\<lparr>pwidth := wd, pheight := ht\<rparr>" and ?hdr = "vp8_insert_ivf_seqhdr wd ht rate"
  have data: "pvirt pr = ?hdr @ ivf_body fs" using assms(1) by (simp add: ivf_body_def)
  obtain q where q: "parser_at p w = Some (pr\<lparr>frame_queue := Some q, frame_cnt := 0\<rparr>)" using listed_parser [OF assms(7)] by auto
  have p: "p \<noteq> 0" by (rule listed_nonzero [OF assms(7)])
  let ?w = "set_parser p ((pr\<lparr>frame_queue := Some q, frame_cnt := 0\<rparr>)\<lparr>pwidth := wd, pheight := ht\<rparr>) w"
  have l: "listed p ?pr [] (length fs) ?w" using assms(7) q p by (auto simp: listed_def)
  have left: "sint (psize pr) = int (length (pvirt pr))"
  proof -
    have "psize pr = of_nat (length (pvirt pr))" by (simp flip: assms(2))
    then show ?thesis using assms(3) by (simp add: signed_of_nat signed_take_bit_int_eq_self)
  qed
  obtain w' where w': "vpx_loop p (int (length ?hdr)) (int (length (ivf_body fs))) (int 0) ?w = Some w'"
    "listed p ?pr ([] @ ivf_frames 0 (length ?hdr) fs) 0 w'"
    using vpx_loop_ok [of ?pr ?hdr fs p "[]" ?w 0] data assms(2,3,6) l by auto
  have "vp8_parse p w = Some (0, w')"
    using p q w'(1) left data seqhdr_checks [of wd ht rate "ivf_body fs"] seqhdr_fields [OF assms(4,5), of rate "ivf_body fs"]
    by (simp add: vp8_parse_def vpx_parse_def VP8_IVF_SEQ_HEADER_LEN_def)
  moreover have "map (\<lambda>fr. take (unat (fr_size fr)) (drop (unat (fr_offset fr)) (pvirt pr))) (ivf_frames 0 (length ?hdr) fs) = fs"
    by (rule ivf_frames_content [OF data assms(3)])
  ultimately show ?thesis using w'(2) by auto
qed

theorem ivf_roundtrip_witness:
  "\<exists>(frs :: pitcher_frame list) w'. vp8_parse 1 (file_world (vp8_insert_ivf_seqhdr 4 2 25 @ vp8_insert_ivf_pichdr 2 @ [8, 9])) = Some (0, w')
     \<and> map (\<lambda>fr. take (unat (fr_size fr)) (drop (unat (fr_offset fr)) (vp8_insert_ivf_seqhdr 4 2 25 @ vp8_insert_ivf_pichdr 2 @ [8, 9]))) frs
       = [[8, 9]]"
proof -
  let ?data = "vp8_insert_ivf_seqhdr 4 2 25 @ vp8_insert_ivf_pichdr 2 @ [8, 9]"
  have len: "length ?data = 46" by simp
  have p: "pvirt (file_parser ?data) = vp8_insert_ivf_seqhdr 4 2 25
      @ concat (map (\<lambda>f. vp8_insert_ivf_pichdr (of_nat (length f)) @ f) [[8, 9]])" by (simp add: file_parser_def)
  have z: "unat (psize (file_parser ?data)) = length (pvirt (file_parser ?data))" "length (pvirt (file_parser ?data)) < 2 ^ 31"
    unfolding file_parser_def by (simp_all add: len)
  have b: "(4 :: u32) < 0x10000" "(2 :: u32) < 0x10000" "[[8, 9 :: u8]] \<noteq> [] \<longrightarrow> last [[8, 9 :: u8]] \<noteq> []" "length [[8, 9 :: u8]] < 1000"
    by simp_all
  have v: "pvirt (file_parser ?data) = ?data" by (simp add: file_parser_def)
  show ?thesis
    using ivf_roundtrip [OF p z b(1-3) file_world_listed [OF b(4)]] unfolding v
    by (elim exE conjE) (intro exI conjI, assumption+)
qed


lemma push_new_frame_file:
  assumes "pitcher_parser_push_new_frame p off sz idx w = Some (r, w')" and "parser_at p w = Some pr"
  shows "\<exists>pr'. parser_at p w' = Some pr' \<and> pvirt pr' = pvirt pr \<and> psize pr' = psize pr"
proof -
  have "p \<noteq> 0" using assms(2) by (auto simp: parser_at_def)
  then show ?thesis using assms
    by (auto simp: pitcher_parser_push_new_frame_def pitcher_parser_push_def Let_def bind_eq_Some_conv split: prod.splits if_splits)
qed

definition vpx_stuck :: "u64 \<Rightarrow> int \<Rightarrow> int \<Rightarrow> 'e pworld \<Rightarrow> bool" where
  "vpx_stuck p cur left w \<longleftrightarrow> int VP8_IVF_FRAME_HEADER_LEN < left
     \<and> (\<exists>pr. parser_at p w = Some pr \<and> byte_to_int (pvirt pr) cur 4 = Some (- int VP8_IVF_FRAME_HEADER_LEN))"

lemma vpx_step_stuck:
  assumes "vpx_stuck p cur left w" and "vpx_step p cur left idx w = Some (r, w')"
  shows "r = Some (cur, left, idx + 1)" "vpx_stuck p cur left w'"
proof -
  obtain pr where pr: "parser_at p w = Some pr" "byte_to_int (pvirt pr) cur 4 = Some (- int VP8_IVF_FRAME_HEADER_LEN)"
    "int VP8_IVF_FRAME_HEADER_LEN < left" using assms(1) by (auto simp: vpx_stuck_def)
  obtain r0 where s: "pitcher_parser_push_new_frame p (uint (psize pr) - (left - int VP8_IVF_FRAME_HEADER_LEN))
      (- int VP8_IVF_FRAME_HEADER_LEN) idx w = Some (r0, w')" "r = Some (cur, left, idx + 1)"
    using assms(2) pr by (auto simp: vpx_step_def bind_eq_Some_conv split: if_splits)
  show "r = Some (cur, left, idx + 1)" by (rule s(2))
  show "vpx_stuck p cur left w'" using push_new_frame_file [OF s(1) pr(1)] pr(2,3) by (auto simp: vpx_stuck_def)
qed

lemma vpx_loop_stuck: "vpx_loop p cur left idx w = Some y \<Longrightarrow> \<not> vpx_stuck p cur left w"
proof (erule vpx_loop.raw_induct [where P = "\<lambda>p cur left idx w y. \<not> vpx_stuck p cur left w", rotated])
  fix f p cur left idx w y
  assume hyp: "\<And>p cur left idx w y. f p cur left idx w = Some y \<Longrightarrow> \<not> vpx_stuck p cur left w"
    and body: "(if left \<le> int VP8_IVF_FRAME_HEADER_LEN then Some w
      else do {
        (r, w) \<leftarrow> vpx_step p cur left idx w;
        (case r of None \<Rightarrow> Some w | Some (cur, left, idx) \<Rightarrow> f p cur left idx w)
      }) = Some y"
  show "\<not> vpx_stuck p cur left w"
  proof
    assume s: "vpx_stuck p cur left w"
    then have "int VP8_IVF_FRAME_HEADER_LEN < left" by (simp add: vpx_stuck_def)
    then obtain r w1 where r: "vpx_step p cur left idx w = Some (r, w1)"
      "(case r of None \<Rightarrow> Some w1 | Some (cur, left, idx) \<Rightarrow> f p cur left idx w1) = Some y"
      using body by (auto simp: bind_eq_Some_conv)
    then show False using vpx_step_stuck [OF s r(1)] hyp [of p cur left "idx + 1" w1 y] by simp
  qed
qed

text \<open>C39: A frame header whose length is -12 takes \<open>vpx_parse\<close> back to that same header: every round allocates another
  frame and changes neither the position nor what is left, and the loop does not return.\<close>

theorem vpx_negative_size_repeats:
  assumes "byte_to_int (pvirt pr) cur 4 = Some (- int VP8_IVF_FRAME_HEADER_LEN)" and "int VP8_IVF_FRAME_HEADER_LEN < left"
    and "listed p pr frs (Suc n) w"
  shows "(\<exists>fr w'. vpx_step p cur left idx w = Some (Some (cur, left, idx + 1), w') \<and> listed p pr (frs @ [fr]) n w')
    \<and> vpx_loop p cur left idx w = None"
proof
  obtain q where q: "parser_at p w = Some (pr\<lparr>frame_queue := Some q, frame_cnt := of_nat (length frs)\<rparr>)"
    using listed_parser [OF assms(3)] by blast
  let ?off = "uint (psize pr) - (left - int VP8_IVF_FRAME_HEADER_LEN)"
  obtain fr w' where w': "pitcher_parser_push_new_frame p ?off (- int VP8_IVF_FRAME_HEADER_LEN) idx w = Some (0, w')"
    "listed p pr (frs @ [fr]) n w'"
    using push_new_frame_listed [OF assms(3), of ?off "- int VP8_IVF_FRAME_HEADER_LEN" idx] by blast
  then show "\<exists>fr w'. vpx_step p cur left idx w = Some (Some (cur, left, idx + 1), w') \<and> listed p pr (frs @ [fr]) n w'"
    using q assms(1,2) by (auto simp: vpx_step_def)
  show "vpx_loop p cur left idx w = None"
  proof (cases "vpx_loop p cur left idx w")
    case (Some y)
    then show ?thesis using vpx_loop_stuck [OF Some] q assms(1,2) by (simp add: vpx_stuck_def)
  qed
qed

theorem vpx_negative_size_repeats_witness:
  "byte_to_int (replicate 32 0 @ [0xF4, 0xFF, 0xFF, 0xFF]) 32 4 = Some (-12)
   \<and> vpx_loop 1 32 24 0 (file_world (replicate 32 0 @ [0xF4, 0xFF, 0xFF, 0xFF])) = None"
proof -
  let ?data = "replicate 32 0 @ [0xF4, 0xFF, 0xFF, 0xFF] :: u8 list"
  have b: "byte_to_int ?data 32 4 = Some (-12)" by code_simp
  have "byte_to_int (pvirt (file_parser ?data)) 32 4 = Some (- int VP8_IVF_FRAME_HEADER_LEN)"
    using b by (simp add: file_parser_def VP8_IVF_FRAME_HEADER_LEN_def)
  moreover have "int VP8_IVF_FRAME_HEADER_LEN < 24" by (simp add: VP8_IVF_FRAME_HEADER_LEN_def)
  ultimately show ?thesis using vpx_negative_size_repeats [OF _ _ file_world_listed [of "Suc 0" ?data]] b by auto
qed

end
