(* ===== verification/Planes.thy ===== *)
theory Planes
  imports Pixfmt
begin

text \<open>
  The planes that \<open>pitcher_get_pix_fmt_info\<close> computes have room for what is visible of a picture: a rounding function on the
  natural numbers, what all entries of the table have in common, one plane, the loop over the planes, the whole function.
\<close>


section \<open>Planes hold what is visible\<close>

definition align_up :: "nat \<Rightarrow> nat \<Rightarrow> nat" where
  "align_up x a = (if x mod a = 0 then x else (x div a + 1) * a)"

lemma align_up_props:
  assumes "0 < a"
  shows "x \<le> align_up x a" "align_up x a < x + a" "a dvd align_up x a"
proof -
  have x: "x = x div a * a + x mod a" "x mod a < a" using assms by simp_all
  then have "x \<le> (x div a + 1) * a" by (metis add.commute add_le_cancel_left add_mult_distrib less_imp_le mult_1)
  then show "x \<le> align_up x a" by (simp add: align_up_def)
  have "x div a * a < x" if "x mod a \<noteq> 0" using x(1) that by linarith
  then have "(x div a + 1) * a < x + a" if "x mod a \<noteq> 0" using that by simp
  then show "align_up x a < x + a" using assms by (simp add: align_up_def)
  show "a dvd align_up x a" by (auto simp: align_up_def mod_0_imp_dvd)
qed

lemma align_up_least:
  assumes "0 < a" and "a dvd y" and "x \<le> y"
  shows "align_up x a \<le> y"
proof (cases "x mod a = 0")
  case False
  obtain k where k: "y = k * a" using assms(2) by (metis dvd_def mult.commute)
  have "x div a < k"
  proof (rule ccontr)
    assume "\<not> x div a < k"
    then have "k * a \<le> x div a * a" by simp
    also have "\<dots> < x" using False div_mult_mod_eq [of x a] by linarith
    finally show False using assms(3) k by simp
  qed
  then have "(x div a + 1) * a \<le> k * a" by (intro mult_le_mono1) simp
  then show ?thesis using False k by (simp add: align_up_def)
qed (simp add: align_up_def assms)

lemma unat_ALIGN:
  assumes "a \<noteq> 0" and "unat x + unat a < 2 ^ 32"
  shows "unat (ALIGN x a) = align_up (unat x) (unat a)"
proof (cases "x mod a = 0")
  case True
  then have "unat x mod unat a = 0" by (metis unat_0 unat_mod)
  with True show ?thesis by (simp add: ALIGN_def align_up_def)
next
  case False
  let ?x = "unat x" and ?a = "unat a"
  have r: "unat (x mod a) = ?x mod ?a" by (simp add: unat_mod)
  then have "?x mod ?a \<noteq> 0" using False by (metis unat_eq_zero)
  moreover have s: "unat (x + a) = ?x + ?a" using assms(2) by (simp add: unat_word_ariths)
  moreover have "x mod a \<le> x + a" using s r by (simp add: word_le_nat_alt trans_le_add1)
  moreover have "?x + ?a - ?x mod ?a = (?x div ?a + 1) * ?a"
    using div_mult_mod_eq [of ?x ?a] by (simp only: add_mult_distrib mult_1)
  ultimately show ?thesis using False r by (simp add: ALIGN_def align_up_def unat_sub)
qed

text \<open>What of a picture of a width or height lies in plane \<open>i\<close>.\<close>

definition visible :: "nat \<Rightarrow> nat \<Rightarrow> nat \<Rightarrow> nat" where
  "visible i l x = (if i = 0 then align_up x (2 ^ l) else align_up x (2 ^ l) div 2 ^ l)"

definition plane_covers :: "pixel_format_desc \<Rightarrow> nat \<Rightarrow> nat \<Rightarrow> nat \<Rightarrow> pix_plane_info \<Rightarrow> bool" where
  "plane_covers d i width height p \<longleftrightarrow>
     unat (comp_bpp d i) * visible i (unat (log2_chroma_w d)) width \<le> 8 * unat (pl_line p)
     \<and> unat (pl_line p) * visible i (unat (log2_chroma_h d)) height \<le> unat (pl_size p)"

text \<open>What all entries of the table have in common, and what all but one have.\<close>

definition desc_ok :: "pixel_format_desc \<Rightarrow> bool" where
  "desc_ok d \<longleftrightarrow> log2_chroma_w d \<le> 1 \<and> log2_chroma_h d \<le> 1 \<and> fd_num_planes d \<in> {1, 2, 3} \<and> length (comp d) \<le> 3
     \<and> list_all (\<lambda>(b, _). 8 \<le> b \<and> b \<le> 64) (comp d) \<and> (fd_num_planes d \<noteq> 1 \<longrightarrow> comp d \<noteq> [])
     \<and> fd_tile_ws d \<le> 8 \<and> fd_tile_hs d \<in> {0, 4, 128}"

definition even_tiles :: "pixel_format_desc \<Rightarrow> bool" where
  "even_tiles d \<longleftrightarrow> fd_tile_ws d \<in> {0, 4, 8}"

lemma table_ok: "i < 52 \<Longrightarrow> desc_ok (pix_fmt_descriptors v ! i)"
  by (rule table_entry [where P = "\<lambda>f d. desc_ok d"]) (simp_all add: descriptor_defs desc_ok_def)

lemma table_even: "i < 52 \<Longrightarrow> pixel_formats ! i \<noteq> PIX_FMT_DTRC10 \<Longrightarrow> even_tiles (pix_fmt_descriptors v ! i)"
  using table_entry [where P = "\<lambda>f d. f \<noteq> PIX_FMT_DTRC10 \<longrightarrow> even_tiles d"]
  by (simp add: descriptor_defs even_tiles_def)


lemma desc_okD:
  assumes "desc_ok d"
  shows "unat (log2_chroma_w d) \<le> 1" "unat (log2_chroma_h d) \<le> 1" "unat (fd_num_planes d) \<in> {1, 2, 3}"
    "unat (comp_bpp d i) \<le> 64" "fd_num_planes d \<noteq> 1 \<Longrightarrow> comp_bpp d 0 \<noteq> 0" "unat (fd_tile_ws d) \<le> 8" "unat (fd_tile_hs d) \<in> {0, 4, 128}"
    "comp_bpp d i = 0 \<or> 8 \<le> unat (comp_bpp d i)"
proof -
  show "unat (log2_chroma_w d) \<le> 1" "unat (log2_chroma_h d) \<le> 1" "unat (fd_tile_ws d) \<le> 8"
    using assms by (simp_all add: desc_ok_def word_le_nat_alt)
  show "unat (fd_num_planes d) \<in> {1, 2, 3}" "unat (fd_tile_hs d) \<in> {0, 4, 128}" using assms by (auto simp: desc_ok_def)
  have c: "8 \<le> b \<and> b \<le> 64" if "(b, e) \<in> set (comp d)" for b e using assms that by (auto simp: desc_ok_def list_all_iff)
  have n: "i < length (comp d) \<Longrightarrow> (comp_bpp d i, snd (comp d ! i)) \<in> set (comp d)" for i by (simp add: comp_bpp_def)
  show "unat (comp_bpp d i) \<le> 64" "comp_bpp d i = 0 \<or> 8 \<le> unat (comp_bpp d i)"
    using c [OF n, of i] by (cases "i < length (comp d)"; simp add: comp_bpp_def word_le_nat_alt)+
  show "comp_bpp d 0 \<noteq> 0" if "fd_num_planes d \<noteq> 1"
    using c [OF n, of 0] assms that by (auto simp: desc_ok_def)
qed

lemma visible_mono:
  assumes "2 ^ l dvd a" and "0 < a"
  shows "visible i l x \<le> (if i = 0 then align_up x a else align_up x a div 2 ^ l)"
proof -
  have "align_up x (2 ^ l) \<le> align_up x a"
    by (rule align_up_least) (use assms align_up_props [of a x] dvd_trans in \<open>auto intro: dvd_trans\<close>)
  then show ?thesis by (simp add: visible_def div_le_mono)
qed

lemma unat_drop: "unat (drop_bit n x :: u32) = unat x div 2 ^ n"
  by (subst unat_drop_bit_eq) (rule drop_bit_eq_div)

lemma align_drop_8:
  "8 * unat (drop_bit 3 y :: u32) = unat y" if "8 dvd unat y"
  using that by (simp add: unat_drop)

lemma plane_geometry_ok:
  assumes d: "desc_ok d" and i: "i = 0 \<or> fd_num_planes d \<noteq> 1"
    and aw: "2 ^ unat (log2_chroma_w d) dvd unat al_w" "0 < unat al_w" "unat al_w \<le> 8"
    and ah: "2 ^ unat (log2_chroma_h d) dvd unat al_h" "0 < unat al_h" "unat al_h \<le> 256"
    and s: "unat width \<le> 8192" "unat height \<le> 8192" "0 < unat alignment" "unat alignment \<le> 1024"
  shows "\<exists>p. plane_geometry d width height al_w al_h alignment i = Some p \<and> plane_covers d i (unat width) (unat height) p
    \<and> unat (pl_size p) \<le> 1150000000 \<and> (i = 0 \<longrightarrow> unat alignment dvd unat (pl_line p))"
proof -
  let ?lw = "unat (log2_chroma_w d)" and ?lh = "unat (log2_chroma_h d)" and ?b = "comp_bpp d i"
  note dd = desc_okD [OF d]
  define w where "w = (if i = 0 then ALIGN width al_w else drop_bit ?lw (ALIGN width al_w))"
  define h where "h = (if i = 0 then ALIGN height al_h
     else drop_bit ?lh (if fd_tile_hs d \<noteq> 0 then ALIGN height (push_bit ?lh al_h) else ALIGN height al_h))"
  define a0 where "a0 = (if i = 0 then alignment else DIV_ROUND_UP (drop_bit ?lw (alignment * ?b)) (comp_bpp d 0))"
  define a where "a = (if a0 = 0 then 1 else a0)"
  define l0 where "l0 = (if ?b \<noteq> 0 then drop_bit 3 (ALIGN (w * ?b) 8) else w)"
  define line where "line = ALIGN l0 a"
  have geo: "plane_geometry d width height al_w al_h alignment i = Some \<lparr>pl_line = line, pl_size = line * h\<rparr>"
    using i dd(5) unfolding plane_geometry_def line_def l0_def a_def a0_def w_def h_def
    by (cases "i = 0") (simp_all add: Let_def pitcher_fill_plane_desc_def)
  have nz: "al_w \<noteq> 0" "al_h \<noteq> 0" using aw(2) ah(2) by (simp_all add: unat_gt_0)
  have uw: "unat (ALIGN width al_w) = align_up (unat width) (unat al_w)" by (rule unat_ALIGN [OF nz(1)]) (use aw s in simp)
  have w: "visible i ?lw (unat width) \<le> unat w" "unat w \<le> 8200"
  proof -
    have "align_up (unat width) (unat al_w) < unat width + unat al_w" by (rule align_up_props [OF aw(2)])
    then have "align_up (unat width) (unat al_w) \<le> 8200" using aw(3) s(1) by simp
    moreover have "unat w = (if i = 0 then align_up (unat width) (unat al_w) else align_up (unat width) (unat al_w) div 2 ^ ?lw)"
      using uw by (simp add: w_def unat_drop)
    ultimately show "visible i ?lw (unat width) \<le> unat w" "unat w \<le> 8200"
      using visible_mono [OF aw(1,2), of i "unat width"] by (auto intro: order_trans [OF div_le_dividend])
  qed
  have h: "visible i ?lh (unat height) \<le> unat h" "unat h \<le> 8704"
  proof -
    have bounds: "visible i ?lh (unat height) \<le> unat (if i = 0 then ALIGN height A else drop_bit ?lh (ALIGN height A))
        \<and> unat (if i = 0 then ALIGN height A else drop_bit ?lh (ALIGN height A)) \<le> 8704"
      if A: "2 ^ ?lh dvd unat A" "0 < unat A" "unat A \<le> 512" for A
    proof -
      have u: "unat (ALIGN height A) = align_up (unat height) (unat A)" by (rule unat_ALIGN) (use A s in \<open>auto simp: unat_gt_0\<close>)
      have "align_up (unat height) (unat A) < unat height + unat A" by (rule align_up_props [OF A(2)])
      then have "align_up (unat height) (unat A) \<le> 8704" using A(3) s(2) by simp
      then show ?thesis using visible_mono [OF A(1,2), of i "unat height"] u
        by (auto simp: unat_drop intro: order_trans [OF div_le_dividend])
    qed
    have "unat (push_bit ?lh al_h) = unat al_h * 2 ^ ?lh"
    proof -
      have "?lh = 0 \<or> ?lh = 1" using dd(2) by auto
      then show ?thesis using ah(3) by (auto simp: push_bit_eq_mult unat_word_ariths)
    qed
    then have "2 ^ ?lh dvd unat (push_bit ?lh al_h)" "0 < unat (push_bit ?lh al_h)" "unat (push_bit ?lh al_h) \<le> 512"
      using ah dd(2) by (auto simp: le_Suc_eq)
    from bounds [OF this] bounds [OF ah(1,2)] ah(3)
    show "visible i ?lh (unat height) \<le> unat h" "unat h \<le> 8704" by (auto simp: h_def)
  qed
  have a: "a \<noteq> 0" "unat a \<le> 65700" "i = 0 \<Longrightarrow> a = alignment"
  proof -
    show "a \<noteq> 0" by (simp add: a_def)
    show "i = 0 \<Longrightarrow> a = alignment" using s(3) by (auto simp: a_def a0_def)
    have "unat (alignment * ?b) \<le> 65536"
    proof -
      have "unat alignment * unat ?b \<le> 1024 * 64" using s(4) dd(4) by (intro mult_le_mono)
      then show ?thesis by (simp add: unat_word_ariths)
    qed
    then have "unat (drop_bit ?lw (alignment * ?b)) \<le> 65536" by (simp add: unat_drop order_trans [OF div_le_dividend])
    moreover have "unat (drop_bit ?lw (alignment * ?b) + comp_bpp d 0 - 1) \<le> 65700" if "unat (drop_bit ?lw (alignment * ?b)) \<le> 65536" "i \<noteq> 0"
    proof -
      let ?n = "drop_bit ?lw (alignment * ?b)" and ?c = "comp_bpp d 0"
      have c: "?c \<noteq> 0" "unat ?c \<le> 64" using i that(2) dd(5) desc_okD(4) [OF d] by auto
      have s: "unat (?n + ?c) = unat ?n + unat ?c" using that(1) c(2) by (simp add: unat_word_ariths)
      moreover have "1 \<le> unat ?c" using c(1) by (metis One_nat_def Suc_leI unat_gt_0)
      ultimately have "1 \<le> ?n + ?c" by (simp add: word_le_nat_alt)
      then show ?thesis using that(1) c(2) s by (simp add: unat_sub)
    qed
    ultimately show "unat a \<le> 65700"
      using s(4) by (auto simp: a_def a0_def DIV_ROUND_UP_def unat_div intro: order_trans [OF div_le_dividend])
  qed
  have l0: "unat ?b * unat w \<le> 8 * unat l0" "unat l0 \<le> 65608"
  proof -
    have wb: "unat w * unat ?b \<le> 8200 * 64" using w(2) dd(4) by (intro mult_le_mono)
    then have m: "unat (w * ?b) = unat w * unat ?b" by (simp add: unat_word_ariths)
    then have "unat (ALIGN (w * ?b) 8) = align_up (unat w * unat ?b) 8" using wb by (subst unat_ALIGN) simp_all
    moreover note align_up_props [of 8 "unat w * unat ?b"]
    ultimately have "8 * unat (drop_bit 3 (ALIGN (w * ?b) 8)) = align_up (unat w * unat ?b) 8"
      "unat w * unat ?b \<le> align_up (unat w * unat ?b) 8" "align_up (unat w * unat ?b) 8 < unat w * unat ?b + 8"
      by (simp_all add: align_drop_8)
    then show "unat ?b * unat w \<le> 8 * unat l0" "unat l0 \<le> 65608"
      using wb w(2) by (auto simp: l0_def mult.commute)
  qed
  have line: "unat l0 \<le> unat line" "unat line \<le> 131308" "unat a dvd unat line"
  proof -
    have u: "unat line = align_up (unat l0) (unat a)" unfolding line_def by (rule unat_ALIGN [OF a(1)]) (use a(2) l0(2) in simp)
    have "0 < unat a" using a(1) by (simp add: unat_gt_0)
    from align_up_props [OF this, of "unat l0"] show "unat l0 \<le> unat line" "unat line \<le> 131308" "unat a dvd unat line"
      using u a(2) l0(2) by simp_all
  qed
  have "unat line * unat h \<le> 131308 * 8704" using line(2) h(2) by (intro mult_le_mono)
  then have size: "unat (line * h) = unat line * unat h" "unat (line * h) \<le> 1150000000" by (simp_all add: unat_word_ariths)
  have "unat ?b * visible i ?lw (unat width) \<le> 8 * unat line"
    using mult_le_mono2 [OF w(1), of "unat ?b"] l0(1) line(1) by linarith
  moreover have "unat line * visible i ?lh (unat height) \<le> unat (line * h)" using size(1) h(1) by simp
  ultimately show ?thesis using geo size(2) line(3) a(3) by (auto simp: plane_covers_def)
qed


lemma word_le_1: "(x :: u32) \<le> 1 \<Longrightarrow> x = 0 \<or> x = 1"
  by unat_arith

lemma aligned_width:
  assumes "desc_ok d" and "even_tiles d" and "a = push_bit (unat (log2_chroma_w d)) 1"
    and "al = (if fd_tile_ws d \<noteq> 0 then max a (fd_tile_ws d) else a)"
  shows "2 ^ unat (log2_chroma_w d) dvd unat (al :: u32)" "0 < unat al" "unat al \<le> 8"
proof -
  have l: "log2_chroma_w d = 0 \<or> log2_chroma_w d = 1" using assms(1) word_le_1 by (auto simp: desc_ok_def)
  have t: "fd_tile_ws d \<in> {0, 4, 8}" using assms(2) by (simp add: even_tiles_def)
  show "2 ^ unat (log2_chroma_w d) dvd unat al" "0 < unat al" "unat al \<le> 8"
    using l t unfolding assms(3,4) by (auto simp: max_def)
qed

lemma aligned_height:
  assumes "desc_ok d" and "a = push_bit (unat (log2_chroma_h d)) 1"
    and "b = (if fd_tile_hs d \<noteq> 0 then max a (fd_tile_hs d) else a)" and "al = (if il then push_bit 1 b else b)"
  shows "2 ^ unat (log2_chroma_h d) dvd unat (al :: u32)" "0 < unat al" "unat al \<le> 256"
proof -
  have l: "log2_chroma_h d = 0 \<or> log2_chroma_h d = 1" and t: "fd_tile_hs d \<in> {0, 4, 128}"
    using assms(1) word_le_1 by (auto simp: desc_ok_def)
  show "2 ^ unat (log2_chroma_h d) dvd unat al" "0 < unat al" "unat al \<le> 256"
    using l t unfolding assms(2-4) by (auto simp: max_def)
qed

lemma planes_loop_ok:
  assumes "\<forall>j \<in> {i..<i + n}. \<exists>p. plane_geometry d w h al_w al_h al j = Some p \<and> Q j p \<and> unat (pl_size p) \<le> 1150000000"
    and "i + n \<le> 3" and "length pls = 8" and "unat sz \<le> i * 1150000000"
  shows "\<exists>pls' sz'. planes_loop d w h al_w al_h al i n pls sz = Some (pls', sz') \<and> length pls' = 8
    \<and> take i pls' = take i pls \<and> (\<forall>j \<in> {i..<i + n}. Q j (pls' ! j))
    \<and> unat sz' = unat sz + (\<Sum>j = i..<i + n. unat (pl_size (pls' ! j)))"
  using assms
proof (induction n arbitrary: i pls sz)
  case (Suc n)
  obtain p where p: "plane_geometry d w h al_w al_h al i = Some p" "Q i p" "unat (pl_size p) \<le> 1150000000"
    using bspec [OF Suc.prems(1), of i] by auto
  have "unat sz + unat (pl_size p) \<le> Suc i * 1150000000" using Suc.prems(4) p(3) by simp
  moreover have "Suc i * 1150000000 \<le> 3 * 1150000000" using Suc.prems(2) by (intro mult_le_mono1) simp
  ultimately have u: "unat (sz + pl_size p) = unat sz + unat (pl_size p)" "unat (sz + pl_size p) \<le> Suc i * 1150000000"
    by (simp_all add: unat_word_ariths)
  obtain pls' sz' where r: "planes_loop d w h al_w al_h al (Suc i) n (pls[i := p]) (sz + pl_size p) = Some (pls', sz')"
    "length pls' = 8" "take (Suc i) pls' = take (Suc i) (pls[i := p])" "\<forall>j \<in> {Suc i..<Suc i + n}. Q j (pls' ! j)"
    "unat sz' = unat (sz + pl_size p) + (\<Sum>j = Suc i..<Suc i + n. unat (pl_size (pls' ! j)))"
    using Suc.IH [of "Suc i" "pls[i := p]" "sz + pl_size p"] Suc.prems u(2) by auto
  have i: "i < length pls'" "i < length pls" using r(2) Suc.prems(2,3) by simp_all
  have "take (Suc i) pls' ! i = take (Suc i) (pls[i := p]) ! i" by (simp only: r(3))
  then have at: "pls' ! i = p" using i by simp
  have "take i (take (Suc i) pls') = take i (take (Suc i) (pls[i := p]))" by (simp only: r(3))
  then have tk: "take i pls' = take i pls" by (simp add: min_def)
  have "{i..<i + Suc n} = insert i {Suc i..<Suc i + n}" by auto
  then show ?case using r(1,2,4,5) p i tk at u(1) by simp
qed simp

text \<open>The result of \<open>pitcher_get_pix_fmt_info\<close>, for all formats but one whose tiles are 5 samples wide.\<close>

lemma pix_fmt_info_geometry:
  assumes "f \<noteq> PIX_FMT_DTRC10" and "pf_format info = pix_fmt_number f" and "length (pf_planes info) = 8"
    and "pf_width info \<noteq> 0" and "pf_height info \<noteq> 0" and "unat (pf_width info) \<le> 8192" and "unat (pf_height info) \<le> 8192"
    and "unat alignment \<le> 1024"
  shows "\<exists>info' d. pitcher_get_pix_fmt_info v (Some info) alignment = Some (0, Some info') \<and> pf_desc info' = Some d
    \<and> d = pix_fmt_descriptors v ! unat (pix_fmt_number f) \<and> pf_num_planes info' = fd_num_planes d
    \<and> pf_format info' = pf_format info \<and> pf_width info' = pf_width info \<and> pf_height info' = pf_height info
    \<and> length (pf_planes info') = 8
    \<and> (\<forall>i < unat (pf_num_planes info'). plane_covers d i (unat (pf_width info)) (unat (pf_height info)) (pf_planes info' ! i))
    \<and> (\<Sum>i < unat (pf_num_planes info'). unat (pl_size (pf_planes info' ! i))) \<le> unat (pf_size info')"
proof -
  obtain i where i: "i < 52" "pixel_formats ! i = f" "pix_fmt_number f = of_nat i" by (rule format_position)
  note num = number_small [OF i(1)]
  let ?d = "pix_fmt_descriptors v ! i"
  have d: "desc_ok ?d" "even_tiles ?d" using table_ok [OF i(1)] table_even [OF i(1)] i(2) assms(1) by simp_all
  define a where "a = (if alignment = 0 then 1 else alignment)"
  have a: "0 < unat a" "unat a \<le> 1024" using assms(8) by (auto simp: a_def unat_gt_0)
  define al_w0 :: u32 where "al_w0 = push_bit (unat (log2_chroma_w ?d)) 1"
  define al_h0 :: u32 where "al_h0 = push_bit (unat (log2_chroma_h ?d)) 1"
  define al_w where "al_w = (if fd_tile_ws ?d \<noteq> 0 then max al_w0 (fd_tile_ws ?d) else al_w0)"
  define al_h1 where "al_h1 = (if fd_tile_hs ?d \<noteq> 0 then max al_h0 (fd_tile_hs ?d) else al_h0)"
  define al_h where "al_h = (if pf_interlaced info \<noteq> 0 then push_bit 1 al_h1 else al_h1)"
  note aw = aligned_width [OF d al_w0_def al_w_def] and ah = aligned_height [OF d(1) al_h0_def al_h1_def al_h_def]
  let ?n = "unat (fd_num_planes ?d)"
  have n: "?n \<le> 3" "j < ?n \<Longrightarrow> j = 0 \<or> fd_num_planes ?d \<noteq> 1" for j using desc_okD(3) [OF d(1)] by auto
  have geo: "\<forall>j \<in> {0..<0 + ?n}. \<exists>p. plane_geometry ?d (pf_width info) (pf_height info) al_w al_h a j = Some p
      \<and> plane_covers ?d j (unat (pf_width info)) (unat (pf_height info)) p \<and> unat (pl_size p) \<le> 1150000000"
    using plane_geometry_ok [OF d(1) n(2) aw ah assms(6,7) a] by fastforce
  obtain pls sz where l: "planes_loop ?d (pf_width info) (pf_height info) al_w al_h a 0 ?n (pf_planes info) 0 = Some (pls, sz)"
    "\<forall>j \<in> {0..<0 + ?n}. plane_covers ?d j (unat (pf_width info)) (unat (pf_height info)) (pls ! j)"
    "unat sz = unat (0 :: u32) + (\<Sum>j = 0..<0 + ?n. unat (pl_size (pls ! j)))" "length pls = 8"
    using planes_loop_ok [OF geo _ assms(3), of 0] n(1) by auto
  let ?i0 = "info\<lparr>pf_planes := pls, pf_num_planes := fd_num_planes ?d, pf_desc := Some ?d, pf_tile_ws := fd_tile_ws ?d,
                pf_tile_hs := fd_tile_hs ?d\<rparr>"
  define i1 where "i1 = (if pf_size ?i0 < ucast sz then ?i0\<lparr>pf_size := ucast sz\<rparr> else ?i0)"
  have u: "unat (pf_format info) = i" using assms(2) i(3) num by simp
  have get: "pitcher_get_pix_fmt_info v (Some info) alignment = Some (0, Some i1)"
    unfolding pitcher_get_pix_fmt_info_def Let_def option.case u a_def [symmetric] al_w0_def [symmetric] al_w_def [symmetric]
      al_h0_def [symmetric] al_h1_def [symmetric] al_h_def [symmetric] i1_def
    using assms(2,4,5) i(3) num l(1) by simp
  have f: "pf_planes i1 = pls" "pf_num_planes i1 = fd_num_planes ?d" "pf_desc i1 = Some ?d" "pf_format i1 = pf_format info"
    "pf_width i1 = pf_width info" "pf_height i1 = pf_height info"
    by (simp_all add: i1_def)
  have "unat sz < 2 ^ 32" using unsigned_less [of sz] by simp
  then have "unat (ucast sz :: u64) = unat sz" by (simp add: unsigned_ucast_eq take_bit_nat_eq_self)
  then have "unat sz \<le> unat (pf_size i1)" by (auto simp: i1_def word_less_nat_alt)
  then show ?thesis using l(2,3,4) i(3) num get f
    by (intro exI [of _ i1] exI [of _ ?d]) (simp add: atLeast0LessThan)
qed

text \<open>C27: for every format of the table but DTRC10, whatever the four-character codes are, and every picture of up to
8192 x 8192 samples, interlaced or not, with an alignment of at most 1024: \<open>pitcher_get_pix_fmt_info\<close> succeeds, keeps
format and size of the picture and takes the number of planes from the table; every line of a plane has room for the bits
of the samples visible in it, every plane for the lines visible in it, chroma planes for the samples that are left after
rounding up, no product wraps around, and the size of the picture is at least the sum of those of its planes.\<close>

theorem pix_fmt_info_covers:
  assumes "f \<noteq> PIX_FMT_DTRC10" and "pf_format info = pix_fmt_number f" and "length (pf_planes info) = 8"
    and "pf_width info \<noteq> 0" and "pf_height info \<noteq> 0" and "unat (pf_width info) \<le> 8192" and "unat (pf_height info) \<le> 8192"
    and "unat alignment \<le> 1024"
  shows "\<exists>info' d. pitcher_get_pix_fmt_info v (Some info) alignment = Some (0, Some info') \<and> pf_desc info' = Some d
    \<and> d = pix_fmt_descriptors v ! unat (pix_fmt_number f) \<and> pf_num_planes info' = fd_num_planes d
    \<and> pf_format info' = pf_format info \<and> pf_width info' = pf_width info \<and> pf_height info' = pf_height info
    \<and> (\<forall>i < unat (pf_num_planes info'). plane_covers d i (unat (pf_width info)) (unat (pf_height info)) (pf_planes info' ! i))
    \<and> (\<Sum>i < unat (pf_num_planes info'). unat (pl_size (pf_planes info' ! i))) \<le> unat (pf_size info')"
  using pix_fmt_info_geometry [OF assms, of v] by blast

definition no_codes :: v4l2_env where
  "no_codes = \<lparr>fourcc = (\<lambda>_. 0), fmt_const = (\<lambda>_. 0)\<rparr>"

definition full_hd :: pix_fmt_info where
  "full_hd = \<lparr>pf_format = 1, pf_desc = None, pf_width = 1920, pf_height = 1080, pf_interlaced = 0, pf_size = 0,
     pf_num_planes = 0, pf_planes = replicate 8 \<lparr>pl_line = 0, pl_size = 0\<rparr>, pf_tile_ws = 0, pf_tile_hs = 0\<rparr>"

lemma pix_fmt_info_covers_witness:
  "\<exists>info' d. pitcher_get_pix_fmt_info no_codes (Some full_hd) 16 = Some (0, Some info') \<and> pf_desc info' = Some d
    \<and> pf_num_planes info' = fd_num_planes d \<and> plane_covers d 0 1920 1080 (pf_planes info' ! 0)"
proof -
  have n: "fd_num_planes (pix_fmt_descriptors no_codes ! 1) = 2"
    using table_entry [where P = "\<lambda>f d. f = PIX_FMT_NV12 \<longrightarrow> fd_num_planes d = 2" and i = 1 and v = no_codes]
    by (simp add: descriptor_defs pix_desc_def pixel_formats_def)
  show ?thesis
    using pix_fmt_info_covers [of PIX_FMT_NV12 full_hd 16 no_codes] n by (auto simp: full_hd_def)
qed

end
