(* ===== verification/Pixbuf.thy ===== *)
theory Pixbuf
  imports Planes Buffer
begin

text \<open>
  The planes of buffers and copying from one to another (\<open>pitcher_get_buffer_plane\<close> and \<open>pitcher_copy_buffer_data\<close> of
  \<open>pitcher/pixfmt.c\<close>). To the heap of buffers come the formats and the cropping rectangles they point to, and the bytes
  of the memory that planes lie in; a byte that is not there has no value.
\<close>

section \<open>Planes of a buffer\<close>

text \<open>Of \<open>struct v4l2_rect\<close> only the size is used.\<close>

record v4l2_rect =
  r_width :: u32
  r_height :: u32

record img_heap = heap +
  fmts :: "u64 \<Rightarrow> pix_fmt_info option"
  rects :: "u64 \<Rightarrow> v4l2_rect option"
  bytes :: "u64 \<Rightarrow> u8 option"

type_synonym 'e img = "'e img_heap_scheme"

text \<open>The loop over the planes in front of the one asked for: \<open>n\<close> are left.\<close>

fun skip_planes :: "pix_plane_info list \<Rightarrow> nat \<Rightarrow> nat \<Rightarrow> buf_ref \<Rightarrow> buf_ref option" where
  "skip_planes ps i 0 pl = Some pl"
| "skip_planes ps i (Suc n) pl =
     do {
       p \<leftarrow> nth_opt ps i;
       let sz = ucast (pl_size p);
       let pl = pl\<lparr>virt := virt pl + sz\<rparr>;
       let pl = (if phys pl \<noteq> 0 then pl\<lparr>phys := phys pl + sz\<rparr> else pl);
       let pl = (if bytesused pl \<noteq> 0 then pl\<lparr>bytesused := bytesused pl - sz\<rparr> else pl);
       let pl = (if 0 \<le> dmafd pl then pl\<lparr>offset := offset pl + sz\<rparr> else pl);
       skip_planes ps (Suc i) n pl
     }"

text \<open>The result, and what is stored through the third argument, which may be a null pointer.\<close>

definition pitcher_get_buffer_plane :: "u64 \<Rightarrow> u32 \<Rightarrow> buf_ref option \<Rightarrow> 'e img \<Rightarrow> (int \<times> buf_ref option) option" where
  "pitcher_get_buffer_plane b ix plane w =
     (if b = 0 \<or> plane = None then Some (err RET_E_NULL_POINTER, plane)
      else do {
        e \<leftarrow> buf_at b w;
        let bf = buffer e;
        if format bf = 0
        then (if bcount bf \<le> ix then Some (err RET_E_INVAL, plane)
              else do { pl \<leftarrow> nth_opt (planes bf) (unat ix); Some (0, Some pl) })
        else do {
          f \<leftarrow> fmts w (format bf);
          if pf_num_planes f \<le> ix then Some (err RET_E_INVAL, plane)
          else if bcount bf \<noteq> 1 \<and> bcount bf \<noteq> pf_num_planes f then Some (err RET_E_INVAL, plane)
          else if bcount bf = pf_num_planes f then do { pl \<leftarrow> nth_opt (planes bf) (unat ix); Some (0, Some pl) }
          else do {
            pl \<leftarrow> nth_opt (planes bf) 0;
            pl \<leftarrow> skip_planes (pf_planes f) 0 (unat ix) pl;
            first \<leftarrow> nth_opt (pf_planes f) 0;
            p \<leftarrow> nth_opt (pf_planes f) (unat ix);
            let pl = (if ix = 0 then pl\<lparr>bytesused := ucast (pl_size first)\<rparr> else pl);
            Some (0, Some (pl\<lparr>plane_len := ucast (pl_size p)\<rparr>))
          }
        }
      })"

definition no_plane :: buf_ref where
  "no_plane = \<lparr>virt = 0, plane_len = 0, phys = 0, bytesused = 0, offset = 0, dmafd = 0\<rparr>"

definition pitcher_get_buffer_plane_size :: "u64 \<Rightarrow> u32 \<Rightarrow> 'e img \<Rightarrow> u64 option" where
  "pitcher_get_buffer_plane_size b ix w =
     do {
       (r, pl) \<leftarrow> pitcher_get_buffer_plane b ix (Some no_plane) w;
       if r \<noteq> 0 then Some 0 else map_option plane_len pl
     }"

definition pitcher_get_frame_line_vaddr :: "u64 \<Rightarrow> u32 \<Rightarrow> u32 \<Rightarrow> 'e img \<Rightarrow> u64 option" where
  "pitcher_get_frame_line_vaddr b ix y w =
     do {
       (r, pl) \<leftarrow> pitcher_get_buffer_plane b ix (Some no_plane) w;
       if r \<noteq> 0 then Some 0
       else do {
         pl \<leftarrow> pl;
         e \<leftarrow> buf_at b w;
         f \<leftarrow> (if format (buffer e) = 0 then None else fmts w (format (buffer e)));
         p \<leftarrow> nth_opt (pf_planes f) (unat ix);
         Some (virt pl + ucast (y * pl_line p))
       }
     }"


section \<open>Copying\<close>

text \<open>\<open>memcpy\<close>: both areas must be there and must not overlap.\<close>

definition area :: "u64 \<Rightarrow> nat \<Rightarrow> u64 list" where
  "area a n = map (\<lambda>k. a + of_nat k) [0..<n]"

definition memcpy :: "u64 \<Rightarrow> u64 \<Rightarrow> nat \<Rightarrow> 'e img \<Rightarrow> 'e img option" where
  "memcpy d s n w =
     (if list_all (\<lambda>a. bytes w a \<noteq> None) (area s n @ area d n) \<and> list_all (\<lambda>a. a \<notin> set (area d n)) (area s n)
      then Some (w\<lparr>bytes := (\<lambda>a. if unat (a - d) < n then bytes w (a - d + s) else bytes w a)\<rparr>)
      else None)"

text \<open>The inner loop of \<open>pitcher_copy_buffer_data\<close>, with \<open>n\<close> lines left.\<close>

fun copy_lines :: "nat \<Rightarrow> u64 \<Rightarrow> u64 \<Rightarrow> u32 \<Rightarrow> u32 \<Rightarrow> u32 \<Rightarrow> u64 \<Rightarrow> 'e img \<Rightarrow> (u64 \<times> 'e img) option" where
  "copy_lines 0 pdst psrc line sl dl used w = Some (used, w)"
| "copy_lines (Suc n) pdst psrc line sl dl used w =
     do {
       w \<leftarrow> memcpy pdst psrc (unat line) w;
       copy_lines n (pdst + ucast dl) (psrc + ucast sl) line sl dl (used + ucast dl) w
     }"

definition set_bytesused :: "u64 \<Rightarrow> u32 \<Rightarrow> (u64 \<Rightarrow> u64) \<Rightarrow> 'e img \<Rightarrow> 'e img option" where
  "set_bytesused b ix g w =
     do {
       e \<leftarrow> buf_at b w;
       pl \<leftarrow> nth_opt (planes (buffer e)) (unat ix);
       Some (set_buf b (e\<lparr>buffer := (buffer e)\<lparr>planes := (planes (buffer e))[unat ix := pl\<lparr>bytesused := g (bytesused pl)\<rparr>]\<rparr>\<rparr>) w)
     }"

text \<open>How much of a plane is copied: the length of a line in bytes and the number of lines.\<close>

definition copy_size :: "pixel_format_desc \<Rightarrow> v4l2_rect option \<Rightarrow> pix_fmt_info \<Rightarrow> pix_fmt_info \<Rightarrow> nat \<Rightarrow> u32 \<times> u32" where
  "copy_size d crp sf df i =
     (let (w, h) = (case crp of
                      Some c \<Rightarrow> if r_width c \<noteq> 0 \<and> r_height c \<noteq> 0 then (r_width c, r_height c) else (pf_width sf, pf_height sf)
                    | None \<Rightarrow> (pf_width sf, pf_height sf));
          w = (if pf_width df < w then pf_width df else w);
          h = (if pf_height df < h then pf_height df else h);
          w = ALIGN w (push_bit (unat (log2_chroma_w d)) 1);
          h = ALIGN h (push_bit (unat (log2_chroma_h d)) 1);
          (w, h) = (if i \<noteq> 0 then (drop_bit (unat (log2_chroma_w d)) w, drop_bit (unat (log2_chroma_h d)) h) else (w, h))
      in (drop_bit 3 (ALIGN (w * comp_bpp d i) 8), h))"

text \<open>One iteration of the loop over the planes. A plane that is not found leaves a variable that was never set.\<close>

definition copy_plane :: "u64 \<Rightarrow> u64 \<Rightarrow> v4l2_rect option \<Rightarrow> pixel_format_desc \<Rightarrow> nat \<Rightarrow> 'e img \<Rightarrow> 'e img option" where
  "copy_plane src dst crp d i w =
     do {
       (rs, sp) \<leftarrow> pitcher_get_buffer_plane src (of_nat i) (Some no_plane) w;
       (rd, dp) \<leftarrow> pitcher_get_buffer_plane dst (of_nat i) (Some no_plane) w;
       sp \<leftarrow> (if rs = 0 then sp else None);
       dp \<leftarrow> (if rd = 0 then dp else None);
       se \<leftarrow> buf_at src w;
       de \<leftarrow> buf_at dst w;
       sf \<leftarrow> fmts w (format (buffer se));
       df \<leftarrow> fmts w (format (buffer de));
       sl \<leftarrow> nth_opt (pf_planes sf) i;
       dl \<leftarrow> nth_opt (pf_planes df) i;
       let (line, h) = copy_size d crp sf df i;
       (used, w) \<leftarrow> copy_lines (unat h) (virt dp) (virt sp) line (pl_line sl) (pl_line dl) 0 w;
       if of_nat i < bcount (buffer de) then set_bytesused dst (of_nat i) (\<lambda>_. used) w
       else set_bytesused dst (bcount (buffer de) - 1) (\<lambda>u. u + used) w
     }"

fun copy_planes :: "u64 \<Rightarrow> u64 \<Rightarrow> v4l2_rect option \<Rightarrow> pixel_format_desc \<Rightarrow> nat \<Rightarrow> nat \<Rightarrow> 'e img \<Rightarrow> 'e img option" where
  "copy_planes src dst crp d i 0 w = Some w"
| "copy_planes src dst crp d i (Suc n) w = do { w \<leftarrow> copy_plane src dst crp d i w; copy_planes src dst crp d (Suc i) n w }"

definition fmt_of :: "u64 \<Rightarrow> 'e img \<Rightarrow> pix_fmt_info option option" where
  "fmt_of b w = do { e \<leftarrow> buf_at b w; if format (buffer e) = 0 then Some None else do { f \<leftarrow> fmts w (format (buffer e)); Some (Some f) } }"

text \<open>The cropping rectangle of a buffer, or that there is none.\<close>

definition crop_of :: "ext_buffer \<Rightarrow> 'e img \<Rightarrow> v4l2_rect option option" where
  "crop_of e w = (if crop (buffer e) = 0 then Some None else map_option Some (rects w (crop (buffer e))))"

definition pitcher_copy_buffer_data :: "u64 \<Rightarrow> u64 \<Rightarrow> 'e img \<Rightarrow> (int \<times> 'e img) option" where
  "pitcher_copy_buffer_data src dst w =
     (if src = 0 then Some (err RET_E_INVAL, w)
      else do {
        sf \<leftarrow> fmt_of src w;
        if sf = None \<or> dst = 0 then Some (err RET_E_INVAL, w)
        else do {
          df \<leftarrow> fmt_of dst w;
          sf \<leftarrow> sf;
          case df of
            None \<Rightarrow> Some (err RET_E_INVAL, w)
          | Some df \<Rightarrow>
              if pf_format sf \<noteq> pf_format df then Some (err RET_E_INVAL, w)
              else if pf_tile_ws sf \<noteq> 0 \<or> pf_tile_hs sf \<noteq> 0 then Some (err RET_E_NOT_SUPPORT, w)
              else if PIX_FMT_COMPRESSED \<le> pf_format sf
              then do {
                (rs, sp) \<leftarrow> pitcher_get_buffer_plane src 0 (Some no_plane) w;
                (rd, dp) \<leftarrow> pitcher_get_buffer_plane dst 0 (Some no_plane) w;
                sp \<leftarrow> (if rs = 0 then sp else None);
                dp \<leftarrow> (if rd = 0 then dp else None);
                if plane_len dp < bytesused sp then Some (err RET_E_INVAL, w)
                else do {
                  w \<leftarrow> memcpy (virt dp) (virt sp) (unat (bytesused sp)) w;
                  w \<leftarrow> set_bytesused dst 0 (\<lambda>_. bytesused sp) w;
                  Some (ret_val RET_OK, w)
                }
              }
              else do {
                e \<leftarrow> buf_at src w;
                crp \<leftarrow> crop_of e w;
                d \<leftarrow> (if pf_num_planes sf = 0 then Some no_desc else pf_desc sf);
                w \<leftarrow> copy_planes src dst crp d 0 (unat (pf_num_planes sf)) w;
                Some (ret_val RET_OK, w)
              }
        }
      })"


section \<open>Lines\<close>

definition region :: "u64 \<Rightarrow> nat \<Rightarrow> u64 set" where
  "region a n = {x. unat (x - a) < n}"

lemma area_region: "n \<le> 2 ^ 64 \<Longrightarrow> set (area a n) = region a n"
proof (intro equalityI subsetI)
  fix x assume n: "n \<le> 2 ^ 64" and "x \<in> set (area a n)"
  then obtain k where k: "x = a + of_nat k" "k < n" by (auto simp: area_def)
  then have "unat (x - a) = k" using n by (simp add: unat_of_nat take_bit_nat_eq_self)
  then show "x \<in> region a n" using k(2) by (simp add: region_def)
next
  fix x assume "x \<in> region a n"
  then have "a + of_nat (unat (x - a)) \<in> set (area a n)" by (simp add: region_def area_def del: of_nat_unat)
  then show "x \<in> set (area a n)" by simp
qed

lemma in_region: "k < n \<Longrightarrow> n \<le> 2 ^ 64 \<Longrightarrow> a + of_nat k \<in> region a n"
  by (simp add: region_def unat_of_nat take_bit_nat_eq_self)

lemma region_mono: "m \<le> n \<Longrightarrow> region a m \<subseteq> region a n"
  by (auto simp: region_def)

text \<open>A region behind the first \<open>m\<close> bytes of another.\<close>

lemma region_shift:
  assumes "m + n < 2 ^ 64"
  shows "x \<in> region (a + of_nat m) n \<longleftrightarrow> m \<le> unat (x - a) \<and> x \<in> region a (m + n)"
proof
  assume "x \<in> region (a + of_nat m) n"
  then have k: "unat (x - (a + of_nat m)) < n" by (simp add: region_def)
  have "x - a = of_nat (m + unat (x - (a + of_nat m)))" by simp
  then have "unat (x - a) = m + unat (x - (a + of_nat m))" using k assms by (simp only: unat_of_nat) (simp add: take_bit_nat_eq_self)
  then show "m \<le> unat (x - a) \<and> x \<in> region a (m + n)" using k by (simp add: region_def)
next
  assume x: "m \<le> unat (x - a) \<and> x \<in> region a (m + n)"
  have "x - (a + of_nat m) = of_nat (unat (x - a) - m)" using x by (simp add: of_nat_diff)
  moreover have "unat (x - a) < 2 ^ 64" by (rule order_less_le_trans [OF unsigned_less]) simp
  ultimately have "unat (x - (a + of_nat m)) = unat (x - a) - m"
    by (simp only: unat_of_nat) (simp add: take_bit_nat_eq_self less_imp_diff_less)
  moreover have "unat (x - a) - m < n" using x by (simp add: region_def less_diff_conv2)
  ultimately show "x \<in> region (a + of_nat m) n" by (simp add: region_def)
qed

lemma memcpy_ok:
  assumes "n < 2 ^ 64" and "\<forall>x \<in> region s n \<union> region d n. bytes w x \<noteq> None" and "region s n \<inter> region d n = {}"
  shows "memcpy d s n w = Some (w\<lparr>bytes := (\<lambda>a. if a \<in> region d n then bytes w (a - d + s) else bytes w a)\<rparr>)"
proof -
  have "set (area s n) = region s n" "set (area d n) = region d n" using area_region assms(1) by simp_all
  then have "list_all (\<lambda>a. bytes w a \<noteq> None) (area s n @ area d n) \<and> list_all (\<lambda>a. a \<notin> set (area d n)) (area s n)"
    using assms(2,3) by (auto simp: list_all_iff)
  then show ?thesis by (simp add: memcpy_def region_def)
qed

text \<open>Copying \<open>n\<close> lines between areas that do not overlap.\<close>

definition lines_copied :: "(u64 \<Rightarrow> u8 option) \<Rightarrow> (u64 \<Rightarrow> u8 option) \<Rightarrow> nat \<Rightarrow> u64 \<Rightarrow> u64 \<Rightarrow> nat \<Rightarrow> nat \<Rightarrow> nat \<Rightarrow> bool" where
  "lines_copied m' m n d s line sl dl \<longleftrightarrow>
     (\<forall>r < n. \<forall>k < line. m' (d + of_nat (r * dl + k)) = m (s + of_nat (r * sl + k)))"

lemma copy_lines_ok:
  assumes "unat line \<le> unat sl" and "unat line \<le> unat dl" and "n * unat sl < 2 ^ 64" and "n * unat dl < 2 ^ 64"
    and "\<forall>x \<in> region s (n * unat sl) \<union> region d (n * unat dl). bytes w x \<noteq> None"
    and "region s (n * unat sl) \<inter> region d (n * unat dl) = {}"
  shows "\<exists>m used'. copy_lines n d s line sl dl used w = Some (used', w\<lparr>bytes := m\<rparr>)
    \<and> lines_copied m (bytes w) n d s (unat line) (unat sl) (unat dl)
    \<and> (\<forall>x. x \<notin> region d (n * unat dl) \<longrightarrow> m x = bytes w x) \<and> (\<forall>x. m x = None \<longleftrightarrow> bytes w x = None)"
  using assms(3-)
proof (induction n arbitrary: d s w used)
  case 0
  then show ?case by (simp add: lines_copied_def exI [of _ "bytes w"])
next
  case (Suc n)
  let ?l = "unat line" and ?sl = "unat sl" and ?dl = "unat dl"
  let ?m = "\<lambda>a. if a \<in> region d ?l then bytes w (a - d + s) else bytes w a"
  have ls: "region s ?l \<subseteq> region s (Suc n * ?sl)" "region d ?l \<subseteq> region d (Suc n * ?dl)"
    using assms(1,2) by (auto intro!: region_mono simp: trans_le_add1)
  have l64: "?l < 2 ^ 64" by (rule order_less_le_trans [OF unsigned_less]) simp
  have c: "memcpy d s ?l w = Some (w\<lparr>bytes := ?m\<rparr>)"
    by (rule memcpy_ok) (use l64 Suc.prems(3,4) ls in blast)+
  have src: "a - d + s \<in> region s ?l" if "a \<in> region d ?l" for a using that by (simp add: region_def)
  have alive: "?m x = None \<longleftrightarrow> bytes w x = None" for x
  proof (cases "x \<in> region d ?l")
    case True
    then have "bytes w x \<noteq> None" "bytes w (x - d + s) \<noteq> None" using src ls Suc.prems(3) by blast+
    then show ?thesis using True by (simp only: if_True)
  qed simp
  let ?d = "d + ucast dl" and ?s = "s + ucast sl"
  have u: "(ucast dl :: u64) = of_nat ?dl" "(ucast sl :: u64) = of_nat ?sl" by simp_all
  have sd: "x \<in> region ?d (n * ?dl) \<longleftrightarrow> ?dl \<le> unat (x - d) \<and> x \<in> region d (Suc n * ?dl)" for x
    unfolding u using region_shift [of ?dl "n * ?dl" x d] Suc.prems(2) by simp
  have ss: "x \<in> region ?s (n * ?sl) \<longleftrightarrow> ?sl \<le> unat (x - s) \<and> x \<in> region s (Suc n * ?sl)" for x
    unfolding u using region_shift [of ?sl "n * ?sl" x s] Suc.prems(1) by simp
  have "\<exists>m used'. copy_lines n ?d ?s line sl dl (used + ucast dl) (w\<lparr>bytes := ?m\<rparr>) = Some (used', w\<lparr>bytes := ?m\<rparr>\<lparr>bytes := m\<rparr>)
    \<and> lines_copied m (bytes (w\<lparr>bytes := ?m\<rparr>)) n ?d ?s ?l ?sl ?dl
    \<and> (\<forall>x. x \<notin> region ?d (n * ?dl) \<longrightarrow> m x = bytes (w\<lparr>bytes := ?m\<rparr>) x) \<and> (\<forall>x. m x = None \<longleftrightarrow> bytes (w\<lparr>bytes := ?m\<rparr>) x = None)"
    by (rule Suc.IH) (use Suc.prems alive sd ss in auto)
  then obtain m used' where m: "copy_lines n ?d ?s line sl dl (used + ucast dl) (w\<lparr>bytes := ?m\<rparr>) = Some (used', w\<lparr>bytes := m\<rparr>)"
    "lines_copied m ?m n ?d ?s ?l ?sl ?dl" "\<And>x. x \<notin> region ?d (n * ?dl) \<Longrightarrow> m x = ?m x" "\<And>x. m x = None \<longleftrightarrow> bytes w x = None"
    using alive by auto
  have row0: "m (d + of_nat k) = bytes w (s + of_nat k)" if "k < ?l" for k
  proof -
    have k: "unat (of_nat k :: u64) = k" using that l64 by (simp add: unat_of_nat take_bit_nat_eq_self)
    then have "d + of_nat k \<notin> region ?d (n * ?dl)" using sd [of "d + of_nat k"] that assms(2) by simp
    moreover have "d + of_nat k \<in> region d ?l" using k that by (simp add: region_def)
    ultimately show ?thesis using m(3) by (simp add: add.commute)
  qed
  have rows: "m (d + of_nat (Suc r * ?dl + k)) = bytes w (s + of_nat (Suc r * ?sl + k))" if rk: "r < n" "k < ?l" for r k
  proof -
    have "m (?d + of_nat (r * ?dl + k)) = ?m (?s + of_nat (r * ?sl + k))" using m(2) rk by (simp add: lines_copied_def)
    moreover have "?s + of_nat (r * ?sl + k) \<in> region s (Suc n * ?sl)"
    proof -
      have "Suc r * ?sl \<le> n * ?sl" using rk(1) by (intro mult_le_mono1) simp
      then have "?sl + (r * ?sl + k) < Suc n * ?sl" using rk(2) assms(1) by simp
      then have "s + of_nat (?sl + (r * ?sl + k)) \<in> region s (Suc n * ?sl)" using Suc.prems(1) by (intro in_region) simp_all
      then show ?thesis by (simp add: add.assoc)
    qed
    then have "?s + of_nat (r * ?sl + k) \<notin> region d ?l" using Suc.prems(4) ls(2) by blast
    ultimately show ?thesis by (simp add: add.assoc)
  qed
  have "lines_copied m (bytes w) (Suc n) d s ?l ?sl ?dl"
    unfolding lines_copied_def
  proof (intro allI impI)
    fix r k assume "r < Suc n" "k < ?l"
    then show "m (d + of_nat (r * ?dl + k)) = bytes w (s + of_nat (r * ?sl + k))"
      using row0 rows by (cases r) auto
  qed
  moreover have "m x = bytes w x" if "x \<notin> region d (Suc n * ?dl)" for x
    using m(3) [of x] sd [of x] that ls(2) by auto
  ultimately show ?case using c m(1,4) by auto
qed


section \<open>Planes\<close>

text \<open>Where plane \<open>i\<close> of a buffer lies. Only the bytes used of planes change while a buffer is copied.\<close>

definition plane_virt :: "u64 \<Rightarrow> nat \<Rightarrow> 'e img \<Rightarrow> u64 option" where
  "plane_virt b i w = (case pitcher_get_buffer_plane b (of_nat i) (Some no_plane) w of
     Some (r, Some pl) \<Rightarrow> if r = 0 then Some (virt pl) else None | _ \<Rightarrow> None)"

definition same_but_used :: "ext_buffer \<Rightarrow> ext_buffer \<Rightarrow> bool" where
  "same_but_used e e' \<longleftrightarrow> (\<exists>ps. e' = e\<lparr>buffer := (buffer e)\<lparr>planes := ps\<rparr>\<rparr>
     \<and> map (\<lambda>p. p\<lparr>bytesused := 0\<rparr>) ps = map (\<lambda>p. p\<lparr>bytesused := 0\<rparr>) (planes (buffer e)))"

definition same_layout :: "'e img \<Rightarrow> 'e img \<Rightarrow> bool" where
  "same_layout w w' \<longleftrightarrow> fmts w' = fmts w \<and> rects w' = rects w
     \<and> (\<forall>b. rel_option same_but_used (buf_at b w) (buf_at b w'))"

lemma same_but_used_refl [simp]: "same_but_used e e"
  by (simp add: same_but_used_def exI [of _ "planes (buffer e)"])

lemma same_but_used_trans: "same_but_used e f \<Longrightarrow> same_but_used f g \<Longrightarrow> same_but_used e g"
  by (auto simp: same_but_used_def)

lemma same_layout_refl [simp]: "same_layout w w"
  by (simp add: same_layout_def option.rel_refl)

lemma same_layout_trans:
  assumes "same_layout u v" and "same_layout v w"
  shows "same_layout u w"
  unfolding same_layout_def
proof (intro conjI allI)
  fix b
  have "rel_option same_but_used (buf_at b u) (buf_at b v)" "rel_option same_but_used (buf_at b v) (buf_at b w)"
    using assms by (simp_all add: same_layout_def)
  then show "rel_option same_but_used (buf_at b u) (buf_at b w)"
    by (auto simp: option_rel_Some1 elim!: option.rel_cases intro: same_but_used_trans)
qed (use assms in \<open>simp_all add: same_layout_def\<close>)

lemma same_layout_bytes [simp]: "same_layout w (w\<lparr>bytes := m\<rparr>)"
  by (simp add: same_layout_def buf_at_def option.rel_refl)

lemma skip_planes_virt:
  "p\<lparr>bytesused := 0\<rparr> = q\<lparr>bytesused := 0\<rparr>
    \<Longrightarrow> map_option virt (skip_planes ps i n p) = map_option virt (skip_planes ps i n q)"
proof (induction n arbitrary: i p q)
  case 0
  then show ?case by (metis (no_types) buf_ref.select_convs(1) buf_ref.surjective buf_ref.update_convs(4) option.map(2) skip_planes.simps(1))
next
  case (Suc n)
  have f: "virt p = virt q" "phys p = phys q" "offset p = offset q" "dmafd p = dmafd q" "plane_len p = plane_len q"
    using arg_cong [OF Suc.prems, of virt] arg_cong [OF Suc.prems, of phys] arg_cong [OF Suc.prems, of offset]
      arg_cong [OF Suc.prems, of dmafd] arg_cong [OF Suc.prems, of plane_len] by simp_all
  show ?case
  proof (cases "i < length ps")
    case True
    let ?step = "\<lambda>pl. let sz = ucast (pl_size (ps ! i)); pl = pl\<lparr>virt := virt pl + sz\<rparr>;
       pl = (if phys pl \<noteq> 0 then pl\<lparr>phys := phys pl + sz\<rparr> else pl);
       pl = (if bytesused pl \<noteq> 0 then pl\<lparr>bytesused := bytesused pl - sz\<rparr> else pl)
     in (if 0 \<le> dmafd pl then pl\<lparr>offset := offset pl + sz\<rparr> else pl)"
    have "(?step p)\<lparr>bytesused := 0\<rparr> = (?step q)\<lparr>bytesused := 0\<rparr>" using Suc.prems f by (cases p; cases q) (simp add: Let_def)
    from Suc.IH [OF this, of "Suc i"] show ?thesis using True by (simp add: Let_def)
  qed simp
qed


text \<open>The address of a plane, without the rest of it.\<close>

lemma plane_virt_eq:
  "plane_virt b i w = (if b = 0 then None else do {
     e \<leftarrow> buf_at b w;
     let bf = buffer e; let ix = (of_nat i :: u32);
     if format bf = 0 then (if bcount bf \<le> ix then None else map_option virt (nth_opt (planes bf) (unat ix)))
     else do {
       f \<leftarrow> fmts w (format bf);
       if pf_num_planes f \<le> ix \<or> bcount bf \<noteq> 1 \<and> bcount bf \<noteq> pf_num_planes f then None
       else if bcount bf = pf_num_planes f then map_option virt (nth_opt (planes bf) (unat ix))
       else if nth_opt (pf_planes f) 0 = None \<or> nth_opt (pf_planes f) (unat ix) = None then None
       else map_option virt (do { pl \<leftarrow> nth_opt (planes bf) 0; skip_planes (pf_planes f) 0 (unat ix) pl })
     } })"
proof -
  have e: "err RET_E_INVAL \<noteq> 0" "err RET_E_NULL_POINTER \<noteq> 0" by simp_all
  show ?thesis
    unfolding plane_virt_def pitcher_get_buffer_plane_def Let_def
    by (cases "buf_at b w"; simp add: e split: Option.bind_splits option.splits if_splits)
qed

lemma plane_virt_same:
  assumes "same_layout w w'"
  shows "plane_virt b i w' = plane_virt b i w"
proof -
  have r: "rel_option same_but_used (buf_at b w) (buf_at b w')" and f: "fmts w' = fmts w" using assms by (simp_all add: same_layout_def)
  show ?thesis
  proof (cases "buf_at b w")
    case None
    then have "buf_at b w' = None" using r by simp
    then show ?thesis using None by (simp add: plane_virt_eq)
  next
    case (Some e)
    then obtain e' where e': "buf_at b w' = Some e'" "same_but_used e e'" using r by (auto simp: option_rel_Some1)
    obtain ps where ps: "e' = e\<lparr>buffer := (buffer e)\<lparr>planes := ps\<rparr>\<rparr>"
      "map (\<lambda>p. p\<lparr>bytesused := 0\<rparr>) ps = map (\<lambda>p. p\<lparr>bytesused := 0\<rparr>) (planes (buffer e))"
      using e'(2) by (auto simp: same_but_used_def)
    let ?qs = "planes (buffer e)"
    have len: "length ps = length ?qs" using arg_cong [OF ps(2), of length] by simp
    have at: "(ps ! j)\<lparr>bytesused := 0\<rparr> = (?qs ! j)\<lparr>bytesused := 0\<rparr>" if "j < length ?qs" for j
      using arg_cong [OF ps(2), of "\<lambda>xs. xs ! j"] that len by simp
    have v: "virt (ps ! j) = virt (?qs ! j)" if "j < length ?qs" for j using arg_cong [OF at [OF that], of virt] by simp
    have direct: "map_option virt (nth_opt ps j) = map_option virt (nth_opt ?qs j)" for j
      using v [of j] len by (cases "j < length ?qs") simp_all
    have skip: "map_option virt (do { pl \<leftarrow> nth_opt ps 0; skip_planes fs 0 n pl })
        = map_option virt (do { pl \<leftarrow> nth_opt ?qs 0; skip_planes fs 0 n pl })" for fs n
      using skip_planes_virt [OF at [of 0], of fs 0 n] len by (cases ?qs) auto
    have eta: "skip_planes fs 0 n = (\<lambda>pl. skip_planes fs 0 n pl)" for fs n by simp
    have b: "format (buffer e') = format (buffer e)" "bcount (buffer e') = bcount (buffer e)" "planes (buffer e') = ps"
      by (simp_all add: ps(1))
    show ?thesis
      unfolding plane_virt_eq Some e'(1) f Let_def Option.bind.simps b direct skip ..
  qed
qed

end
