(* ===== verification/Copying.thy ===== *)
theory Copying
  imports Pixbuf
begin

text \<open>
  What \<open>pitcher_copy_buffer_data\<close> does to pictures: one plane, all planes, and how much of a plane a picture takes.
\<close>


section \<open>One plane\<close>

text \<open>Bytes of a plane at \<open>a\<close> that the copy reads or writes: so many lines of the format \<open>f\<close>.\<close>

definition copied_area :: "nat \<Rightarrow> pix_fmt_info \<Rightarrow> nat \<Rightarrow> u64 \<Rightarrow> u64 set" where
  "copied_area h f i a = region a (h * unat (pl_line (pf_planes f ! i)))"

text \<open>Buffers with formats whose planes can be found, large enough for the copy.\<close>

definition copy_ready :: "u64 \<Rightarrow> u64 \<Rightarrow> pix_fmt_info \<Rightarrow> pix_fmt_info \<Rightarrow> 'e img \<Rightarrow> bool" where
  "copy_ready src dst sf df w \<longleftrightarrow> (\<exists>se de. buf_at src w = Some se \<and> buf_at dst w = Some de
     \<and> fmts w (format (buffer se)) = Some sf \<and> fmts w (format (buffer de)) = Some df
     \<and> bcount (buffer de) \<noteq> 0 \<and> unat (bcount (buffer de)) \<le> length (planes (buffer de)))"

lemma same_layout_buf:
  assumes "same_layout w w'" and "buf_at b w = Some e"
  obtains ps where "buf_at b w' = Some (e\<lparr>buffer := (buffer e)\<lparr>planes := ps\<rparr>\<rparr>)" and "length ps = length (planes (buffer e))"
proof -
  have "rel_option same_but_used (buf_at b w) (buf_at b w')" using assms(1) by (simp add: same_layout_def)
  then obtain e' where e': "buf_at b w' = Some e'" "same_but_used e e'" using assms(2) by (auto simp: option_rel_Some1)
  from e'(2) obtain ps where ps: "e' = e\<lparr>buffer := (buffer e)\<lparr>planes := ps\<rparr>\<rparr>"
    "map (\<lambda>p. p\<lparr>bytesused := 0\<rparr>) ps = map (\<lambda>p. p\<lparr>bytesused := 0\<rparr>) (planes (buffer e))"
    unfolding same_but_used_def by blast
  show ?thesis by (rule that [of ps]) (use e'(1) ps(1) arg_cong [OF ps(2), of length] in simp_all)
qed

lemma copy_ready_same:
  assumes "same_layout w w'" and "copy_ready src dst sf df w"
  shows "copy_ready src dst sf df w'"
proof -
  obtain se de where a: "buf_at src w = Some se" "buf_at dst w = Some de"
     "fmts w (format (buffer se)) = Some sf" "fmts w (format (buffer de)) = Some df"
     "bcount (buffer de) \<noteq> 0" "unat (bcount (buffer de)) \<le> length (planes (buffer de))"
    using assms(2) by (auto simp: copy_ready_def)
  obtain ps where ps: "buf_at src w' = Some (se\<lparr>buffer := (buffer se)\<lparr>planes := ps\<rparr>\<rparr>)"
    by (rule same_layout_buf [OF assms(1) a(1)])
  obtain qs where qs: "buf_at dst w' = Some (de\<lparr>buffer := (buffer de)\<lparr>planes := qs\<rparr>\<rparr>)" "length qs = length (planes (buffer de))"
    by (rule same_layout_buf [OF assms(1) a(2)])
  have "fmts w' = fmts w" using assms(1) by (simp add: same_layout_def)
  then show ?thesis using a ps qs by (simp add: copy_ready_def)
qed

lemma set_bytesused_ok:
  assumes "buf_at b w = Some e" and "unat ix < length (planes (buffer e))"
  obtains w' where "set_bytesused b ix g w = Some w'" and "same_layout w w'" and "bytes w' = bytes w"
proof -
  let ?pl = "planes (buffer e) ! unat ix"
  let ?ps = "(planes (buffer e))[unat ix := ?pl\<lparr>bytesused := g (bytesused ?pl)\<rparr>]"
  let ?w = "set_buf b (e\<lparr>buffer := (buffer e)\<lparr>planes := ?ps\<rparr>\<rparr>) w"
  have b: "b \<noteq> 0" using assms(1) by (auto simp: buf_at_def)
  have "map (\<lambda>p. p\<lparr>bytesused := 0\<rparr>) ?ps = map (\<lambda>p. p\<lparr>bytesused := 0\<rparr>) (planes (buffer e))"
    by (rule nth_equalityI) (use assms(2) in \<open>auto simp: nth_list_update\<close>)
  then have "same_but_used e (e\<lparr>buffer := (buffer e)\<lparr>planes := ?ps\<rparr>\<rparr>)" unfolding same_but_used_def by blast
  then have "same_layout w ?w" using assms(1) b
    by (auto simp: same_layout_def buf_at_def set_buf_def option.rel_refl)
  moreover have "set_bytesused b ix g w = Some ?w" using assms by (simp add: set_bytesused_def nth_opt_def)
  moreover have "bytes ?w = bytes w" by (simp add: set_buf_def)
  ultimately show ?thesis using that by blast
qed

lemma plane_virtD:
  assumes "plane_virt b i w = Some a"
  obtains pl where "pitcher_get_buffer_plane b (of_nat i) (Some no_plane) w = Some (0, Some pl)" and "virt pl = a"
  using assms unfolding plane_virt_def by (auto split: option.splits prod.splits if_splits)

lemma copy_plane_ok:
  assumes ready: "copy_ready src dst sf df w"
    and virt: "plane_virt src i w = Some s" "plane_virt dst i w = Some t"
    and i: "i < length (pf_planes sf)" "i < length (pf_planes df)"
    and size: "copy_size d crp sf df i = (line, h)"
      "unat line \<le> unat (pl_line (pf_planes sf ! i))" "unat line \<le> unat (pl_line (pf_planes df ! i))"
    and mem: "\<forall>x \<in> copied_area (unat h) sf i s \<union> copied_area (unat h) df i t. bytes w x \<noteq> None"
      "copied_area (unat h) sf i s \<inter> copied_area (unat h) df i t = {}"
  obtains w' where "copy_plane src dst crp d i w = Some w'" and "same_layout w w'"
    and "lines_copied (bytes w') (bytes w) (unat h) t s (unat line) (unat (pl_line (pf_planes sf ! i))) (unat (pl_line (pf_planes df ! i)))"
    and "\<And>x. x \<notin> copied_area (unat h) df i t \<Longrightarrow> bytes w' x = bytes w x" and "\<And>x. bytes w' x = None \<longleftrightarrow> bytes w x = None"
proof -
  let ?sl = "pl_line (pf_planes sf ! i)" and ?dl = "pl_line (pf_planes df ! i)"
  have big: "unat h * unat (l :: u32) < 2 ^ 64" for l
  proof -
    have "unat h < 2 ^ 32" "unat l < 2 ^ 32" using unsigned_less [of h] unsigned_less [of l] by simp_all
    then have "unat h * unat l < 2 ^ 32 * 2 ^ 32" by (intro mult_strict_mono) simp_all
    then show ?thesis by simp
  qed
  obtain se de where e: "buf_at src w = Some se" "buf_at dst w = Some de"
     "fmts w (format (buffer se)) = Some sf" "fmts w (format (buffer de)) = Some df"
     "bcount (buffer de) \<noteq> 0" "unat (bcount (buffer de)) \<le> length (planes (buffer de))"
    using ready by (auto simp: copy_ready_def)
  obtain sp where sp: "pitcher_get_buffer_plane src (of_nat i) (Some no_plane) w = Some (0, Some sp)" "Buffer.virt sp = s"
    by (rule plane_virtD [OF virt(1)])
  obtain dp where dp: "pitcher_get_buffer_plane dst (of_nat i) (Some no_plane) w = Some (0, Some dp)" "Buffer.virt dp = t"
    by (rule plane_virtD [OF virt(2)])
  obtain m used where m: "copy_lines (unat h) t s line ?sl ?dl 0 w = Some (used, w\<lparr>bytes := m\<rparr>)"
    "lines_copied m (bytes w) (unat h) t s (unat line) (unat ?sl) (unat ?dl)"
    "\<And>x. x \<notin> copied_area (unat h) df i t \<Longrightarrow> m x = bytes w x" "\<And>x. m x = None \<longleftrightarrow> bytes w x = None"
    using copy_lines_ok [OF size(2,3) big big, of s t w 0] mem by (auto simp: copied_area_def)
  let ?ix = "if of_nat i < bcount (buffer de) then of_nat i else bcount (buffer de) - 1"
  let ?g = "if of_nat i < bcount (buffer de) then (\<lambda>_. used) else (\<lambda>u. u + used)"
  have de: "buf_at dst (w\<lparr>bytes := m\<rparr>) = Some de" using e(2) by (auto simp: buf_at_def split: if_splits)
  have "?ix < bcount (buffer de)" using e(5) by (auto simp: word_less_nat_alt) unat_arith
  then have "unat ?ix < length (planes (buffer de))" using e(6) by (simp add: word_less_nat_alt)
  from set_bytesused_ok [OF de this, of ?g] obtain w' where w': "set_bytesused dst ?ix ?g (w\<lparr>bytes := m\<rparr>) = Some w'"
    "same_layout (w\<lparr>bytes := m\<rparr>) w'" "bytes w' = m" by auto
  have c: "copy_plane src dst crp d i w = Some w'"
    using sp dp e(1-4) i size(1) m(1) w'(1) unfolding copy_plane_def by (simp add: nth_opt_def split: if_splits)
  show ?thesis by (rule that [OF c same_layout_trans [OF same_layout_bytes w'(2)]]) (use m w'(3) in auto)
qed


section \<open>All planes\<close>

definition lines_of :: "pixel_format_desc \<Rightarrow> v4l2_rect option \<Rightarrow> pix_fmt_info \<Rightarrow> pix_fmt_info \<Rightarrow> nat \<Rightarrow> nat" where
  "lines_of d crp sf df i = unat (snd (copy_size d crp sf df i))"

definition bytes_of :: "pixel_format_desc \<Rightarrow> v4l2_rect option \<Rightarrow> pix_fmt_info \<Rightarrow> pix_fmt_info \<Rightarrow> nat \<Rightarrow> nat" where
  "bytes_of d crp sf df i = unat (fst (copy_size d crp sf df i))"

text \<open>Plane \<open>i\<close> can be copied: it lies at \<open>s i\<close> in the source and at \<open>t i\<close> in the destination, with lines long enough.\<close>

definition plane_ready :: "u64 \<Rightarrow> u64 \<Rightarrow> v4l2_rect option \<Rightarrow> pixel_format_desc \<Rightarrow> pix_fmt_info \<Rightarrow> pix_fmt_info
    \<Rightarrow> (nat \<Rightarrow> u64) \<Rightarrow> (nat \<Rightarrow> u64) \<Rightarrow> 'e img \<Rightarrow> nat \<Rightarrow> bool" where
  "plane_ready src dst crp d sf df s t w i \<longleftrightarrow> plane_virt src i w = Some (s i) \<and> plane_virt dst i w = Some (t i)
     \<and> i < length (pf_planes sf) \<and> i < length (pf_planes df)
     \<and> bytes_of d crp sf df i \<le> unat (pl_line (pf_planes sf ! i)) \<and> bytes_of d crp sf df i \<le> unat (pl_line (pf_planes df ! i))
     \<and> (\<forall>x \<in> copied_area (lines_of d crp sf df i) sf i (s i) \<union> copied_area (lines_of d crp sf df i) df i (t i). bytes w x \<noteq> None)"

definition plane_copied :: "v4l2_rect option \<Rightarrow> pixel_format_desc \<Rightarrow> pix_fmt_info \<Rightarrow> pix_fmt_info
    \<Rightarrow> (nat \<Rightarrow> u64) \<Rightarrow> (nat \<Rightarrow> u64) \<Rightarrow> 'e img \<Rightarrow> 'e img \<Rightarrow> nat \<Rightarrow> bool" where
  "plane_copied crp d sf df s t w w' i \<longleftrightarrow> lines_copied (bytes w') (bytes w) (lines_of d crp sf df i) (t i) (s i) (bytes_of d crp sf df i)
     (unat (pl_line (pf_planes sf ! i))) (unat (pl_line (pf_planes df ! i)))"

lemma plane_ready_same:
  assumes "same_layout w w'" and "\<And>x. bytes w' x = None \<longleftrightarrow> bytes w x = None" and "plane_ready src dst crp d sf df s t w i"
  shows "plane_ready src dst crp d sf df s t w' i"
  using assms plane_virt_same [OF assms(1)] by (simp add: plane_ready_def)

text \<open>What a plane is copied from and to lies within the lines.\<close>

lemma line_in_area:
  assumes "r < h" and "k < n" and "n \<le> unat (pl_line (pf_planes f ! i))" and "h < 2 ^ 32"
  shows "a + of_nat (r * unat (pl_line (pf_planes f ! i)) + k) \<in> copied_area h f i a"
proof -
  let ?l = "unat (pl_line (pf_planes f ! i))"
  have "Suc r * ?l \<le> h * ?l" using assms(1) by (intro mult_le_mono1) simp
  then have lt: "r * ?l + k < h * ?l" using assms(2,3) by simp
  have "?l < 2 ^ 32" using unsigned_less [of "pl_line (pf_planes f ! i)"] by simp
  then have "h * ?l \<le> 2 ^ 32 * 2 ^ 32" using assms(4) by (intro mult_le_mono) simp_all
  then show ?thesis unfolding copied_area_def by (intro in_region lt) simp
qed

lemma lines_small: "lines_of d crp sf df i < 2 ^ 32"
  using unsigned_less [of "snd (copy_size d crp sf df i)"] by (simp add: lines_of_def)

lemma plane_copied_after:
  assumes "plane_copied crp d sf df s t w1 w' i"
    and "\<And>x. x \<in> copied_area (lines_of d crp sf df i) sf i (s i) \<Longrightarrow> bytes w1 x = bytes w x"
    and "bytes_of d crp sf df i \<le> unat (pl_line (pf_planes sf ! i))"
  shows "plane_copied crp d sf df s t w w' i"
  using assms(1) line_in_area [OF _ _ assms(3) lines_small] assms(2) unfolding plane_copied_def lines_copied_def by metis

lemma plane_copied_before:
  assumes "plane_copied crp d sf df s t w w1 i"
    and "\<And>x. x \<in> copied_area (lines_of d crp sf df i) df i (t i) \<Longrightarrow> bytes w' x = bytes w1 x"
    and "bytes_of d crp sf df i \<le> unat (pl_line (pf_planes df ! i))"
  shows "plane_copied crp d sf df s t w w' i"
  using assms(1) line_in_area [OF _ _ assms(3) lines_small] assms(2) unfolding plane_copied_def lines_copied_def by metis

lemma copy_planes_ok:
  assumes "copy_ready src dst sf df w" and "\<And>j. j \<in> {i..<i + n} \<Longrightarrow> plane_ready src dst crp d sf df s t w j"
    and "\<And>j k. j \<in> {i..<i + n} \<Longrightarrow> k \<in> {i..<i + n} \<Longrightarrow>
      copied_area (lines_of d crp sf df j) sf j (s j) \<inter> copied_area (lines_of d crp sf df k) df k (t k) = {}"
    and "\<And>j k. j \<in> {i..<i + n} \<Longrightarrow> k \<in> {i..<i + n} \<Longrightarrow> j \<noteq> k \<Longrightarrow>
      copied_area (lines_of d crp sf df j) df j (t j) \<inter> copied_area (lines_of d crp sf df k) df k (t k) = {}"
  shows "\<exists>w'. copy_planes src dst crp d i n w = Some w' \<and> same_layout w w'
    \<and> (\<forall>j \<in> {i..<i + n}. plane_copied crp d sf df s t w w' j)
    \<and> (\<forall>x. (\<forall>j \<in> {i..<i + n}. x \<notin> copied_area (lines_of d crp sf df j) df j (t j)) \<longrightarrow> bytes w' x = bytes w x)"
  using assms
proof (induction n arbitrary: i w)
  case 0
  then show ?case by simp
next
  case (Suc n)
  let ?S = "\<lambda>j. copied_area (lines_of d crp sf df j) sf j (s j)"
  let ?T = "\<lambda>j. copied_area (lines_of d crp sf df j) df j (t j)"
  have i: "i \<in> {i..<i + Suc n}" and sub: "\<And>j. j \<in> {Suc i..<Suc i + n} \<Longrightarrow> j \<in> {i..<i + Suc n} \<and> j \<noteq> i" by auto
  note p = Suc.prems(2) [OF i, unfolded plane_ready_def bytes_of_def lines_of_def]
  obtain line h where sz: "copy_size d crp sf df i = (line, h)" by force
  have disj: "?S i \<inter> ?T i = {}" by (rule Suc.prems(3) [OF i i])
  obtain w1 where w1: "copy_plane src dst crp d i w = Some w1" "same_layout w w1"
    "lines_copied (bytes w1) (bytes w) (unat h) (t i) (s i) (unat line) (unat (pl_line (pf_planes sf ! i))) (unat (pl_line (pf_planes df ! i)))"
    "\<And>x. x \<notin> copied_area (unat h) df i (t i) \<Longrightarrow> bytes w1 x = bytes w x" "\<And>x. bytes w1 x = None \<longleftrightarrow> bytes w x = None"
    by (rule copy_plane_ok [OF Suc.prems(1), of i "s i" "t i" d crp line h]) (use p sz disj in \<open>auto simp: lines_of_def\<close>)
  have keep: "bytes w1 x = bytes w x" if "x \<notin> ?T i" for x using w1(4) that sz by (simp add: lines_of_def)
  obtain w' where w': "copy_planes src dst crp d (Suc i) n w1 = Some w'" "same_layout w1 w'"
    "\<And>j. j \<in> {Suc i..<Suc i + n} \<Longrightarrow> plane_copied crp d sf df s t w1 w' j"
    "\<And>x. (\<forall>j \<in> {Suc i..<Suc i + n}. x \<notin> ?T j) \<Longrightarrow> bytes w' x = bytes w1 x"
  proof -
    have "\<exists>w'. copy_planes src dst crp d (Suc i) n w1 = Some w' \<and> same_layout w1 w'
      \<and> (\<forall>j \<in> {Suc i..<Suc i + n}. plane_copied crp d sf df s t w1 w' j)
      \<and> (\<forall>x. (\<forall>j \<in> {Suc i..<Suc i + n}. x \<notin> ?T j) \<longrightarrow> bytes w' x = bytes w1 x)"
      by (rule Suc.IH [OF copy_ready_same [OF w1(2) Suc.prems(1)] plane_ready_same [OF w1(2,5)]])
        (use Suc.prems(2-4) sub in blast)+
    then show ?thesis using that by blast
  qed
  have "plane_copied crp d sf df s t w w1 i" using w1(3) sz by (simp add: plane_copied_def lines_of_def bytes_of_def)
  then have first: "plane_copied crp d sf df s t w w' i"
  proof (rule plane_copied_before)
    fix x assume "x \<in> ?T i"
    then have "\<forall>j \<in> {Suc i..<Suc i + n}. x \<notin> ?T j" using Suc.prems(4) [OF i] sub by blast
    then show "bytes w' x = bytes w1 x" by (rule w'(4))
  qed (use p in \<open>simp add: bytes_of_def\<close>)
  have rest: "plane_copied crp d sf df s t w w' j" if j: "j \<in> {Suc i..<Suc i + n}" for j
  proof (rule plane_copied_after [OF w'(3) [OF j]])
    show "bytes w1 x = bytes w x" if "x \<in> ?S j" for x using that Suc.prems(3) [OF _ i] sub [OF j] by (intro keep) blast
    show "bytes_of d crp sf df j \<le> unat (pl_line (pf_planes sf ! j))" using Suc.prems(2) sub [OF j] by (simp add: plane_ready_def)
  qed
  have set: "{i..<i + Suc n} = insert i {Suc i..<Suc i + n}" by auto
  show ?case
    unfolding set using w1(1) w'(1,4) same_layout_trans [OF w1(2) w'(2)] first rest keep by auto
qed


section \<open>Pictures\<close>

text \<open>A format with the plane sizes that \<open>pitcher_get_pix_fmt_info\<close> gave it.\<close>

definition laid_out :: "v4l2_env \<Rightarrow> pixel_format \<Rightarrow> pix_fmt_info \<Rightarrow> bool" where
  "laid_out v f i \<longleftrightarrow> (\<exists>i0 alignment. pf_format i0 = pix_fmt_number f \<and> length (pf_planes i0) = 8 \<and> unat alignment \<le> 1024
     \<and> pf_width i0 \<noteq> 0 \<and> pf_height i0 \<noteq> 0 \<and> unat (pf_width i0) \<le> 8192 \<and> unat (pf_height i0) \<le> 8192
     \<and> pitcher_get_pix_fmt_info v (Some i0) alignment = Some (0, Some i))"

lemma laid_outD:
  assumes "laid_out v f i" and "f \<noteq> PIX_FMT_DTRC10"
  defines "d \<equiv> pix_fmt_descriptors v ! unat (pix_fmt_number f)"
  shows "pf_format i = pix_fmt_number f" "pf_desc i = Some d" "pf_num_planes i = fd_num_planes d" "length (pf_planes i) = 8"
    "unat (pf_width i) \<le> 8192" "unat (pf_height i) \<le> 8192" "desc_ok d"
    "j < unat (fd_num_planes d) \<Longrightarrow> plane_covers d j (unat (pf_width i)) (unat (pf_height i)) (pf_planes i ! j)"
proof -
  obtain i0 al where i0: "pf_format i0 = pix_fmt_number f" "length (pf_planes i0) = 8" "unat al \<le> 1024"
     "pf_width i0 \<noteq> 0" "pf_height i0 \<noteq> 0" "unat (pf_width i0) \<le> 8192" "unat (pf_height i0) \<le> 8192"
     "pitcher_get_pix_fmt_info v (Some i0) al = Some (0, Some i)"
    using assms(1) unfolding laid_out_def by blast
  from pix_fmt_info_geometry [OF assms(2) i0(1,2,4-7,3), of v] i0
  show "pf_format i = pix_fmt_number f" "pf_desc i = Some d" "pf_num_planes i = fd_num_planes d" "length (pf_planes i) = 8"
    "unat (pf_width i) \<le> 8192" "unat (pf_height i) \<le> 8192"
    "j < unat (fd_num_planes d) \<Longrightarrow> plane_covers d j (unat (pf_width i)) (unat (pf_height i)) (pf_planes i ! j)"
    by (auto simp: d_def)
  obtain k where k: "k < 52" "pix_fmt_number f = of_nat k" by (rule format_position)
  then show "desc_ok d" using table_ok [OF k(1)] number_small [OF k(1)] by (simp add: d_def)
qed

text \<open>What of two pictures a copy takes: the size of the crop rectangle, or of the source if it is empty, but no more than the destination has.\<close>

definition copied_picture :: "v4l2_rect option \<Rightarrow> pix_fmt_info \<Rightarrow> pix_fmt_info \<Rightarrow> nat \<times> nat" where
  "copied_picture crp sf df =
     (let (w, h) = (case crp of Some c \<Rightarrow> if r_width c \<noteq> 0 \<and> r_height c \<noteq> 0 then (unat (r_width c), unat (r_height c))
                                  else (unat (pf_width sf), unat (pf_height sf))
                              | None \<Rightarrow> (unat (pf_width sf), unat (pf_height sf)))
      in (min w (unat (pf_width df)), min h (unat (pf_height df))))"

definition bytes_in_line :: "pixel_format_desc \<Rightarrow> nat \<Rightarrow> nat \<Rightarrow> nat" where
  "bytes_in_line d i x = (unat (comp_bpp d i) * visible i (unat (log2_chroma_w d)) x + 7) div 8"

lemma visible_le: "x \<le> y \<Longrightarrow> visible i l x \<le> visible i l y"
proof -
  assume xy: "x \<le> y"
  have "align_up x (2 ^ l) \<le> align_up y (2 ^ l)"
    by (rule align_up_least) (use align_up_props [of "2 ^ l" y] xy in auto)
  then show ?thesis by (simp add: visible_def div_le_mono)
qed

lemma align_8: "align_up x 8 = 8 * ((x + 7) div 8)"
proof -
  have "x = 8 * (x div 8) + x mod 8" "x mod 8 < 8" by simp_all
  then show ?thesis unfolding align_up_def by presburger
qed

lemma visible_small: "l \<le> 1 \<Longrightarrow> x \<le> 8192 \<Longrightarrow> visible i l x \<le> 8193"
  using align_up_props(2) [of "2 ^ l" x] by (auto simp: visible_def le_Suc_eq)

lemma copy_size_eq:
  assumes d: "desc_ok d" and c: "copied_picture crp sf df = (W, H)" and b: "W \<le> 8192" "H \<le> 8192"
  shows "lines_of d crp sf df i = visible i (unat (log2_chroma_h d)) H" "bytes_of d crp sf df i = bytes_in_line d i W"
proof -
  define wh where "wh = (case crp of Some c \<Rightarrow> if r_width c \<noteq> 0 \<and> r_height c \<noteq> 0 then (r_width c, r_height c) else (pf_width sf, pf_height sf)
                                  | None \<Rightarrow> (pf_width sf, pf_height sf))"
  define w where "w = (if pf_width df < fst wh then pf_width df else fst wh)"
  define h where "h = (if pf_height df < snd wh then pf_height df else snd wh)"
  have wh: "unat w = W" "unat h = H"
    using c by (auto simp: copied_picture_def w_def h_def wh_def word_less_nat_alt split: option.splits if_splits)
  have al: "unat (ALIGN x (push_bit (unat l) 1)) = align_up (unat x) (2 ^ unat l)" if "unat l \<le> 1" "unat x \<le> 8192" for x l :: u32
  proof -
    have "unat l = 0 \<or> unat l = 1" using that(1) by auto
    then have p: "unat (push_bit (unat l) (1 :: u32)) = 2 ^ unat l" "push_bit (unat l) (1 :: u32) \<noteq> 0" "(2 :: nat) ^ unat l \<le> 2" by auto
    have "unat (ALIGN x (push_bit (unat l) 1)) = align_up (unat x) (unat (push_bit (unat l) (1 :: u32)))"
      by (rule unat_ALIGN) (use p that in simp_all)
    then show ?thesis by (simp only: p(1))
  qed
  let ?lw = "log2_chroma_w d" and ?lh = "log2_chroma_h d"
  define w' where "w' = (if i \<noteq> 0 then drop_bit (unat ?lw) (ALIGN w (push_bit (unat ?lw) 1)) else ALIGN w (push_bit (unat ?lw) 1))"
  define h' where "h' = (if i \<noteq> 0 then drop_bit (unat ?lh) (ALIGN h (push_bit (unat ?lh) 1)) else ALIGN h (push_bit (unat ?lh) 1))"
  have size: "copy_size d crp sf df i = (drop_bit 3 (ALIGN (w' * comp_bpp d i) 8), h')"
    unfolding copy_size_def wh_def [symmetric] w'_def h'_def by (simp add: Let_def w_def h_def split_beta)
  have u: "unat w' = visible i (unat ?lw) W" "unat h' = visible i (unat ?lh) H"
    using al [of ?lw w] al [of ?lh h] desc_okD(1,2) [OF d] wh b by (simp_all add: w'_def h'_def visible_def unat_drop)
  have "unat w' * unat (comp_bpp d i) \<le> 8193 * 64"
    using visible_small [OF desc_okD(1) [OF d] b(1), of i] desc_okD(4) [OF d, of i] u(1) by (intro mult_le_mono) simp_all
  then have m: "unat (w' * comp_bpp d i) = unat w' * unat (comp_bpp d i)" "unat (w' * comp_bpp d i) \<le> 8193 * 64"
    by (simp_all add: unat_word_ariths)
  have "unat (ALIGN (w' * comp_bpp d i) 8) = align_up (unat (w' * comp_bpp d i)) (unat (8 :: u32))"
    by (rule unat_ALIGN) (use m(2) in simp_all)
  then have "unat (drop_bit 3 (ALIGN (w' * comp_bpp d i) 8)) = (unat (w' * comp_bpp d i) + 7) div 8"
    by (simp add: unat_drop align_8)
  then show "lines_of d crp sf df i = visible i (unat (log2_chroma_h d)) H" "bytes_of d crp sf df i = bytes_in_line d i W"
    using size u m(1) by (simp_all add: lines_of_def bytes_of_def bytes_in_line_def mult.commute)
qed

lemma covered:
  assumes "plane_covers d i X Y p" and "x \<le> X" and "y \<le> Y"
  shows "bytes_in_line d i x \<le> unat (pl_line p)" "visible i (unat (log2_chroma_h d)) y * unat (pl_line p) \<le> unat (pl_size p)"
proof -
  have "unat (comp_bpp d i) * visible i (unat (log2_chroma_w d)) x \<le> 8 * unat (pl_line p)"
    using assms(1) mult_le_mono2 [OF visible_le [OF assms(2)]] unfolding plane_covers_def by (blast intro: order_trans)
  then show "bytes_in_line d i x \<le> unat (pl_line p)" unfolding bytes_in_line_def by linarith
  show "visible i (unat (log2_chroma_h d)) y * unat (pl_line p) \<le> unat (pl_size p)"
    using assms(1) mult_le_mono1 [OF visible_le [OF assms(3)]] unfolding plane_covers_def by (metis mult.commute order_trans)
qed


definition plane_area :: "pix_fmt_info \<Rightarrow> nat \<Rightarrow> u64 \<Rightarrow> u64 set" where
  "plane_area f i a = region a (unat (pl_size (pf_planes f ! i)))"

text \<open>Buffer \<open>b\<close> holds a picture of the format \<open>i\<close>, its planes at the addresses \<open>a\<close>.\<close>

definition holds_picture :: "v4l2_env \<Rightarrow> pixel_format \<Rightarrow> u64 \<Rightarrow> pix_fmt_info \<Rightarrow> (nat \<Rightarrow> u64) \<Rightarrow> 'e img \<Rightarrow> bool" where
  "holds_picture v f b i a w \<longleftrightarrow> laid_out v f i
     \<and> (\<exists>e. buf_at b w = Some e \<and> format (buffer e) \<noteq> 0 \<and> fmts w (format (buffer e)) = Some i
          \<and> bcount (buffer e) \<noteq> 0 \<and> unat (bcount (buffer e)) \<le> length (planes (buffer e)))
     \<and> (\<forall>j < unat (pf_num_planes i). plane_virt b j w = Some (a j) \<and> (\<forall>x \<in> plane_area i j (a j). bytes w x \<noteq> None))"



text \<open>Two pictures of 2 x 2 samples in NV12, the first in a buffer with one plane, the second in one with two.\<close>

definition nv12_desc :: pixel_format_desc where
  "nv12_desc = pix_desc ''nv12'' 0 0 2 1 1 [(8, 8), (16, 8)] 0 0"

definition small_nv12 :: "pixel_format_desc option \<Rightarrow> u64 \<Rightarrow> u32 \<Rightarrow> pix_plane_info list \<Rightarrow> pix_fmt_info" where
  "small_nv12 d sz n ps = \<lparr>pf_format = 1, pf_desc = d, pf_width = 2, pf_height = 2, pf_interlaced = 0, pf_size = sz,
     pf_num_planes = n, pf_planes = ps @ replicate 6 \<lparr>pl_line = 0, pl_size = 0\<rparr>, pf_tile_ws = 0, pf_tile_hs = 0\<rparr>"

definition nv12 :: pix_fmt_info where
  "nv12 = small_nv12 (Some nv12_desc) 6 2 [\<lparr>pl_line = 2, pl_size = 4\<rparr>, \<lparr>pl_line = 2, pl_size = 2\<rparr>]"

definition plane_at :: "u64 \<Rightarrow> buf_ref" where
  "plane_at a = no_plane\<lparr>virt := a, plane_len := 16, dmafd := -1\<rparr>"

definition picture_buffer :: "u32 \<Rightarrow> buf_ref list \<Rightarrow> ext_buffer" where
  "picture_buffer n ps = \<lparr>buffer = \<lparr>bcount = n, planes = ps, index = 0, flags = 0, priv = 0, format = 5, crop = 0\<rparr>,
     obj = \<lparr>refcount = 1, obj_name = [], release = 0\<rparr>, init_plane = 0, uninit_plane = 0, recycle = 0, barg = 0\<rparr>"

definition two_pictures :: img_heap where
  "two_pictures = \<lparr>wmem = \<lparr>total_count = 0, calloc_res = (\<lambda>_. 0), calloc_n = 0\<rparr>, bufs = [1 \<mapsto> picture_buffer 1 [plane_at 16], 2 \<mapsto> picture_buffer 2 [plane_at 32, plane_at 48]],
     fmts = [5 \<mapsto> nv12], rects = (\<lambda>_. None), bytes = (\<lambda>x. Some (ucast x))\<rparr>"

lemma nv12_in_table: "pix_fmt_descriptors no_codes ! 1 = nv12_desc"
  using table_entry [where P = "\<lambda>f d. f = PIX_FMT_NV12 \<longrightarrow> d = nv12_desc" and i = 1 and v = no_codes]
  by (simp add: descriptor_defs nv12_desc_def no_codes_def pixel_formats_def)

lemma nv12_laid_out: "laid_out no_codes PIX_FMT_NV12 nv12"
proof -
  let ?i = "small_nv12 None 0 0 [\<lparr>pl_line = 0, pl_size = 0\<rparr>, \<lparr>pl_line = 0, pl_size = 0\<rparr>]"
  note two = planes_loop.simps(2) [where n = "Suc 0", folded numeral_2_eq_2]
  have "pitcher_get_pix_fmt_info no_codes (Some ?i) 1 = Some (0, Some nv12)"
    by (simp add: pitcher_get_pix_fmt_info_def nv12_in_table [unfolded One_nat_def] word_le_nat_alt word_less_nat_alt small_nv12_def nv12_def nv12_desc_def pix_desc_def PIX_FMT_NB_def
        Let_def two plane_geometry_def comp_bpp_def ALIGN_def DIV_ROUND_UP_def pitcher_fill_plane_desc_def max_def)
  then show ?thesis unfolding laid_out_def
    by (intro exI [of _ ?i] exI [of _ 1]) (simp add: small_nv12_def)
qed

lemmas two_pictures_defs = two_pictures_def picture_buffer_def plane_at_def no_plane_def buf_at_def nv12_def small_nv12_def

lemma two_pictures_planes:
  "plane_virt 1 0 two_pictures = Some 16" "plane_virt 1 1 two_pictures = Some 20"
  "plane_virt 2 0 two_pictures = Some 32" "plane_virt 2 1 two_pictures = Some 48"
  by (simp_all add: plane_virt_eq two_pictures_defs Let_def nth_opt_def word_le_nat_alt)

lemma regions: "set (area 16 4) = plane_area nv12 0 16" "set (area 20 2) = plane_area nv12 1 20"
   "set (area 32 4) = plane_area nv12 0 32" "set (area 48 2) = plane_area nv12 1 48"
  by (simp_all add: plane_area_def area_region nv12_def small_nv12_def)


end
