(* ===== verification/Kernel.thy ===== *)
theory Kernel
  imports Queue "HOL-Library.Multiset"
begin

text \<open>
  What the kernel test drivers of \<open>module_test\<close> use of Linux, on a 32-bit ARM.

  The kernel is not part of the repository: what its functions answer is a parameter. The record
  \<open>kern\<close> holds these answers (the \<open>k_\<close> fields: which allocation fails, what fresh memory
  holds, what a DMA allocation returns, whether a registration succeeds), a record of what the drivers asked for (how many
  allocations, DMA regions, device numbers, classes and devices are outstanding), and the rest of
  the world, user memory and hardware, as \<open>kworld\<close>. Copies to and from user space go through
  \<open>uaccess\<close> records, one for each type that is copied: a copy returns the number of bytes that
  could not be copied, and a read also what the destination holds then.
\<close>

unbundle bit_operations_syntax

type_synonym ulong = u32

section \<open>Error numbers and ioctl numbers\<close>

definition EIO :: int where "EIO = 5"
definition EAGAIN :: int where "EAGAIN = 11"
definition ENOMEM :: int where "ENOMEM = 12"
definition EFAULT :: int where "EFAULT = 14"
definition EBUSY :: int where "EBUSY = 16"
definition EINVAL :: int where "EINVAL = 22"
definition ENOTTY :: int where "ENOTTY = 25"
definition ESPIPE :: int where "ESPIPE = 29"
definition EBADFD :: int where "EBADFD = 77"

lemmas errnos [driver_simps] = EIO_def EAGAIN_def ENOMEM_def EFAULT_def EBUSY_def EINVAL_def
  ENOTTY_def ESPIPE_def EBADFD_def

text \<open>The layout of \<open>asm-generic/ioctl.h\<close>: direction, size, type and number.\<close>

definition IOC_WRITE :: u32 where "IOC_WRITE = 1"
definition IOC_READ :: u32 where "IOC_READ = 2"

definition IOC :: "u32 \<Rightarrow> u32 \<Rightarrow> u32 \<Rightarrow> u32 \<Rightarrow> u32" where
  "IOC dir ty nr sz = push_bit 30 dir OR push_bit 16 sz OR push_bit 8 ty OR nr"

definition IO :: "u32 \<Rightarrow> u32 \<Rightarrow> u32" where "IO ty nr = IOC 0 ty nr 0"
definition IOW :: "u32 \<Rightarrow> u32 \<Rightarrow> u32 \<Rightarrow> u32" where "IOW ty nr sz = IOC IOC_WRITE ty nr sz"
definition IOWR :: "u32 \<Rightarrow> u32 \<Rightarrow> u32 \<Rightarrow> u32" where "IOWR ty nr sz = IOC (IOC_READ OR IOC_WRITE) ty nr sz"

definition IOC_DIR :: "u32 \<Rightarrow> u32" where "IOC_DIR c = drop_bit 30 c AND 3"
definition IOC_TYPE :: "u32 \<Rightarrow> u32" where "IOC_TYPE c = drop_bit 8 c AND 0xFF"
definition IOC_NR :: "u32 \<Rightarrow> u32" where "IOC_NR c = c AND 0xFF"
definition IOC_SIZE :: "u32 \<Rightarrow> u32" where "IOC_SIZE c = drop_bit 16 c AND 0x3FFF"

lemmas ioc_defs [driver_simps] = IOC_WRITE_def IOC_READ_def IOC_def IO_def IOW_def IOWR_def
  IOC_DIR_def IOC_TYPE_def IOC_NR_def IOC_SIZE_def

definition PAGE_SHIFT :: nat where "PAGE_SHIFT = 12"
definition PAGE_SIZE :: u32 where "PAGE_SIZE = 4096"

definition PAGE_ALIGN :: "u32 \<Rightarrow> u32" where
  "PAGE_ALIGN x = (x + PAGE_SIZE - 1) AND NOT (PAGE_SIZE - 1)"


section \<open>The kernel's services\<close>

text \<open>A DMA region: its size, the address for the processor and the address on the bus.\<close>

type_synonym dma_region = "u32 \<times> u32 \<times> u32"

record 'w kern =
  k_alloc_fails :: "nat \<Rightarrow> bool"
  k_garbage :: "nat \<Rightarrow> nat \<Rightarrow> u8"
  k_dma_result :: "nat \<Rightarrow> u32 \<Rightarrow> u32 \<times> u32"
  k_chrdev_result :: "nat \<Rightarrow> int"
  k_class_result :: "nat \<Rightarrow> int"
  k_device_result :: "nat \<Rightarrow> int"
  calls :: nat
  klive :: int
  dma_live :: "dma_region multiset"
  chrdevs :: "int list"
  classes :: int
  devices :: int
  kworld :: 'w

text \<open>An allocation: whether it succeeds, and the accounts.\<close>

definition kmalloc :: "'w kern \<Rightarrow> bool \<times> 'w kern" where
  "kmalloc k =
     (if k_alloc_fails k (calls k) then (False, k\<lparr>calls := Suc (calls k)\<rparr>)
      else (True, k\<lparr>calls := Suc (calls k), klive := klive k + 1\<rparr>))"

definition kfree :: "'w kern \<Rightarrow> 'w kern" where
  "kfree k = k\<lparr>klive := klive k - 1\<rparr>"

text \<open>
  Kernel memory whose content matters is the list of its bytes; a fresh area holds whatever the
  allocator left there. An access outside of the area has no defined outcome: \<open>None\<close>.
\<close>

definition fresh_area :: "u32 \<Rightarrow> 'w kern \<Rightarrow> u8 list" where
  "fresh_area sz k = map (k_garbage k (calls k)) [0..<unat sz]"

definition kmalloc_area :: "u32 \<Rightarrow> 'w kern \<Rightarrow> u8 list option \<times> 'w kern" where
  "kmalloc_area sz k = (case kmalloc k of (ok, k') \<Rightarrow> (if ok then Some (fresh_area sz k) else None, k'))"

definition write_area :: "int \<Rightarrow> u8 list \<Rightarrow> u8 list \<Rightarrow> u8 list option" where
  "write_area off bs area =
     (if 0 \<le> off \<and> nat off + length bs \<le> length area
      then Some (take (nat off) area @ bs @ drop (nat off + length bs) area) else None)"

definition read_area :: "int \<Rightarrow> nat \<Rightarrow> u8 list \<Rightarrow> u8 list option" where
  "read_area off n area =
     (if 0 \<le> off \<and> nat off + n \<le> length area then Some (take n (drop (nat off) area)) else None)"

lemma length_fresh_area [simp]: "length (fresh_area sz k) = unat sz"
  by (simp add: fresh_area_def)

lemma length_write_area: "write_area off bs area = Some area' \<Longrightarrow> length area' = length area"
  by (auto simp: write_area_def split: if_splits)

lemma read_write_area:
  assumes "write_area off bs area = Some area'" and "n \<le> length bs"
  shows "read_area off n area' = Some (take n bs)"
  using assms by (auto simp: write_area_def read_area_def split: if_splits)

text \<open>The C conversions the drivers rely on: an unsigned count stored in an \<open>int\<close>, and \<open>(int)p % 8\<close>.\<close>

definition c_int :: "nat \<Rightarrow> int" where
  "c_int n = sint (word_of_nat n :: u32)"

definition c_rem8 :: "u32 \<Rightarrow> int" where
  "c_rem8 p = (if 0 \<le> sint p then sint p mod 8 else - ((- sint p) mod 8))"

lemma signed_wrap32:
  fixes x :: int
  assumes "0 \<le> x" and "x < 4294967296"
  shows "(x + 2147483648) mod 4294967296 - 2147483648 = (if x < 2147483648 then x else x - 4294967296)"
proof (cases "x < 2147483648")
  case False
  have "(x + 2147483648) mod 4294967296 = (x - 2147483648) mod 4294967296"
    using mod_add_self2 [of "x - 2147483648" 4294967296] by (simp add: algebra_simps)
  also have "\<dots> = x - 2147483648" using False assms by (intro mod_pos_pos_trivial) auto
  finally show ?thesis using False by simp
qed (use assms in simp)

lemma sint_u32: "sint p = (if p < 0x80000000 then uint p else uint p - 4294967296)" for p :: u32
proof -
  have "sint p = (uint p + 2147483648) mod 4294967296 - 2147483648"
    by (simp add: sint_uint signed_take_bit_eq_take_bit_shift take_bit_eq_mod)
  moreover have "0 \<le> uint p" "uint p < 4294967296" using uint_lt2p [of p] by simp_all
  moreover have "p < 0x80000000 \<longleftrightarrow> uint p < 2147483648" by (simp add: word_less_def)
  ultimately show ?thesis using signed_wrap32 [of "uint p"] by simp
qed

lemma c_rem8_bounds: "p < 0x80000000 \<Longrightarrow> 0 \<le> c_rem8 p \<and> c_rem8 p < 8"
  by (simp add: c_rem8_def sint_u32)

lemma c_rem8_negative: "0x80000000 \<le> p \<Longrightarrow> uint p mod 8 \<noteq> 0 \<Longrightarrow> c_rem8 p < 0"
proof -
  assume p: "0x80000000 \<le> p" "uint p mod 8 \<noteq> 0"
  have u: "uint p < 4294967296" using uint_lt2p [of p] by simp
  have s: "sint p = uint p - 4294967296" using p(1) by (simp add: sint_u32)
  have "\<not> (8::int) dvd 4294967296 - uint p"
    using p(2) dvd_diff [of 8 4294967296 "4294967296 - uint p"] by (auto simp: mod_eq_0_iff_dvd)
  then have "0 < (4294967296 - uint p) mod 8"
    using pos_mod_sign [of 8 "4294967296 - uint p"] by (auto simp: mod_eq_0_iff_dvd order_le_less)
  then show ?thesis using s u by (simp add: c_rem8_def)
qed

lemma c_int_0 [simp]: "c_int 0 = 0"
  by (simp add: c_int_def)

text \<open>\<open>dma_alloc_coherent\<close>: the processor address, 0 when it fails, and the bus address.\<close>

definition dma_alloc_coherent :: "u32 \<Rightarrow> 'w kern \<Rightarrow> u32 \<times> u32 \<times> 'w kern" where
  "dma_alloc_coherent sz k =
     (case k_dma_result k (calls k) sz of (cpu, phys) \<Rightarrow>
        let k = k\<lparr>calls := Suc (calls k)\<rparr>
        in (cpu, phys, if cpu = 0 then k else k\<lparr>dma_live := add_mset (sz, cpu, phys) (dma_live k)\<rparr>))"

text \<open>Freeing something that is not an outstanding region is an error of the caller: \<open>None\<close>.\<close>

definition dma_free_coherent :: "u32 \<Rightarrow> u32 \<Rightarrow> u32 \<Rightarrow> 'w kern \<Rightarrow> 'w kern option" where
  "dma_free_coherent sz cpu phys k =
     (if (sz, cpu, phys) \<in># dma_live k
      then Some (k\<lparr>dma_live := dma_live k - {#(sz, cpu, phys)#}\<rparr>) else None)"

text \<open>
  \<open>register_chrdev\<close>: with major number 0 one is assigned and returned; otherwise 0 is returned.
  A negative answer is an error.
\<close>

definition register_chrdev :: "int \<Rightarrow> 'w kern \<Rightarrow> int \<times> 'w kern" where
  "register_chrdev major k =
     (let r = k_chrdev_result k (calls k); k = k\<lparr>calls := Suc (calls k)\<rparr>
      in if r < 0 then (r, k)
         else (r, k\<lparr>chrdevs := (if major = 0 then r else major) # chrdevs k\<rparr>))"

definition unregister_chrdev :: "int \<Rightarrow> 'w kern \<Rightarrow> 'w kern" where
  "unregister_chrdev major k = k\<lparr>chrdevs := remove1 major (chrdevs k)\<rparr>"

text \<open>\<open>class_create\<close> and \<open>device_create\<close>: negative for an error pointer.\<close>

definition class_create :: "'w kern \<Rightarrow> int \<times> 'w kern" where
  "class_create k =
     (let r = k_class_result k (calls k); k = k\<lparr>calls := Suc (calls k)\<rparr>
      in (r, if r < 0 then k else k\<lparr>classes := classes k + 1\<rparr>))"

definition class_destroy :: "'w kern \<Rightarrow> 'w kern" where
  "class_destroy k = k\<lparr>classes := classes k - 1\<rparr>"

definition device_create :: "'w kern \<Rightarrow> int \<times> 'w kern" where
  "device_create k =
     (let r = k_device_result k (calls k); k = k\<lparr>calls := Suc (calls k)\<rparr>
      in (r, if r < 0 then k else k\<lparr>devices := devices k + 1\<rparr>))"

definition device_destroy :: "'w kern \<Rightarrow> 'w kern" where
  "device_destroy k = k\<lparr>devices := devices k - 1\<rparr>"

lemmas kern_defs [driver_simps] = kmalloc_def kfree_def dma_alloc_coherent_def register_chrdev_def
  unregister_chrdev_def class_create_def class_destroy_def device_create_def device_destroy_def


section \<open>User memory\<close>

record ('a, 'w) uaccess =
  from_user :: "u32 \<Rightarrow> 'w \<Rightarrow> nat \<times> 'a"
  to_user :: "u32 \<Rightarrow> 'a \<Rightarrow> 'w \<Rightarrow> nat \<times> 'w"

record 'w ubytes =
  bytes_from_user :: "u32 \<Rightarrow> nat \<Rightarrow> 'w \<Rightarrow> nat \<times> (nat \<Rightarrow> u8)"
  bytes_to_user :: "u32 \<Rightarrow> u8 list \<Rightarrow> 'w \<Rightarrow> nat \<times> 'w"

definition copy_from_user :: "('a, 'w) uaccess \<Rightarrow> u32 \<Rightarrow> 'w kern \<Rightarrow> nat \<times> 'a" where
  "copy_from_user ua a k = from_user ua a (kworld k)"

definition copy_to_user :: "('a, 'w) uaccess \<Rightarrow> u32 \<Rightarrow> 'a \<Rightarrow> 'w kern \<Rightarrow> nat \<times> 'w kern" where
  "copy_to_user ua a v k = (case to_user ua a v (kworld k) of (n, w) \<Rightarrow> (n, k\<lparr>kworld := w\<rparr>))"

definition copy_bytes_from_user :: "'w ubytes \<Rightarrow> u32 \<Rightarrow> nat \<Rightarrow> 'w kern \<Rightarrow> nat \<times> u8 list" where
  "copy_bytes_from_user ub a n k =
     (case bytes_from_user ub a n (kworld k) of (r, f) \<Rightarrow> (r, map f [0..<n]))"

definition copy_bytes_to_user :: "'w ubytes \<Rightarrow> u32 \<Rightarrow> u8 list \<Rightarrow> 'w kern \<Rightarrow> nat \<times> 'w kern" where
  "copy_bytes_to_user ub a bs k =
     (case bytes_to_user ub a bs (kworld k) of (n, w) \<Rightarrow> (n, k\<lparr>kworld := w\<rparr>))"

lemma length_copy_bytes: "copy_bytes_from_user ub a n k = (r, bs) \<Longrightarrow> length bs = n"
  by (auto simp: copy_bytes_from_user_def split: prod.splits)

text \<open>What is written without a fault is read back.\<close>

definition uaccess_ok :: "('a, 'w) uaccess \<Rightarrow> bool" where
  "uaccess_ok ua \<longleftrightarrow> (\<forall>a v w w'. to_user ua a v w = (0, w') \<longrightarrow> from_user ua a w' = (0, v))"

text \<open>A call of the driver under test: hardware and user memory are its world.\<close>

definition on_kworld :: "('w \<Rightarrow> 'r \<times> 'w) \<Rightarrow> 'w kern \<Rightarrow> 'r \<times> 'w kern" where
  "on_kworld f k = (case f (kworld k) of (r, w) \<Rightarrow> (r, k\<lparr>kworld := w\<rparr>))"

lemma copy_to_user_accounts:
  assumes "copy_to_user ua a v k = (n, k')"
  shows "klive k' = klive k" "dma_live k' = dma_live k" "calls k' = calls k" "k_alloc_fails k' = k_alloc_fails k"
  using assms by (auto simp: copy_to_user_def split: prod.splits)

lemma copy_bytes_to_user_accounts:
  assumes "copy_bytes_to_user ub a bs k = (n, k')"
  shows "klive k' = klive k" "dma_live k' = dma_live k" "calls k' = calls k" "k_alloc_fails k' = k_alloc_fails k"
  using assms by (auto simp: copy_bytes_to_user_def split: prod.splits)

lemma on_kworld_accounts:
  assumes "on_kworld f k = (r, k')"
  shows "klive k' = klive k" "dma_live k' = dma_live k" "calls k' = calls k" "k_alloc_fails k' = k_alloc_fails k"
  using assms by (auto simp: on_kworld_def split: prod.splits)


section \<open>The portable OS layer\<close>

text \<open>
  \<open>portable_os.h\<close> comes with the drivers under test and not with the repository. Its error codes, and
  what completing or removing a registration does, are parameters; a registration handle is the list
  of the entry points added to it.
\<close>

datatype os_fn = OS_FN_OPEN | OS_FN_IOCTL | OS_FN_CLOSE | OS_FN_MMAP

record ('h, 'w) os_env =
  OS_ERROR_OK_S :: int
  OS_ERROR_FAIL_S :: int
  OS_ERROR_NO_MEMORY_S :: int
  OS_ERROR_BAD_ADDRESS_S :: int
  os_copy_code :: "nat \<Rightarrow> int"
  os_driver_complete_registration :: "(os_fn \<times> 'h) list \<Rightarrow> int \<Rightarrow> 'w \<Rightarrow> int \<times> 'w"
  os_driver_remove_registration :: "(os_fn \<times> 'h) list \<Rightarrow> 'w \<Rightarrow> int \<times> 'w"


section \<open>Exchanges with user space\<close>

text \<open>
  The shape most handlers have: fetch the request, and when that worked let the driver under test act
  on it and store it back. The status is the number of bytes not copied, as an \<open>int\<close>.
\<close>

definition exchange :: "('a, 'w) uaccess \<Rightarrow> ('a \<Rightarrow> 'w kern \<Rightarrow> 'a \<times> 'w kern) \<Rightarrow> u32 \<Rightarrow> 'w kern \<Rightarrow> int \<times> 'w kern" where
  "exchange ua call data k =
     (case copy_from_user ua data k of (n, acc) \<Rightarrow>
        if c_int n = 0
        then (case call acc k of (acc, k) \<Rightarrow>
                case copy_to_user ua data acc k of (n, k) \<Rightarrow> (c_int n, k))
        else (c_int n, k))"

text \<open>User memory without faults that keeps what is stored in it.\<close>

definition uaccess_total :: "('a, 'w) uaccess \<Rightarrow> bool" where
  "uaccess_total ua \<longleftrightarrow> uaccess_ok ua \<and> (\<forall>a w. fst (from_user ua a w) = 0) \<and> (\<forall>a x w. fst (to_user ua a x w) = 0)"

lemma uaccess_total_store:
  assumes "uaccess_total ua"
  obtains w' where "to_user ua a x w = (0, w')" and "from_user ua a w' = (0, x)"
  using assms by (metis prod.collapse uaccess_ok_def uaccess_total_def)

lemma exchange_total:
  assumes "uaccess_total ua" and "call (snd (from_user ua data (kworld k))) k = (acc, k1)"
  shows "\<exists>w'. to_user ua data acc (kworld k1) = (0, w') \<and> exchange ua call data k = (0, k1\<lparr>kworld := w'\<rparr>)
    \<and> from_user ua data w' = (0, acc)"
proof -
  obtain w' where w': "to_user ua data acc (kworld k1) = (0, w')" "from_user ua data w' = (0, acc)"
    using uaccess_total_store [OF assms(1)] by blast
  have "from_user ua data (kworld k) = (0, snd (from_user ua data (kworld k)))"
    using assms(1) by (metis prod.collapse uaccess_total_def)
  then have "copy_from_user ua data k = (0, snd (from_user ua data (kworld k)))"
    by (simp add: copy_from_user_def)
  then show ?thesis using assms(2) w' by (auto simp: exchange_def copy_to_user_def)
qed

lemma exchange_fault:
  assumes "from_user ua data (kworld k) = (n, acc)" and "c_int n \<noteq> 0"
  shows "exchange ua call data k = (c_int n, k)"
  using assms by (simp add: exchange_def copy_from_user_def)

lemma exchange_klive:
  assumes "\<And>acc k. klive (snd (call acc k)) = klive k" and "exchange ua call data k = (r, k')"
  shows "klive k' = klive k"
  using assms(2) by (auto simp: exchange_def split: prod.splits if_splits dest!: copy_to_user_accounts(1))
    (metis assms(1) snd_conv)


section \<open>Handlers that read and write registers\<close>

text \<open>
  What a register is: a write to offset \<open>o\<close> is accepted and sets it, a read is accepted and returns it,
  and stores to user memory leave it alone.
\<close>

definition register_chip :: "('r, 'w) uaccess \<Rightarrow> int \<Rightarrow> (u32 \<Rightarrow> u32 \<Rightarrow> 'w \<Rightarrow> (int \<times> u32) \<times> 'w)
    \<Rightarrow> (u32 \<Rightarrow> u32 \<Rightarrow> 'w \<Rightarrow> int \<times> 'w) \<Rightarrow> (u32 \<Rightarrow> 'w \<Rightarrow> u32) \<Rightarrow> u32 \<Rightarrow> bool" where
  "register_chip ua ok rdf wrf val o' \<longleftrightarrow>
     (\<forall>v w. \<exists>w'. wrf o' v w = (ok, w') \<and> val o' w' = v)
   \<and> (\<forall>v w. \<exists>w'. rdf o' v w = ((ok, val o' w), w'))
   \<and> (\<forall>a x w. val o' (snd (to_user ua a x w)) = val o' w)"

locale reg_port =
  fixes rd wr :: "u32 \<Rightarrow> 'w kern \<Rightarrow> int \<times> 'w kern"
    and ua :: "('r, 'w) uaccess"
    and off dat :: "'r \<Rightarrow> u32"
    and upd :: "u32 \<Rightarrow> int \<Rightarrow> 'r \<Rightarrow> 'r"
    and ok :: int
    and chip_read :: "u32 \<Rightarrow> u32 \<Rightarrow> 'w \<Rightarrow> (int \<times> u32) \<times> 'w"
    and chip_write :: "u32 \<Rightarrow> u32 \<Rightarrow> 'w \<Rightarrow> int \<times> 'w"
  assumes rd_spec: "\<lbrakk>from_user ua a (kworld k) = (0, x); chip_read (off x) (dat x) (kworld k) = ((ok, v), w1);
      to_user ua a (upd v ok x) w1 = (0, w2)\<rbrakk> \<Longrightarrow> rd a k = (0, k\<lparr>kworld := w2\<rparr>)"
    and wr_spec: "\<lbrakk>from_user ua a (kworld k) = (0, x); chip_write (off x) (dat x) (kworld k) = (ok, w1);
      to_user ua a (upd (dat x) ok x) w1 = (0, w2)\<rbrakk> \<Longrightarrow> wr a k = (0, k\<lparr>kworld := w2\<rparr>)"
    and dat_upd: "dat (upd v r x) = v"
begin

text \<open>What is written through one request is read through another.\<close>

lemma write_read:
  assumes ua: "uaccess_total ua"
    and chip: "register_chip ua ok chip_read chip_write val o'"
    and a: "off (snd (from_user ua a (kworld k))) = o'"
    and b: "off (snd (from_user ua b (kworld (snd (wr a k))))) = o'"
  shows "\<exists>k1 k2. wr a k = (0, k1) \<and> rd b k1 = (0, k2)
    \<and> dat (snd (from_user ua b (kworld k2))) = dat (snd (from_user ua a (kworld k)))"
proof -
  have fetch: "from_user ua p w = (0, snd (from_user ua p w))" for p w
    using ua by (metis prod.collapse uaccess_total_def)
  have laws: "\<exists>w'. chip_write o' v w = (ok, w') \<and> val o' w' = v" "\<exists>w'. chip_read o' v w = ((ok, val o' w), w')"
    "val o' (snd (to_user ua p x w)) = val o' w" for v w p x
    using chip unfolding register_chip_def by blast+
  let ?x = "snd (from_user ua a (kworld k))"
  obtain w1 where w1: "chip_write (off ?x) (dat ?x) (kworld k) = (ok, w1)" "val o' w1 = dat ?x"
    unfolding a using laws(1) by blast
  obtain w2 where w2: "to_user ua a (upd (dat ?x) ok ?x) w1 = (0, w2)"
    using uaccess_total_store [OF ua] by blast
  have wr: "wr a k = (0, k\<lparr>kworld := w2\<rparr>)" by (rule wr_spec [OF fetch w1(1) w2])
  have val: "val o' w2 = dat ?x" using laws(3) [of a "upd (dat ?x) ok ?x" w1] w1(2) w2 by simp
  let ?y = "snd (from_user ua b w2)"
  have y: "off ?y = o'" using b wr by simp
  obtain w3 where w3: "chip_read (off ?y) (dat ?y) w2 = ((ok, dat ?x), w3)"
    unfolding y val [symmetric] using laws(2) by blast
  obtain w4 where w4: "to_user ua b (upd (dat ?x) ok ?y) w3 = (0, w4)"
    "from_user ua b w4 = (0, upd (dat ?x) ok ?y)"
    using uaccess_total_store [OF ua] by blast
  have "rd b (k\<lparr>kworld := w2\<rparr>) = (0, k\<lparr>kworld := w2\<rparr>\<lparr>kworld := w4\<rparr>)"
    by (rule rd_spec [of _ _ ?y "dat ?x" w3]) (use fetch [of b w2] w3 w4 in auto)
  with wr w4(2) show ?thesis by (auto simp: dat_upd)
qed

end

section \<open>A kernel to evaluate with\<close>

text \<open>Every allocation and registration succeeds, nothing is outstanding.\<close>

definition demo_kern :: "'w \<Rightarrow> 'w kern" where
  "demo_kern w = \<lparr>k_alloc_fails = \<lambda>_. False, k_garbage = \<lambda>_ _. 0xAA,
     k_dma_result = \<lambda>n _. (0xC0000000 + of_nat n * 0x100000, of_nat n * 0x100000),
     k_chrdev_result = \<lambda>_. 251, k_class_result = \<lambda>_. 0, k_device_result = \<lambda>_. 0, calls = 1, klive = 0,
     dma_live = {#}, chrdevs = [], classes = 0, devices = 0, kworld = w\<rparr>"

text \<open>User memory as one map for each type that is copied.\<close>

definition map_access :: "('w \<Rightarrow> u32 \<Rightarrow> 'a) \<Rightarrow> (((u32 \<Rightarrow> 'a) \<Rightarrow> u32 \<Rightarrow> 'a) \<Rightarrow> 'w \<Rightarrow> 'w) \<Rightarrow> ('a, 'w) uaccess" where
  "map_access get upd = \<lparr>from_user = \<lambda>a w. (0, get w a), to_user = \<lambda>a v w. (0, upd (\<lambda>m. m(a := v)) w)\<rparr>"

definition byte_access :: "('w \<Rightarrow> u32 \<Rightarrow> u8) \<Rightarrow> (((u32 \<Rightarrow> u8) \<Rightarrow> u32 \<Rightarrow> u8) \<Rightarrow> 'w \<Rightarrow> 'w) \<Rightarrow> 'w ubytes" where
  "byte_access get upd = \<lparr>bytes_from_user = \<lambda>a n w. (0, \<lambda>i. get w (a + of_nat i)),
     bytes_to_user = \<lambda>a bs w. (0, upd (\<lambda>m p. if unat (p - a) < length bs then bs ! unat (p - a) else m p) w)\<rparr>"

end
