(* ===== verification/Memalloc.thy ===== *)
theory Memalloc
  imports Kernel
begin

text \<open>
  The memory allocation driver \<open>module_test/memalloc.c\<close>: user programs get physically
  contiguous buffers by \<open>ioctl\<close>, map them by \<open>mmap\<close> and give them back by \<open>ioctl\<close>, by a reset, or
  when the last of them closes the device. The driver's list of buffers is a HOL list; the spin
  lock around \<open>MapBuffer\<close> has no part in the sequential model.
\<close>

unbundle bit_operations_syntax

section \<open>State and environment\<close>

record allocation =
  phys_addr :: u32
  cpu_addr :: u32
  asize :: u32

record memalloc =
  memalloc_major :: int
  open_count :: int
  heap_list :: "allocation list"

text \<open>
  What \<open>memalloc_ioctl\<close> and \<open>MapBuffer\<close> use besides the services of \<open>kern\<close>: \<open>access_ok\<close>, the
  transfer of one word, and \<open>remap_pfn_range\<close> with the start, page frame number and size.
\<close>

record 'w memalloc_env =
  access_ok :: "bool \<Rightarrow> u32 \<Rightarrow> u32 \<Rightarrow> 'w \<Rightarrow> bool"
  u_word :: "(u32, 'w) uaccess"
  remap_pfn_range :: "u32 \<Rightarrow> u32 \<Rightarrow> u32 \<Rightarrow> 'w \<Rightarrow> int \<times> 'w"

record vm_area =
  vm_start :: u32
  vm_end :: u32
  vm_pgoff :: u32

definition MEMALLOC_IOC_MAGIC :: u32 where "MEMALLOC_IOC_MAGIC = 107"
definition MEMALLOC_IOCXGETBUFFER :: u32 where "MEMALLOC_IOCXGETBUFFER = IOWR MEMALLOC_IOC_MAGIC 1 4"
definition MEMALLOC_IOCSFREEBUFFER :: u32 where "MEMALLOC_IOCSFREEBUFFER = IOW MEMALLOC_IOC_MAGIC 2 4"
definition MEMALLOC_IOCHARDRESET :: u32 where "MEMALLOC_IOCHARDRESET = IO MEMALLOC_IOC_MAGIC 3"
definition MEMALLOC_IOC_MAXNR :: u32 where "MEMALLOC_IOC_MAXNR = 3"

lemmas memalloc_cmds [driver_simps] = MEMALLOC_IOC_MAGIC_def MEMALLOC_IOCXGETBUFFER_def
  MEMALLOC_IOCSFREEBUFFER_def MEMALLOC_IOCHARDRESET_def MEMALLOC_IOC_MAXNR_def

type_synonym 'w mstate = "memalloc \<times> 'w kern"


section \<open>Operations\<close>

text \<open>The loop of \<open>memalloc_free_buffers\<close>: the first entry is freed and removed until none is left.\<close>

fun free_buffers_loop :: "allocation list \<Rightarrow> 'w kern \<Rightarrow> 'w kern option" where
  "free_buffers_loop [] k = Some k"
| "free_buffers_loop (e # es) k =
     do {
       k \<leftarrow> dma_free_coherent (asize e) (cpu_addr e) (phys_addr e) k;
       free_buffers_loop es (kfree k)
     }"

definition memalloc_free_buffers :: "'w mstate \<Rightarrow> 'w mstate option" where
  "memalloc_free_buffers = (\<lambda>(s, k).
     do { k \<leftarrow> free_buffers_loop (heap_list s) k; Some (s\<lparr>heap_list := []\<rparr>, k) })"

text \<open>\<open>FindEntryByBus\<close>: the position of the first entry with the address.\<close>

fun find_entry :: "allocation list \<Rightarrow> u32 \<Rightarrow> nat \<Rightarrow> nat option" where
  "find_entry [] phys i = None"
| "find_entry (e # es) phys i = (if phys_addr e = phys then Some i else find_entry es phys (Suc i))"

definition FindEntryByBus :: "memalloc \<Rightarrow> u32 \<Rightarrow> nat option" where
  "FindEntryByBus s phys = find_entry (heap_list s) phys 0"

text \<open>
  \<open>AllocMemory\<close>: the result, what is stored through \<open>phys_addr\<close> (\<open>p0\<close> is the caller's value,
  which stays when the entry cannot be allocated), and the state.
\<close>

definition AllocMemory :: "u32 \<Rightarrow> u32 \<Rightarrow> 'w mstate \<Rightarrow> int \<times> u32 \<times> 'w mstate" where
  "AllocMemory p0 sz = (\<lambda>(s, k).
     (case kmalloc k of (ok, k) \<Rightarrow>
        if \<not> ok then (- ENOMEM, p0, s, k)
        else
          let sz = PAGE_ALIGN sz in
          (case dma_alloc_coherent sz k of (cpu, phys, k) \<Rightarrow>
             if cpu = 0 then (- ENOMEM, 0, s, k)
             else (0, phys,
                   s\<lparr>heap_list := heap_list s @ [\<lparr>phys_addr = phys, cpu_addr = cpu, asize = sz\<rparr>]\<rparr>, k))))"

definition FreeMemory :: "u32 \<Rightarrow> 'w mstate \<Rightarrow> (int \<times> 'w mstate) option" where
  "FreeMemory phys = (\<lambda>(s, k).
     (case FindEntryByBus s phys of
        None \<Rightarrow> Some (- EINVAL, s, k)
      | Some i \<Rightarrow>
          let e = heap_list s ! i;
              s = s\<lparr>heap_list := take i (heap_list s) @ drop (Suc i) (heap_list s)\<rparr>
          in do {
               k \<leftarrow> dma_free_coherent (asize e) (cpu_addr e) (phys_addr e) k;
               Some (0, s, kfree k)
             }))"

definition MapBuffer :: "'w memalloc_env \<Rightarrow> vm_area \<Rightarrow> 'w mstate \<Rightarrow> int \<times> 'w mstate" where
  "MapBuffer env vma = (\<lambda>(s, k).
     let off = push_bit PAGE_SHIFT (vm_pgoff vma);
         sz = vm_end vma - vm_start vma
     in case FindEntryByBus s off of
          None \<Rightarrow> (- EINVAL, s, k)
        | Some i \<Rightarrow>
            let e = heap_list s ! i in
            if sz \<noteq> asize e then (- EINVAL, s, k)
            else
              (case on_kworld (remap_pfn_range env (vm_start vma) (drop_bit PAGE_SHIFT (phys_addr e)) sz) k of
                 (r, k) \<Rightarrow> (if r \<noteq> 0 then - EAGAIN else 0, s, k)))"

definition memalloc_mmap :: "'w memalloc_env \<Rightarrow> vm_area \<Rightarrow> 'w mstate \<Rightarrow> int \<times> 'w mstate" where
  "memalloc_mmap env vma st = MapBuffer env vma st"

definition memalloc_ioctl :: "'w memalloc_env \<Rightarrow> u32 \<Rightarrow> ulong \<Rightarrow> 'w mstate \<Rightarrow> (int \<times> 'w mstate) option" where
  "memalloc_ioctl env cmd arg = (\<lambda>(s, k).
     if IOC_TYPE cmd \<noteq> MEMALLOC_IOC_MAGIC then Some (- ENOTTY, s, k)
     else if MEMALLOC_IOC_MAXNR < IOC_NR cmd then Some (- ENOTTY, s, k)
     else if (if IOC_DIR cmd AND IOC_READ \<noteq> 0 then \<not> access_ok env True arg (IOC_SIZE cmd) (kworld k)
              else if IOC_DIR cmd AND IOC_WRITE \<noteq> 0 then \<not> access_ok env False arg (IOC_SIZE cmd) (kworld k)
              else False)
     then Some (- EFAULT, s, k)
     else if cmd = MEMALLOC_IOCHARDRESET
     then do { st \<leftarrow> memalloc_free_buffers (s, k); Some (0, st) }
     else if cmd = MEMALLOC_IOCXGETBUFFER
     then (case copy_from_user (u_word env) arg k of (_, sz) \<Rightarrow>
             (case AllocMemory 0 sz (s, k) of (ret, phys, s, k) \<Rightarrow>
                (case copy_to_user (u_word env) arg phys k of (_, k) \<Rightarrow> Some (ret, s, k))))
     else if cmd = MEMALLOC_IOCSFREEBUFFER
     then (case copy_from_user (u_word env) arg k of (_, phys) \<Rightarrow> FreeMemory phys (s, k))
     else Some (- EINVAL, s, k))"

definition memalloc_open :: "'w mstate \<Rightarrow> int \<times> 'w mstate" where
  "memalloc_open = (\<lambda>(s, k). (0, s\<lparr>open_count := open_count s + 1\<rparr>, k))"

definition memalloc_release :: "'w mstate \<Rightarrow> (int \<times> 'w mstate) option" where
  "memalloc_release = (\<lambda>(s, k).
     let s = s\<lparr>open_count := open_count s - 1\<rparr>
     in if open_count s = 0 then do { st \<leftarrow> memalloc_free_buffers (s, k); Some (0, st) }
        else Some (0, s, k))"

definition memalloc_init :: "'w mstate \<Rightarrow> int \<times> 'w mstate" where
  "memalloc_init = (\<lambda>(s, k).
     (case register_chrdev (memalloc_major s) k of (result, k) \<Rightarrow>
        if result \<le> 0 then (- EIO, s, k)
        else
          let s = s\<lparr>memalloc_major := result\<rparr> in
          (case class_create k of (c, k) \<Rightarrow>
             if c < 0 then (- EIO, s, unregister_chrdev (memalloc_major s) k)
             else
               (case device_create k of (d, k) \<Rightarrow>
                  if d < 0 then (- EIO, s, unregister_chrdev (memalloc_major s) (class_destroy k))
                  else (0, s, k)))))"

definition memalloc_cleanup :: "'w mstate \<Rightarrow> 'w mstate option" where
  "memalloc_cleanup = (\<lambda>(s, k).
     memalloc_free_buffers (s, unregister_chrdev (memalloc_major s) (class_destroy (device_destroy k))))"



section \<open>The list mirrors the outstanding regions\<close>

definition region :: "allocation \<Rightarrow> dma_region" where
  "region e = (asize e, cpu_addr e, phys_addr e)"

definition mem_inv :: "'w mstate \<Rightarrow> bool" where
  "mem_inv = (\<lambda>(s, k). dma_live k = mset (map region (heap_list s)))"

lemma find_entry_Some:
  "find_entry es phys i = Some j \<Longrightarrow> i \<le> j \<and> j - i < length es \<and> phys_addr (es ! (j - i)) = phys
     \<and> (\<forall>m < j - i. phys_addr (es ! m) \<noteq> phys)"
proof (induction es phys i rule: find_entry.induct)
  case (2 e es phys i)
  show ?case
  proof (cases "phys_addr e = phys")
    case True
    then show ?thesis using "2.prems" by simp
  next
    case False
    then have IH: "Suc i \<le> j" "j - Suc i < length es" "phys_addr (es ! (j - Suc i)) = phys"
      "\<forall>m < j - Suc i. phys_addr (es ! m) \<noteq> phys" using 2 by auto
    have e: "j - i = Suc (j - Suc i)" using IH(1) by simp
    show ?thesis unfolding e using IH False by (auto simp: less_Suc_eq_0_disj)
  qed
qed simp

lemma find_entry_None: "find_entry es phys i = None \<longleftrightarrow> phys \<notin> phys_addr ` set es"
  by (induction es phys i rule: find_entry.induct) auto

lemma FindEntryByBus_Some:
  assumes "FindEntryByBus s phys = Some i"
  shows "i < length (heap_list s)" "phys_addr (heap_list s ! i) = phys"
    "\<forall>m < i. phys_addr (heap_list s ! m) \<noteq> phys"
  using find_entry_Some [of "heap_list s" phys 0 i] assms by (simp_all add: FindEntryByBus_def)

lemma free_buffers_loop_ok:
  "dma_live k = mset (map region es) \<Longrightarrow>
   \<exists>k'. free_buffers_loop es k = Some k' \<and> dma_live k' = {#} \<and> klive k' = klive k - int (length es) \<and> kworld k' = kworld k"
proof (induction es arbitrary: k)
  case (Cons e es)
  let ?k = "kfree (k\<lparr>dma_live := dma_live k - {#region e#}\<rparr>)"
  have "dma_live ?k = mset (map region es)" using Cons.prems by (simp add: kern_defs)
  from Cons.IH [OF this] show ?case using Cons.prems
    by (auto simp: dma_free_coherent_def region_def kern_defs)
qed simp

lemma memalloc_free_buffers_ok:
  assumes "mem_inv (s, k)"
  shows "\<exists>k'. memalloc_free_buffers (s, k) = Some (s\<lparr>heap_list := []\<rparr>, k') \<and> dma_live k' = {#}
    \<and> klive k' = klive k - int (length (heap_list s))"
  using free_buffers_loop_ok [of k "heap_list s"] assms by (auto simp: mem_inv_def memalloc_free_buffers_def)

lemma mset_remove_nth:
  "i < length xs \<Longrightarrow> mset (take i xs @ drop (Suc i) xs) = mset xs - {#xs ! i#}"
  by (subst (3) id_take_nth_drop [of i xs]) (auto simp: ac_simps)

lemma FreeMemory_ok:
  assumes "mem_inv (s, k)"
  shows "\<exists>r s' k'. FreeMemory phys (s, k) = Some (r, s', k') \<and> mem_inv (s', k') \<and> open_count s' = open_count s
    \<and> (if phys \<in> phys_addr ` set (heap_list s)
       then r = 0 \<and> (\<exists>i < length (heap_list s). phys_addr (heap_list s ! i) = phys
          \<and> heap_list s' = take i (heap_list s) @ drop (Suc i) (heap_list s))
       else r = - EINVAL \<and> s' = s \<and> k' = k)"
proof (cases "FindEntryByBus s phys")
  case None
  then show ?thesis using assms find_entry_None [of "heap_list s" phys 0]
    by (simp add: FreeMemory_def FindEntryByBus_def)
next
  case (Some i)
  note f = FindEntryByBus_Some [OF Some]
  let ?e = "heap_list s ! i"
  let ?rest = "take i (heap_list s) @ drop (Suc i) (heap_list s)"
  have in_live: "region ?e \<in># dma_live k" using assms f(1) by (simp add: mem_inv_def)
  have "mset (map region ?rest) = dma_live k - {#region ?e#}"
    using mset_remove_nth [of i "map region (heap_list s)"] f(1) assms
    by (simp add: mem_inv_def take_map drop_map)
  moreover have "phys \<in> phys_addr ` set (heap_list s)" using f(1,2) nth_mem by blast
  ultimately show ?thesis using Some in_live f
    by (auto simp: FreeMemory_def Let_def dma_free_coherent_def region_def kern_defs mem_inv_def)
qed

lemma AllocMemory_ok:
  assumes "mem_inv (s, k)" and "AllocMemory p0 sz (s, k) = (r, phys, s', k')"
  shows "mem_inv (s', k')" and "open_count s' = open_count s"
    and "r = 0 \<longleftrightarrow> heap_list s' \<noteq> heap_list s"
    and "r = 0 \<Longrightarrow> \<exists>e. heap_list s' = heap_list s @ [e] \<and> phys_addr e = phys \<and> asize e = PAGE_ALIGN sz"
    and "r \<noteq> 0 \<Longrightarrow> r = - ENOMEM \<and> s' = s"
  using assms
  by (auto simp: AllocMemory_def kern_defs Let_def mem_inv_def region_def errnos split: if_splits prod.splits)


section \<open>The driver as a state machine\<close>

text \<open>
  One request, or a change of user memory and hardware by somebody else. \<open>release\<close> is only
  called for an open file.
\<close>

inductive memalloc_step :: "'w memalloc_env \<Rightarrow> 'w mstate \<Rightarrow> 'w mstate \<Rightarrow> bool" for env where
  step_open: "memalloc_open st = (r, st') \<Longrightarrow> memalloc_step env st st'"
| step_release: "0 < open_count (fst st) \<Longrightarrow> memalloc_release st = Some (r, st') \<Longrightarrow> memalloc_step env st st'"
| step_ioctl: "memalloc_ioctl env cmd arg st = Some (r, st') \<Longrightarrow> memalloc_step env st st'"
| step_mmap: "memalloc_mmap env vma st = (r, st') \<Longrightarrow> memalloc_step env st st'"
| step_world: "memalloc_step env (s, k) (s, k\<lparr>kworld := w\<rparr>)"

inductive_cases memalloc_stepE: "memalloc_step env st st'"

lemma memalloc_ioctl_ok:
  assumes inv: "mem_inv (s, k)"
  shows "\<exists>r st'. memalloc_ioctl env cmd arg (s, k) = Some (r, st') \<and> mem_inv st' \<and> open_count (fst st') = open_count s"
proof -
  obtain k1 where reset: "memalloc_free_buffers (s, k) = Some (s\<lparr>heap_list := []\<rparr>, k1)" "dma_live k1 = {#}"
    using memalloc_free_buffers_ok [OF inv] by blast
  obtain n sz where cfu: "copy_from_user (u_word env) arg k = (n, sz)" by force
  obtain r2 p2 s2 k2 where alloc: "AllocMemory 0 sz (s, k) = (r2, p2, s2, k2)" by (metis prod_cases4)
  obtain n3 k3 where ctu: "copy_to_user (u_word env) arg p2 k2 = (n3, k3)" by force
  obtain r4 s4 k4 where free: "FreeMemory sz (s, k) = Some (r4, s4, k4)" "mem_inv (s4, k4)" "open_count s4 = open_count s"
    using FreeMemory_ok [OF inv, of sz] by blast
  have inv2: "mem_inv (s2, k3)" "open_count s2 = open_count s"
    using AllocMemory_ok(1,2) [OF inv alloc] copy_to_user_accounts(2) [OF ctu] by (simp_all add: mem_inv_def)
  show ?thesis
    using inv reset cfu alloc ctu free inv2 unfolding memalloc_ioctl_def
    by (simp add: mem_inv_def split: if_splits)
qed

lemma memalloc_release_ok:
  assumes "mem_inv (s, k)"
  shows "\<exists>s' k'. memalloc_release (s, k) = Some (0, s', k') \<and> mem_inv (s', k')
    \<and> open_count s' = open_count s - 1 \<and> (open_count s = 1 \<longrightarrow> heap_list s' = [] \<and> dma_live k' = {#})"
proof -
  have "mem_inv (s\<lparr>open_count := open_count s - 1\<rparr>, k)" using assms by (simp add: mem_inv_def)
  from memalloc_free_buffers_ok [OF this] show ?thesis using assms
    by (cases "open_count s = 1") (auto simp: memalloc_release_def mem_inv_def Let_def)
qed

lemma memalloc_mmap_ok:
  assumes "mem_inv (s, k)" and "memalloc_mmap env vma (s, k) = (r, st')"
  shows "mem_inv st'" "fst st' = s"
  using assms by (auto simp: memalloc_mmap_def MapBuffer_def Let_def mem_inv_def on_kworld_def
      split: option.splits if_splits prod.splits)

text \<open>C1: The driver keeps its books. In every state it can reach from one where its list matches the
  outstanding DMA regions, whatever requests come in whatever order and whatever user memory and
  the allocators do, the list is exactly the regions not yet freed, and every request returns: no
  region is freed twice or forgotten.\<close>

theorem memalloc_books_balance:
  assumes "(memalloc_step env)\<^sup>*\<^sup>* (s0, k0) (s, k)" and "mem_inv (s0, k0)"
  shows "dma_live k = mset (map region (heap_list s))
    \<and> (\<exists>r st. memalloc_ioctl env cmd arg (s, k) = Some (r, st))
    \<and> (\<exists>st. memalloc_release (s, k) = Some (0, st))
    \<and> (\<exists>st. memalloc_cleanup (s, k) = Some st)"
proof -
  have step: "mem_inv st'" if "memalloc_step env st st'" and "mem_inv st" for st st'
    using that(1)
  proof cases
    case (step_open r)
    then show ?thesis using that(2) by (auto simp: memalloc_open_def mem_inv_def split: prod.splits)
  next
    case (step_release r)
    then show ?thesis using memalloc_release_ok [of "fst st" "snd st"] that(2) by auto
  next
    case (step_ioctl cmd arg r)
    then show ?thesis using memalloc_ioctl_ok [of "fst st" "snd st" env cmd arg] that(2) by auto
  next
    case (step_mmap vma r)
    then show ?thesis using memalloc_mmap_ok(1) [of "fst st" "snd st" env vma r st'] that(2) by simp
  next
    case (step_world s k w)
    then show ?thesis using that(2) by (simp add: mem_inv_def)
  qed
  have inv: "mem_inv (s, k)" using assms by (induction rule: rtranclp_induct) (auto intro: step)
  have "mem_inv (s, unregister_chrdev (memalloc_major s) (class_destroy (device_destroy k)))"
    using inv by (simp add: mem_inv_def kern_defs)
  from memalloc_free_buffers_ok [OF this] have "\<exists>st. memalloc_cleanup (s, k) = Some st"
    by (auto simp: memalloc_cleanup_def)
  then show ?thesis using inv memalloc_ioctl_ok [OF inv, of env cmd arg] memalloc_release_ok [OF inv]
    by (auto simp: mem_inv_def)
qed


section \<open>A kernel to evaluate with\<close>

text \<open>User memory as a map from addresses to words; every allocation succeeds.\<close>

definition demo_menv :: "(u32 \<Rightarrow> u32) memalloc_env" where
  "demo_menv = \<lparr>access_ok = (\<lambda>_ _ _ _. True),
     u_word = \<lparr>from_user = \<lambda>a w. (0, w a), to_user = \<lambda>a v w. (0, w(a := v))\<rparr>,
     remap_pfn_range = (\<lambda>_ _ _ w. (0, w))\<rparr>"

abbreviation demo_mkern :: "(u32 \<Rightarrow> u32) kern" where
  "demo_mkern \<equiv> demo_kern (\<lambda>_. 0)"

definition demo_memalloc :: memalloc where
  "demo_memalloc = \<lparr>memalloc_major = 0, open_count = 0, heap_list = []\<rparr>"

lemma demo_mem_inv: "mem_inv (demo_memalloc, demo_kern w)"
  by (simp add: mem_inv_def demo_memalloc_def demo_kern_def)

theorem memalloc_books_balance_witness:
  "dma_live (demo_mkern) = mset (map region (heap_list (demo_memalloc\<lparr>open_count := 1\<rparr>)))
    \<and> (\<exists>r st. memalloc_ioctl demo_menv MEMALLOC_IOCXGETBUFFER 16 (demo_memalloc\<lparr>open_count := 1\<rparr>, demo_mkern) = Some (r, st))
    \<and> (\<exists>st. memalloc_release (demo_memalloc\<lparr>open_count := 1\<rparr>, demo_mkern) = Some (0, st))
    \<and> (\<exists>st. memalloc_cleanup (demo_memalloc\<lparr>open_count := 1\<rparr>, demo_mkern) = Some st)"
proof -
  have "memalloc_step demo_menv (demo_memalloc, demo_mkern) (demo_memalloc\<lparr>open_count := 1\<rparr>, demo_mkern)"
    by (rule memalloc_step.step_open [where r = 0]) (simp add: memalloc_open_def demo_memalloc_def)
  then have reach: "(memalloc_step demo_menv)\<^sup>*\<^sup>* (demo_memalloc, demo_mkern) (demo_memalloc\<lparr>open_count := 1\<rparr>, demo_mkern)"
    by (rule r_into_rtranclp)
  show ?thesis by (rule memalloc_books_balance [OF reach demo_mem_inv])
qed


section \<open>Properties\<close>

text \<open>A reset and the last close give everything back: afterwards no DMA region is outstanding, the
  list is empty, and the entries of the freed buffers are gone; a close that is not the last one frees
  nothing.\<close>

theorem memalloc_gives_back:
  assumes "mem_inv (s, k)"
  shows "(\<exists>s' k'. memalloc_ioctl env MEMALLOC_IOCHARDRESET arg (s, k) = Some (0, s', k')
      \<and> heap_list s' = [] \<and> dma_live k' = {#} \<and> klive k' = klive k - int (length (heap_list s)))
    \<and> (\<exists>s' k'. memalloc_release (s, k) = Some (0, s', k') \<and> open_count s' = open_count s - 1
      \<and> (if open_count s = 1
         then heap_list s' = [] \<and> dma_live k' = {#} \<and> klive k' = klive k - int (length (heap_list s))
         else heap_list s' = heap_list s \<and> k' = k))"
proof
  have c: "IOC_TYPE MEMALLOC_IOCHARDRESET = MEMALLOC_IOC_MAGIC" "\<not> MEMALLOC_IOC_MAXNR < IOC_NR MEMALLOC_IOCHARDRESET"
    "IOC_DIR MEMALLOC_IOCHARDRESET AND IOC_READ = 0" "IOC_DIR MEMALLOC_IOCHARDRESET AND IOC_WRITE = 0"
    by (code_simp, code_simp, code_simp, code_simp)
  obtain k' where k': "memalloc_free_buffers (s, k) = Some (s\<lparr>heap_list := []\<rparr>, k')" "dma_live k' = {#}"
    "klive k' = klive k - int (length (heap_list s))" using memalloc_free_buffers_ok [OF assms] by blast
  then show "\<exists>s' k'. memalloc_ioctl env MEMALLOC_IOCHARDRESET arg (s, k) = Some (0, s', k')
      \<and> heap_list s' = [] \<and> dma_live k' = {#} \<and> klive k' = klive k - int (length (heap_list s))"
    by (simp add: memalloc_ioctl_def c)
  have "mem_inv (s\<lparr>open_count := open_count s - 1\<rparr>, k)" using assms by (simp add: mem_inv_def)
  from memalloc_free_buffers_ok [OF this]
  show "\<exists>s' k'. memalloc_release (s, k) = Some (0, s', k') \<and> open_count s' = open_count s - 1
      \<and> (if open_count s = 1
         then heap_list s' = [] \<and> dma_live k' = {#} \<and> klive k' = klive k - int (length (heap_list s))
         else heap_list s' = heap_list s \<and> k' = k)"
    by (cases "open_count s = 1") (auto simp: memalloc_release_def Let_def)
qed

theorem memalloc_gives_back_witness:
  "\<exists>s' k'. memalloc_release (demo_memalloc\<lparr>open_count := 1\<rparr>, demo_mkern) = Some (0, s', k') \<and> dma_live k' = {#}"
proof -
  have "mem_inv (demo_memalloc\<lparr>open_count := 1\<rparr>, demo_mkern)" using demo_mem_inv by (simp add: mem_inv_def)
  from memalloc_gives_back [OF this, of demo_menv 0] show ?thesis by auto
qed

lemma getbuffer_cmd:
  "IOC_TYPE MEMALLOC_IOCXGETBUFFER = MEMALLOC_IOC_MAGIC" "\<not> MEMALLOC_IOC_MAXNR < IOC_NR MEMALLOC_IOCXGETBUFFER"
  "IOC_DIR MEMALLOC_IOCXGETBUFFER AND IOC_READ \<noteq> 0" "IOC_SIZE MEMALLOC_IOCXGETBUFFER = 4"
  "MEMALLOC_IOCXGETBUFFER \<noteq> MEMALLOC_IOCHARDRESET"
  by (code_simp, code_simp, code_simp, code_simp, code_simp)

lemma freebuffer_cmd:
  "IOC_TYPE MEMALLOC_IOCSFREEBUFFER = MEMALLOC_IOC_MAGIC" "\<not> MEMALLOC_IOC_MAXNR < IOC_NR MEMALLOC_IOCSFREEBUFFER"
  "IOC_DIR MEMALLOC_IOCSFREEBUFFER AND IOC_READ = 0" "IOC_DIR MEMALLOC_IOCSFREEBUFFER AND IOC_WRITE \<noteq> 0"
  "IOC_SIZE MEMALLOC_IOCSFREEBUFFER = 4"
  "MEMALLOC_IOCSFREEBUFFER \<noteq> MEMALLOC_IOCHARDRESET" "MEMALLOC_IOCSFREEBUFFER \<noteq> MEMALLOC_IOCXGETBUFFER"
  by (code_simp, code_simp, code_simp, code_simp, code_simp, code_simp, code_simp)

text \<open>C2: Getting a buffer and freeing it by the address the driver reported is a round trip: the free
  succeeds and the driver's list and the outstanding regions are what they were. (The word at \<open>arg\<close>
  can be read and written, the allocators succeed, and the new region is not at the bus address of a
  buffer in use.)\<close>

theorem memalloc_get_free_roundtrip:
  assumes "mem_inv (s, k)" and "uaccess_ok (u_word env)" and "\<And>b a n w. access_ok env b a n w"
    and "\<And>v w. fst (to_user (u_word env) arg v w) = 0"
    and "memalloc_ioctl env MEMALLOC_IOCXGETBUFFER arg (s, k) = Some (0, s1, k1)"
    and "snd (from_user (u_word env) arg (kworld k1)) \<notin> phys_addr ` set (heap_list s)"
  shows "\<exists>s2 k2. memalloc_ioctl env MEMALLOC_IOCSFREEBUFFER arg (s1, k1) = Some (0, s2, k2)
    \<and> heap_list s2 = heap_list s \<and> dma_live k2 = dma_live k"
proof -
  obtain n sz where cfu: "copy_from_user (u_word env) arg k = (n, sz)" by force
  obtain r phys sa ka where alloc: "AllocMemory 0 sz (s, k) = (r, phys, sa, ka)" by (metis prod_cases4)
  obtain n3 kb where ctu: "copy_to_user (u_word env) arg phys ka = (n3, kb)" by force
  have "memalloc_ioctl env MEMALLOC_IOCXGETBUFFER arg (s, k) = Some (r, sa, kb)"
    using getbuffer_cmd assms(3) cfu alloc ctu by (simp add: memalloc_ioctl_def)
  then have eq: "r = 0" "s1 = sa" "k1 = kb" using assms(5) by auto
  obtain e where e: "heap_list sa = heap_list s @ [e]" "phys_addr e = phys"
    using AllocMemory_ok(4) [OF assms(1) alloc eq(1)] by blast
  have "mem_inv (sa, ka)" by (rule AllocMemory_ok(1) [OF assms(1) alloc])
  then have inv: "mem_inv (s1, k1)" using copy_to_user_accounts(2) [OF ctu] eq by (simp add: mem_inv_def)
  have "n3 = 0" using ctu assms(4) [of phys "kworld ka"] by (auto simp: copy_to_user_def split: prod.splits)
  then have read: "from_user (u_word env) arg (kworld k1) = (0, phys)"
    using ctu assms(2) eq(3) by (auto simp: copy_to_user_def uaccess_ok_def split: prod.splits)
  obtain r2 s2 k2 where f: "FreeMemory phys (s1, k1) = Some (r2, s2, k2)" "mem_inv (s2, k2)"
    "if phys \<in> phys_addr ` set (heap_list s1) then r2 = 0 \<and> (\<exists>i < length (heap_list s1). phys_addr (heap_list s1 ! i) = phys
          \<and> heap_list s2 = take i (heap_list s1) @ drop (Suc i) (heap_list s1)) else r2 = - EINVAL \<and> s2 = s1 \<and> k2 = k1"
    using FreeMemory_ok [OF inv, of phys] by blast
  obtain i where i: "r2 = 0" "i < length (heap_list s1)" "phys_addr (heap_list s1 ! i) = phys"
    "heap_list s2 = take i (heap_list s1) @ drop (Suc i) (heap_list s1)"
    using f(3) e eq(2) by auto
  have "phys \<notin> phys_addr ` set (heap_list s)" using assms(6) read by simp
  then have "i = length (heap_list s)"
    using i(2,3) e(1) eq(2) nth_mem [of i "heap_list s"] by (cases "i < length (heap_list s)") (auto simp: nth_append)
  then have list: "heap_list s2 = heap_list s" using i(4) e(1) eq(2) by simp
  moreover have "dma_live k2 = dma_live k" using f(2) assms(1) list by (simp add: mem_inv_def)
  moreover have "memalloc_ioctl env MEMALLOC_IOCSFREEBUFFER arg (s1, k1) = Some (0, s2, k2)"
    using freebuffer_cmd assms(3) read f(1) i(1) by (simp add: memalloc_ioctl_def copy_from_user_def)
  ultimately show ?thesis by blast
qed

theorem memalloc_get_free_roundtrip_witness:
  "\<exists>s1 k1 s2 k2. memalloc_ioctl demo_menv MEMALLOC_IOCXGETBUFFER 16 (demo_memalloc, demo_kern (\<lambda>_. 5000)) = Some (0, s1, k1)
     \<and> memalloc_ioctl demo_menv MEMALLOC_IOCSFREEBUFFER 16 (s1, k1) = Some (0, s2, k2) \<and> dma_live k2 = {#}"
proof -
  have u: "uaccess_ok (u_word demo_menv)" "fst (to_user (u_word demo_menv) 16 v w) = 0" "access_ok demo_menv b a n w" for v w b a n
    by (auto simp: uaccess_ok_def demo_menv_def)
  obtain s1 k1 where g: "memalloc_ioctl demo_menv MEMALLOC_IOCXGETBUFFER 16 (demo_memalloc, demo_kern (\<lambda>_. 5000)) = Some (0, s1, k1)"
    using getbuffer_cmd u by (simp add: memalloc_ioctl_def demo_menv_def demo_kern_def AllocMemory_def kern_defs
        copy_from_user_def copy_to_user_def Let_def)
  have "heap_list demo_memalloc = []" "dma_live (demo_kern (\<lambda>_. 5000 :: u32)) = {#}"
    by (simp_all add: demo_memalloc_def demo_kern_def)
  then show ?thesis
    using memalloc_get_free_roundtrip [OF demo_mem_inv u(1) u(3) u(2) g] g by auto
qed


text \<open>When the DMA memory for a buffer cannot be had, \<open>AllocMemory\<close> returns \<open>-ENOMEM\<close> without
  freeing the list entry it allocated first: one kernel allocation more is outstanding and nothing
  refers to it.\<close>

theorem AllocMemory_leaks_entry:
  assumes "\<not> k_alloc_fails k (calls k)" and "fst (k_dma_result k (Suc (calls k)) (PAGE_ALIGN sz)) = 0"
  shows "\<exists>k'. AllocMemory p0 sz (s, k) = (- ENOMEM, 0, s, k') \<and> klive k' = klive k + 1 \<and> dma_live k' = dma_live k"
  using assms by (auto simp: AllocMemory_def kern_defs Let_def split: prod.splits)

theorem AllocMemory_leaks_entry_witness:
  "\<exists>k'. AllocMemory 0 4096 (demo_memalloc, demo_kern ()\<lparr>k_dma_result := \<lambda>_ _. (0, 0)\<rparr>) = (- ENOMEM, 0, demo_memalloc, k')
     \<and> klive k' = klive (demo_kern ()\<lparr>k_dma_result := \<lambda>_ _. (0, 0)\<rparr>) + 1
     \<and> dma_live k' = dma_live (demo_kern ()\<lparr>k_dma_result := \<lambda>_ _. (0, 0)\<rparr>)"
  by (rule AllocMemory_leaks_entry) (simp_all add: demo_kern_def)

text \<open>Loading the module is all or nothing: \<open>memalloc_init\<close> returns 0 with the device number, the
  class and the device registered, or \<open>-EIO\<close> with none of them left, provided a device number is
  asked for dynamically and a number other than 0 is assigned.\<close>

theorem memalloc_init_all_or_nothing:
  assumes "memalloc_major s = 0" and "k_chrdev_result k (calls k) \<noteq> 0"
  shows "\<exists>r s' k'. memalloc_init (s, k) = (r, s', k')
    \<and> (if r = 0 then chrdevs k' = memalloc_major s' # chrdevs k \<and> classes k' = classes k + 1 \<and> devices k' = devices k + 1
       else r = - EIO \<and> chrdevs k' = chrdevs k \<and> classes k' = classes k \<and> devices k' = devices k)"
  using assms by (auto simp: memalloc_init_def kern_defs Let_def errnos split: prod.splits if_splits)

theorem memalloc_init_all_or_nothing_witness:
  "\<exists>r s' k'. memalloc_init (demo_memalloc, demo_kern ()) = (r, s', k')
    \<and> (if r = 0 then chrdevs k' = memalloc_major s' # chrdevs (demo_kern ()) \<and> classes k' = classes (demo_kern ()) + 1
         \<and> devices k' = devices (demo_kern ()) + 1
       else r = - EIO \<and> chrdevs k' = chrdevs (demo_kern ()) \<and> classes k' = classes (demo_kern ())
         \<and> devices k' = devices (demo_kern ()))"
  by (rule memalloc_init_all_or_nothing) (simp_all add: demo_memalloc_def demo_kern_def)


section \<open>The abstract allocator\<close>

text \<open>What the driver promises: a finite map from bus addresses to the sizes of the buffers in use.\<close>

definition buffers :: "memalloc \<Rightarrow> u32 \<Rightarrow> u32 option" where
  "buffers s = map_of (map (\<lambda>e. (phys_addr e, asize e)) (heap_list s))"

text \<open>A new DMA region is not at the bus address of one in use.\<close>

definition dma_fresh :: "'w kern \<Rightarrow> bool" where
  "dma_fresh k \<longleftrightarrow> (\<forall>n sz cpu phys. k_dma_result k n sz = (cpu, phys) \<longrightarrow> cpu \<noteq> 0
     \<longrightarrow> phys \<notin> (\<lambda>(sz, cpu, phys). phys) ` set_mset (dma_live k))"

lemma buffers_dom: "dom (buffers s) = phys_addr ` set (heap_list s)"
  by (auto simp: buffers_def dom_map_of_conv_image_fst image_image)

lemma live_phys: "mem_inv (s, k) \<Longrightarrow> (\<lambda>(sz, cpu, phys). phys) ` set_mset (dma_live k) = phys_addr ` set (heap_list s)"
  by (auto simp: mem_inv_def region_def image_image)

definition buf_inv :: "'w mstate \<Rightarrow> bool" where
  "buf_inv = (\<lambda>(s, k). mem_inv (s, k) \<and> distinct (map phys_addr (heap_list s)))"

lemma map_of_remove_nth:
  assumes "distinct (map fst xs)" and "i < length xs" and "fst (xs ! i) = a"
  shows "map_of (take i xs @ drop (Suc i) xs) = (map_of xs)(a := None)"
proof -
  have xs: "xs = take i xs @ xs ! i # drop (Suc i) xs" by (rule id_take_nth_drop [OF assms(2)])
  have "a \<notin> fst ` set (take i xs)" "a \<notin> fst ` set (drop (Suc i) xs)"
    using assms(1,3) unfolding arg_cong [where f = "map fst", OF xs] by (auto simp: image_iff)
  then have none: "map_of (take i xs) a = None" "map_of (drop (Suc i) xs) a = None" by (simp_all add: map_of_eq_None_iff)
  have "map_of xs = map_of (drop (Suc i) xs) ++ [a \<mapsto> snd (xs ! i)] ++ map_of (take i xs)"
    by (subst xs) (cases "xs ! i", use assms(3) in \<open>simp add: map_add_upd_left\<close>)
  then show ?thesis using none by (auto simp: fun_eq_iff map_add_def split: option.split)
qed

lemma map_of_snoc: "a \<notin> fst ` set xs \<Longrightarrow> map_of (xs @ [(a, b)]) = (map_of xs)(a \<mapsto> b)"
proof -
  assume "a \<notin> fst ` set xs"
  then have "map_of xs a = None" by (simp add: map_of_eq_None_iff)
  then show ?thesis by (auto simp: fun_eq_iff map_add_def split: option.split)
qed

lemma AllocMemory_refines:
  assumes "buf_inv (s, k)" and "dma_fresh k" and "AllocMemory p0 sz (s, k) = (r, phys, s', k')"
  shows "buf_inv (s', k') \<and> (if r = 0 then phys \<notin> dom (buffers s) \<and> buffers s' = (buffers s)(phys \<mapsto> PAGE_ALIGN sz)
    else buffers s' = buffers s)"
proof -
  have inv: "mem_inv (s, k)" "distinct (map phys_addr (heap_list s))" using assms(1) by (simp_all add: buf_inv_def)
  note ok = AllocMemory_ok [OF inv(1) assms(3)]
  show ?thesis
  proof (cases "r = 0")
    case True
    obtain e where e: "heap_list s' = heap_list s @ [e]" "phys_addr e = phys" "asize e = PAGE_ALIGN sz"
      using ok(4) [OF True] by blast
    have "\<exists>n cpu. k_dma_result k n (PAGE_ALIGN sz) = (cpu, phys) \<and> cpu \<noteq> 0"
      using assms(3) True by (auto simp: AllocMemory_def kern_defs Let_def errnos split: if_splits prod.splits)
    then have "phys \<notin> phys_addr ` set (heap_list s)"
      using assms(2) live_phys [OF inv(1)] unfolding dma_fresh_def by blast
    moreover from this have "buffers s' = (buffers s)(phys \<mapsto> PAGE_ALIGN sz)"
      using e map_of_snoc [of phys "map (\<lambda>e. (phys_addr e, asize e)) (heap_list s)" "PAGE_ALIGN sz"]
      by (simp add: buffers_def image_image del: map_of_append)
    moreover have "distinct (map phys_addr (heap_list s'))" using calculation(1) e inv(2) by simp
    ultimately show ?thesis using True ok(1) by (simp add: buf_inv_def buffers_dom)
  next
    case False
    then show ?thesis using ok(1) ok(5) inv(2) by (simp add: buf_inv_def)
  qed
qed

lemma FreeMemory_refines:
  assumes "buf_inv (s, k)"
  shows "\<exists>r s' k'. FreeMemory p (s, k) = Some (r, s', k') \<and> buf_inv (s', k')
    \<and> buffers s' = (buffers s)(p := None) \<and> (r = 0 \<longleftrightarrow> p \<in> dom (buffers s))"
proof -
  have inv: "mem_inv (s, k)" "distinct (map phys_addr (heap_list s))" using assms by (simp_all add: buf_inv_def)
  obtain r s' k' where f: "FreeMemory p (s, k) = Some (r, s', k')" "mem_inv (s', k')"
    "if p \<in> phys_addr ` set (heap_list s) then r = 0 \<and> (\<exists>i < length (heap_list s). phys_addr (heap_list s ! i) = p
        \<and> heap_list s' = take i (heap_list s) @ drop (Suc i) (heap_list s)) else r = - EINVAL \<and> s' = s \<and> k' = k"
    using FreeMemory_ok [OF inv(1), of p] by blast
  show ?thesis
  proof (cases "p \<in> dom (buffers s)")
    case True
    then obtain i where i: "r = 0" "i < length (heap_list s)" "phys_addr (heap_list s ! i) = p"
      "heap_list s' = take i (heap_list s) @ drop (Suc i) (heap_list s)" using f(3) by (auto simp: buffers_dom)
    have "distinct (take i xs @ drop (Suc i) xs)" if "distinct xs" for xs :: "u32 list"
      using that set_take_disj_set_drop_if_distinct [of xs i "Suc i"] by simp
    from this [OF inv(2)] have "distinct (map phys_addr (take i (heap_list s) @ drop (Suc i) (heap_list s)))"
      by (simp add: take_map drop_map)
    moreover have "buffers s' = (buffers s)(p := None)"
      using map_of_remove_nth [of "map (\<lambda>e. (phys_addr e, asize e)) (heap_list s)" i p] inv(2) i
      by (simp add: buffers_def take_map drop_map comp_def)
    ultimately show ?thesis using f(1,2) i True by (simp add: buf_inv_def)
  next
    case False
    then have "r = - EINVAL" "s' = s" "k' = k" using f(3) by (simp_all add: buffers_dom)
    moreover have "(buffers s)(p := None) = buffers s" using False by (auto simp: fun_eq_iff)
    ultimately show ?thesis using f(1) assms False by (simp add: errnos)
  qed
qed

lemma MapBuffer_refines:
  assumes "distinct (map phys_addr (heap_list s))"
  shows "fst (memalloc_mmap env vma (s, k)) = - EINVAL
    \<longleftrightarrow> buffers s (push_bit PAGE_SHIFT (vm_pgoff vma)) \<noteq> Some (vm_end vma - vm_start vma)"
proof (cases "FindEntryByBus s (push_bit PAGE_SHIFT (vm_pgoff vma))")
  case None
  then have "buffers s (push_bit PAGE_SHIFT (vm_pgoff vma)) = None"
    using buffers_dom [of s] find_entry_None [of "heap_list s" "push_bit PAGE_SHIFT (vm_pgoff vma)" 0]
    by (auto simp: FindEntryByBus_def)
  then show ?thesis using None by (simp add: memalloc_mmap_def MapBuffer_def)
next
  case (Some i)
  note f = FindEntryByBus_Some [OF Some]
  have "(push_bit PAGE_SHIFT (vm_pgoff vma), asize (heap_list s ! i))
    \<in> set (map (\<lambda>e. (phys_addr e, asize e)) (heap_list s))"
    using f(1,2) by (auto simp: image_iff intro!: bexI [of _ "heap_list s ! i"])
  then have "buffers s (push_bit PAGE_SHIFT (vm_pgoff vma)) = Some (asize (heap_list s ! i))"
    unfolding buffers_def using assms by (intro map_of_is_SomeI) (simp_all add: comp_def)
  then show ?thesis using Some
    by (auto simp: memalloc_mmap_def MapBuffer_def on_kworld_def errnos Let_def split: prod.split)
qed



end
