(* ===== verification/SccDriver.thy ===== *)
theory SccDriver
  imports Kernel
begin

text \<open>
  The SCC test driver: \<open>module_test/scc_test_driver.c\<close> and \<open>include/scc_test_driver.h\<close>.

  The driver hands requests from user space to the SCC driver (\<open>linux/mxc_scc_driver.h\<close>, not part of the
  repository), which is the record \<open>scc_env\<close>: its functions act on the world (hardware and user
  memory), get the values their pointer arguments refer to and return what they store there. The
  driver's own variables are the record \<open>scc_test\<close>. \<open>SCC_DEBUG\<close> is not defined; what is only printed is
  not modelled. A handler that touches kernel memory by offset returns \<open>None\<close> when it leaves its area.
\<close>

unbundle bit_operations_syntax

section \<open>Interface definitions\<close>

definition SCC_TEST_MAJOR_NODE :: int where "SCC_TEST_MAJOR_NODE = 240"

definition IOCTL_SCC_OK :: int where "IOCTL_SCC_OK = 0"
definition IOCTL_SCC_INVALID_CMD :: int where "IOCTL_SCC_INVALID_CMD = ENOTTY"
definition IOCTL_SCC_INVALID_MODE :: int where "IOCTL_SCC_INVALID_MODE = EINVAL"
definition IOCTL_SCC_SCM_BUSY :: int where "IOCTL_SCC_SCM_BUSY = EBUSY"
definition IOCTL_SCC_IMPROPER_STATE :: int where "IOCTL_SCC_IMPROPER_STATE = EBADFD"
definition IOCTL_SCC_IMPROPER_ADDR :: int where "IOCTL_SCC_IMPROPER_ADDR = EFAULT"
definition IOCTL_SCC_NO_MEMORY :: int where "IOCTL_SCC_NO_MEMORY = ENOMEM"
definition IOCTL_SCC_FAILURE :: int where "IOCTL_SCC_FAILURE = ESPIPE"

lemmas scc_codes [driver_simps] = IOCTL_SCC_OK_def IOCTL_SCC_INVALID_CMD_def IOCTL_SCC_INVALID_MODE_def
  IOCTL_SCC_SCM_BUSY_def IOCTL_SCC_IMPROPER_STATE_def IOCTL_SCC_IMPROPER_ADDR_def IOCTL_SCC_NO_MEMORY_def
  IOCTL_SCC_FAILURE_def

text \<open>
  The structures passed to \<open>ioctl\<close>. Pointers and \<open>unsigned long\<close> are 32 bits wide, enumerations are
  \<open>int\<close>s. The fields that several structures share carry a prefix.
\<close>

record scc_configuration_access =
  driver_major_version :: int
  driver_minor_version :: int
  scm_version :: int
  smn_version :: int
  block_size :: int
  black_ram_size :: int
  red_ram_size :: int

record scc_reg_access =
  reg_offset :: u32
  reg_data :: u32
  reg_return_code :: int

datatype scc_encrypt_wait = SCC_ENCRYPT_SLEEP | SCC_ENCRYPT_POLL

record scc_encrypt_decrypt =
  data_in :: u32
  data_in_length :: u32
  data_out :: u32
  data_out_length :: u32
  crypto_mode :: int
  check_mode :: int
  init_vector :: "u32 \<times> u32"
  wait_mode :: scc_encrypt_wait
  function_return_code :: int
  verify_mode :: int

record scc_get_black_length_access =
  bl_value_size_bytes :: u64
  bl_black_size_bytes :: u32

record scc_alloc_slot_access =
  al_value_size_bytes :: u32
  al_slot :: u32
  al_owner_id :: u64
  al_scc_status :: int

record scc_dealloc_slot_access =
  de_slot :: u32
  de_scc_status :: int
  de_owner_id :: u64

record scc_load_slot_access =
  ld_slot :: u32
  ld_key_is_red :: u32
  ld_owner_id :: u64
  ld_key_data :: u32
  ld_key_data_length :: u32
  ld_scc_status :: int

record scc_encrypt_slot_access =
  en_slot :: u32
  en_key_data :: u32
  en_owner_id :: u64
  en_key_data_length :: u32
  en_scc_status :: int

record scc_get_slot_info_access =
  gi_slot :: u32
  gi_address :: u32
  gi_owner_id :: u64
  gi_value_size_bytes :: u32
  gi_slot_size_bytes :: u32
  gi_scc_status :: int

text \<open>The command numbers; the last argument is the size of the structure (64-bit members are aligned
  to 8 bytes).\<close>

definition SCC_TEST_DRIVER_IOCTL_IDENTIFIER :: u32 where "SCC_TEST_DRIVER_IOCTL_IDENTIFIER = 0x73"

definition SCC_TEST_GET_CONFIGURATION :: u32 where
  "SCC_TEST_GET_CONFIGURATION = IOW SCC_TEST_DRIVER_IOCTL_IDENTIFIER 0 28"
definition SCC_TEST_READ_REG :: u32 where "SCC_TEST_READ_REG = IOWR SCC_TEST_DRIVER_IOCTL_IDENTIFIER 1 12"
definition SCC_TEST_WRITE_REG :: u32 where "SCC_TEST_WRITE_REG = IOWR SCC_TEST_DRIVER_IOCTL_IDENTIFIER 2 12"
definition SCC_TEST_ENCRYPT :: u32 where "SCC_TEST_ENCRYPT = IOWR SCC_TEST_DRIVER_IOCTL_IDENTIFIER 3 44"
definition SCC_TEST_DECRYPT :: u32 where "SCC_TEST_DECRYPT = IOWR SCC_TEST_DRIVER_IOCTL_IDENTIFIER 4 44"
definition SCC_TEST_SET_ALARM :: u32 where "SCC_TEST_SET_ALARM = IO SCC_TEST_DRIVER_IOCTL_IDENTIFIER 5"
definition SCC_TEST_ZEROIZE :: u32 where "SCC_TEST_ZEROIZE = IOWR SCC_TEST_DRIVER_IOCTL_IDENTIFIER 6 4"
definition SCC_TEST_ALLOC_SLOT :: u32 where "SCC_TEST_ALLOC_SLOT = IOWR SCC_TEST_DRIVER_IOCTL_IDENTIFIER 7 24"
definition SCC_TEST_DEALLOC_SLOT :: u32 where "SCC_TEST_DEALLOC_SLOT = IOWR SCC_TEST_DRIVER_IOCTL_IDENTIFIER 8 16"
definition SCC_TEST_LOAD_SLOT :: u32 where "SCC_TEST_LOAD_SLOT = IOWR SCC_TEST_DRIVER_IOCTL_IDENTIFIER 9 32"
definition SCC_TEST_GET_SLOT_INFO :: u32 where
  "SCC_TEST_GET_SLOT_INFO = IOWR SCC_TEST_DRIVER_IOCTL_IDENTIFIER 10 32"
definition SCC_TEST_ENCRYPT_SLOT :: u32 where
  "SCC_TEST_ENCRYPT_SLOT = IOWR SCC_TEST_DRIVER_IOCTL_IDENTIFIER 11 24"

lemma scc_cmd_values:
  "SCC_TEST_GET_CONFIGURATION = 0x401C7300"
  "SCC_TEST_READ_REG = 0xC00C7301"
  "SCC_TEST_WRITE_REG = 0xC00C7302"
  "SCC_TEST_ENCRYPT = 0xC02C7303"
  "SCC_TEST_DECRYPT = 0xC02C7304"
  "SCC_TEST_SET_ALARM = 0x7305"
  "SCC_TEST_ZEROIZE = 0xC0047306"
  "SCC_TEST_ALLOC_SLOT = 0xC0187307"
  "SCC_TEST_DEALLOC_SLOT = 0xC0107308"
  "SCC_TEST_LOAD_SLOT = 0xC0207309"
  "SCC_TEST_GET_SLOT_INFO = 0xC020730A"
  "SCC_TEST_ENCRYPT_SLOT = 0xC018730B"
  by (code_simp, code_simp, code_simp, code_simp, code_simp, code_simp, code_simp, code_simp, code_simp, code_simp, code_simp, code_simp)


section \<open>The driver under test and the driver's state\<close>

datatype scc_handler = Scc_test_open | Scc_test_ioctl | Scc_test_release | Scc_test_mmap

record ('c, 'w) scc_env =
  scc_os :: "(scc_handler, 'w) os_env"
  u_config :: "('c, 'w) uaccess"
  u_reg :: "(scc_reg_access, 'w) uaccess"
  u_cipher :: "(scc_encrypt_decrypt, 'w) uaccess"
  u_return :: "(int, 'w) uaccess"
  u_alloc_slot :: "(scc_alloc_slot_access, 'w) uaccess"
  u_dealloc_slot :: "(scc_dealloc_slot_access, 'w) uaccess"
  u_load_slot :: "(scc_load_slot_access, 'w) uaccess"
  u_encrypt_slot :: "(scc_encrypt_slot_access, 'w) uaccess"
  u_slot_info :: "(scc_get_slot_info_access, 'w) uaccess"
  u_bytes :: "'w ubytes"
  SCC_RET_OK :: int
  SCC_RET_INSUFFICIENT_SPACE :: int
  SCC_CBC_MODE :: int
  SCC_ENCRYPT :: int
  SCC_DECRYPT :: int
  SMN_STATUS :: u32
  SCC_BASE_ADDR :: u32
  VM_IO :: u32
  try_module_get :: "'w \<Rightarrow> bool"
  scc_get_configuration :: "'w \<Rightarrow> 'c \<times> 'w"
  scc_read_register :: "u32 \<Rightarrow> u32 \<Rightarrow> 'w \<Rightarrow> (int \<times> u32) \<times> 'w"
  scc_write_register :: "u32 \<Rightarrow> u32 \<Rightarrow> 'w \<Rightarrow> int \<times> 'w"
  scc_crypt :: "u32 \<Rightarrow> u8 list \<Rightarrow> (u32 \<times> u32) option \<Rightarrow> int \<Rightarrow> int \<Rightarrow> int \<Rightarrow> u32 \<Rightarrow> 'w
    \<Rightarrow> (int \<times> u8 list \<times> u32) \<times> 'w"
  scc_set_sw_alarm :: "'w \<Rightarrow> unit \<times> 'w"
  scc_monitor_security_failure :: "'w \<Rightarrow> int \<times> 'w"
  scc_zeroize_memories :: "'w \<Rightarrow> int \<times> 'w"
  scc_alloc_slot :: "u32 \<Rightarrow> u64 \<Rightarrow> u32 \<Rightarrow> 'w \<Rightarrow> (int \<times> u32) \<times> 'w"
  scc_dealloc_slot :: "u64 \<Rightarrow> u32 \<Rightarrow> 'w \<Rightarrow> int \<times> 'w"
  scc_load_slot :: "u64 \<Rightarrow> u32 \<Rightarrow> u8 list \<Rightarrow> u32 \<Rightarrow> 'w \<Rightarrow> int \<times> 'w"
  scc_decrypt_slot :: "u64 \<Rightarrow> u32 \<Rightarrow> u32 \<Rightarrow> u8 list \<Rightarrow> 'w \<Rightarrow> int \<times> 'w"
  scc_encrypt_slot :: "u64 \<Rightarrow> u32 \<Rightarrow> u32 \<Rightarrow> 'w \<Rightarrow> (int \<times> u8 list) \<times> 'w"
  scc_get_slot_info :: "u64 \<Rightarrow> u32 \<Rightarrow> u32 \<times> u32 \<times> u32 option \<Rightarrow> 'w \<Rightarrow> (int \<times> u32 \<times> u32 \<times> u32 option) \<times> 'w"
  scc_remap_pfn_range :: "u32 \<Rightarrow> u32 \<Rightarrow> u32 \<Rightarrow> 'w \<Rightarrow> int \<times> 'w"

record 'c scc_test =
  scc_test_major_node :: int
  reg_handle :: "(os_fn \<times> scc_handler) list"
  scc_cfg :: "'c option"
  module_refs :: int

record scc_vma =
  scc_vm_start :: u32
  scc_vm_pgoff :: u32
  scc_vm_flags :: u32


section \<open>Operations\<close>

subsection \<open>Loading, unloading, open and close\<close>

text \<open>\<open>code\<close> is \<open>OS_ERROR_OK_S\<close> wherever the major number is saved.\<close>

definition setup_user_driver_interaction :: "('c, 'w) scc_env \<Rightarrow> 'c scc_test \<times> 'w kern \<Rightarrow> int \<times> 'c scc_test \<times> 'w kern" where
  "setup_user_driver_interaction env = (\<lambda>(s, k).
     let s = s\<lparr>reg_handle := [(OS_FN_OPEN, Scc_test_open), (OS_FN_IOCTL, Scc_test_ioctl),
                (OS_FN_CLOSE, Scc_test_release), (OS_FN_MMAP, Scc_test_release)]\<rparr>
     in case on_kworld (os_driver_complete_registration (scc_os env) (reg_handle s) (scc_test_major_node s)) k of
          (code, k) \<Rightarrow>
            if code \<noteq> OS_ERROR_OK_S (scc_os env) then (code, s, k)
            else if scc_test_major_node s = 0 then (code, s\<lparr>scc_test_major_node := code\<rparr>, k)
            else (code, s, k))"

definition scc_test_cleanup :: "'c scc_test \<times> 'w kern \<Rightarrow> 'c scc_test \<times> 'w kern" where
  "scc_test_cleanup = (\<lambda>(s, k).
     if scc_test_major_node s \<noteq> 0
     then (s\<lparr>scc_test_major_node := 0\<rparr>, unregister_chrdev (scc_test_major_node s) k) else (s, k))"

text \<open>The status register decides only which message is printed.\<close>

definition scc_test_init :: "('c, 'w) scc_env \<Rightarrow> 'c scc_test \<times> 'w kern \<Rightarrow> int \<times> 'c scc_test \<times> 'w kern" where
  "scc_test_init env = (\<lambda>(s, k).
     case on_kworld (scc_get_configuration env) k of (cfg, k) \<Rightarrow>
     let s = s\<lparr>scc_cfg := Some cfg\<rparr> in
     case on_kworld (scc_read_register env (SMN_STATUS env) 0) k of ((error_code, smn_status), k) \<Rightarrow>
     case (if error_code = 0 then setup_user_driver_interaction env (s, k) else (error_code, s, k)) of
       (error_code, s, k) \<Rightarrow>
     case on_kworld (scc_monitor_security_failure env) k of (_, k) \<Rightarrow>
     if error_code \<noteq> 0 then (error_code, scc_test_cleanup (s, k)) else (error_code, s, k))"

definition scc_test_open :: "('c, 'w) scc_env \<Rightarrow> 'c scc_test \<times> 'w kern \<Rightarrow> int \<times> 'c scc_test \<times> 'w kern" where
  "scc_test_open env = (\<lambda>(s, k).
     (0, if try_module_get env (kworld k) then s\<lparr>module_refs := module_refs s + 1\<rparr> else s, k))"

definition scc_test_release :: "'c scc_test \<times> 'w kern \<Rightarrow> int \<times> 'c scc_test \<times> 'w kern" where
  "scc_test_release = (\<lambda>(s, k). (0, s\<lparr>module_refs := module_refs s - 1\<rparr>, k))"

definition scc_test_mmap :: "('c, 'w) scc_env \<Rightarrow> scc_vma \<Rightarrow> 'w kern \<Rightarrow> int \<times> scc_vma \<times> 'w kern" where
  "scc_test_mmap env vma k =
     (let pfn = drop_bit PAGE_SHIFT (SCC_BASE_ADDR env);
          vma = vma\<lparr>scc_vm_pgoff := pfn, scc_vm_flags := scc_vm_flags vma OR VM_IO env\<rparr>
      in case on_kworld (scc_remap_pfn_range env (scc_vm_start vma) pfn 8192) k of (r, k) \<Rightarrow> (r, vma, k))"


subsection \<open>Configuration and registers\<close>

definition scc_test_get_configuration :: "('c, 'w) scc_env \<Rightarrow> u32 \<Rightarrow> 'w kern \<Rightarrow> int \<times> 'w kern" where
  "scc_test_get_configuration env scc_data k =
     (case on_kworld (scc_get_configuration env) k of (cfg, k) \<Rightarrow>
      case copy_to_user (u_config env) scc_data cfg k of (n, k) \<Rightarrow>
        (if n \<noteq> 0 then - IOCTL_SCC_IMPROPER_ADDR else IOCTL_SCC_OK, k))"

definition scc_test_read_register :: "('c, 'w) scc_env \<Rightarrow> u32 \<Rightarrow> 'w kern \<Rightarrow> int \<times> 'w kern" where
  "scc_test_read_register env scc_data k =
     (case copy_from_user (u_reg env) scc_data k of (n, reg_struct) \<Rightarrow>
      case (if n \<noteq> 0 then (-1, - IOCTL_SCC_IMPROPER_ADDR, reg_struct, k)
            else case on_kworld (scc_read_register env (reg_offset reg_struct) (reg_data reg_struct)) k of
                   ((scc_return, v), k) \<Rightarrow>
                     (scc_return, if scc_return \<noteq> SCC_RET_OK env then - IOCTL_SCC_IMPROPER_ADDR else IOCTL_SCC_OK,
                      reg_struct\<lparr>reg_data := v\<rparr>, k)) of
        (scc_return, error_code, reg_struct, k) \<Rightarrow>
          case copy_to_user (u_reg env) scc_data (reg_struct\<lparr>reg_return_code := scc_return\<rparr>) k of
            (copy_code, k) \<Rightarrow> (if copy_code \<noteq> 0 then IOCTL_SCC_FAILURE else error_code, k))"

definition scc_test_write_register :: "('c, 'w) scc_env \<Rightarrow> u32 \<Rightarrow> 'w kern \<Rightarrow> int \<times> 'w kern" where
  "scc_test_write_register env scc_data k =
     (case copy_from_user (u_reg env) scc_data k of (n, reg_struct) \<Rightarrow>
      case (if n \<noteq> 0 then (-1, - IOCTL_SCC_IMPROPER_ADDR, k)
            else case on_kworld (scc_write_register env (reg_offset reg_struct) (reg_data reg_struct)) k of
                   (scc_return, k) \<Rightarrow>
                     (scc_return, if scc_return \<noteq> SCC_RET_OK env then - IOCTL_SCC_IMPROPER_ADDR else IOCTL_SCC_OK, k)) of
        (scc_return, error_code, k) \<Rightarrow>
          case copy_to_user (u_reg env) scc_data (reg_struct\<lparr>reg_return_code := scc_return\<rparr>) k of
            (copy_code, k) \<Rightarrow> (if copy_code \<noteq> 0 then IOCTL_SCC_FAILURE else error_code, k))"


subsection \<open>Encryption and decryption\<close>

text \<open>
  The body of \<open>scc_test_cipher\<close> once both areas are there: the data goes to the same offset within a
  block as in user memory. It returns the driver's code, the error code and the updated structure.
\<close>

definition scc_test_cipher_run :: "('c, 'w) scc_env \<Rightarrow> int \<Rightarrow> scc_encrypt_decrypt \<Rightarrow> u8 list \<Rightarrow> u8 list \<Rightarrow> 'w kern
    \<Rightarrow> (int \<times> int \<times> scc_encrypt_decrypt \<times> 'w kern) option" where
  "scc_test_cipher_run env enc_dec cs area_in area_out k =
     (let input = c_rem8 (data_in cs); output = c_rem8 (data_out cs) in
      case copy_bytes_from_user (u_bytes env) (data_in cs) (unat (data_in_length cs)) k of (copy_code, bytes) \<Rightarrow> do {
        area_in \<leftarrow> write_area input bytes area_in;
        if copy_code \<noteq> 0 then Some (-1, - IOCTL_SCC_NO_MEMORY, cs, k)
        else do {
          text_in \<leftarrow> read_area input (unat (data_in_length cs)) area_in;
          case on_kworld (scc_crypt env (data_in_length cs) text_in
                 (if crypto_mode cs = SCC_CBC_MODE env then Some (init_vector cs) else None)
                 enc_dec (crypto_mode cs) (check_mode cs) (data_out_length cs)) k of
            ((return_code, text_out, out_length), k) \<Rightarrow> do {
              area_out \<leftarrow> write_area output text_out area_out;
              let cs = cs\<lparr>data_out_length := out_length\<rparr>;
              if return_code = SCC_RET_OK env
              then do {
                result \<leftarrow> read_area output (unat out_length) area_out;
                case copy_bytes_to_user (u_bytes env) (data_out cs) result k of
                  (copy_code, k) \<Rightarrow>
                    Some (return_code, if copy_code \<noteq> 0 \<or> return_code \<noteq> 0 then ENOMEM else IOCTL_SCC_OK, cs, k)
              }
              else Some (return_code, if return_code \<noteq> 0 then ENOMEM else IOCTL_SCC_OK, cs, k)
            }
        }
      })"

text \<open>The end of \<open>scc_test_cipher\<close>: report, and free the areas that were allocated.\<close>

definition scc_test_cipher_finish :: "('c, 'w) scc_env \<Rightarrow> u32 \<Rightarrow> bool \<Rightarrow> bool
    \<Rightarrow> int \<Rightarrow> int \<Rightarrow> scc_encrypt_decrypt \<Rightarrow> 'w kern \<Rightarrow> int \<times> 'w kern" where
  "scc_test_cipher_finish env scc_data area_in area_out return_code error_code cs k =
     (case copy_to_user (u_cipher env) scc_data (cs\<lparr>function_return_code := return_code\<rparr>) k of (copy_code, k) \<Rightarrow>
      let error_code = (if copy_code \<noteq> 0 then IOCTL_SCC_FAILURE else error_code);
          k = (if area_in then kfree k else k);
          k = (if area_out then kfree k else k)
      in (error_code, k))"

definition scc_test_cipher :: "('c, 'w) scc_env \<Rightarrow> u32 \<Rightarrow> u32 \<Rightarrow> 'w kern \<Rightarrow> (int \<times> 'w kern) option" where
  "scc_test_cipher env cmd scc_data k =
     (case copy_from_user (u_cipher env) scc_data k of (n, cs) \<Rightarrow>
      if n \<noteq> 0 then Some (scc_test_cipher_finish env scc_data False False (-1) (- IOCTL_SCC_IMPROPER_ADDR) cs k)
      else
        case kmalloc_area (data_in_length cs + 16) k of (area_in, k) \<Rightarrow>
        case kmalloc_area (data_out_length cs + 16) k of (area_out, k) \<Rightarrow>
        let enc_dec = (if cmd = SCC_TEST_ENCRYPT then SCC_ENCRYPT env else SCC_DECRYPT env) in
        case (area_in, area_out) of
          (Some ain, Some aout) \<Rightarrow> do {
            (return_code, error_code, cs, k) \<leftarrow> scc_test_cipher_run env enc_dec cs ain aout k;
            Some (scc_test_cipher_finish env scc_data True True return_code error_code cs k)
          }
        | _ \<Rightarrow> Some (scc_test_cipher_finish env scc_data (area_in \<noteq> None) (area_out \<noteq> None) (-1)
                 (- IOCTL_SCC_NO_MEMORY) cs k))"

definition scc_test_zeroize :: "('c, 'w) scc_env \<Rightarrow> u32 \<Rightarrow> 'w kern \<Rightarrow> int \<times> 'w kern" where
  "scc_test_zeroize env scc_data k =
     (case on_kworld (scc_zeroize_memories env) k of (return_code, k) \<Rightarrow>
      case copy_to_user (u_return env) scc_data return_code k of (n, k) \<Rightarrow> (c_int n, k))"


subsection \<open>Key slots\<close>

definition scc_test_alloc_slot :: "('c, 'w) scc_env \<Rightarrow> u32 \<Rightarrow> 'w kern \<Rightarrow> int \<times> 'w kern" where
  "scc_test_alloc_slot env = exchange (u_alloc_slot env) (\<lambda>acc k.
     case on_kworld (scc_alloc_slot env (al_value_size_bytes acc) (al_owner_id acc) (al_slot acc)) k of
       ((status, slot), k) \<Rightarrow> (acc\<lparr>al_slot := slot, al_scc_status := status\<rparr>, k))"

definition scc_test_dealloc_slot :: "('c, 'w) scc_env \<Rightarrow> u32 \<Rightarrow> 'w kern \<Rightarrow> int \<times> 'w kern" where
  "scc_test_dealloc_slot env = exchange (u_dealloc_slot env) (\<lambda>acc k.
     case on_kworld (scc_dealloc_slot env (de_owner_id acc) (de_slot acc)) k of
       (status, k) \<Rightarrow> (acc\<lparr>de_scc_status := status\<rparr>, k))"

text \<open>
  The status of the inner copy decides only whether the key is loaded: the copy of the structure back
  to user space replaces it. The area for the key is not freed. The sizes \<open>scc_get_slot_info\<close> stores
  in local variables are not used.
\<close>

definition scc_test_load_slot :: "('c, 'w) scc_env \<Rightarrow> u32 \<Rightarrow> 'w kern \<Rightarrow> int \<times> 'w kern" where
  "scc_test_load_slot env = exchange (u_load_slot env) (\<lambda>acc k.
     case on_kworld (scc_get_slot_info env (ld_owner_id acc) (ld_slot acc) (0, 0, Some 0)) k of
       ((scc_status, _), k) \<Rightarrow>
         let acc = acc\<lparr>ld_scc_status := scc_status\<rparr> in
         if scc_status = SCC_RET_OK env
         then case kmalloc_area (ld_key_data_length acc) k of
             (None, k) \<Rightarrow> (acc\<lparr>ld_scc_status := SCC_RET_INSUFFICIENT_SPACE env\<rparr>, k)
           | (Some _, k) \<Rightarrow>
               case copy_bytes_from_user (u_bytes env) (ld_key_data acc) (unat (ld_key_data_length acc)) k of
                 (n, key_data) \<Rightarrow>
                   if c_int n = 0
                   then case (if ld_key_is_red acc \<noteq> 0
                              then on_kworld (scc_load_slot env (ld_owner_id acc) (ld_slot acc) key_data (ld_key_data_length acc)) k
                              else on_kworld (scc_decrypt_slot env (ld_owner_id acc) (ld_slot acc) (ld_key_data_length acc) key_data) k) of
                          (scc_status, k) \<Rightarrow> (acc\<lparr>ld_scc_status := scc_status\<rparr>, k)
                   else (acc, k)
         else (acc, k))"

definition scc_test_encrypt_slot :: "('c, 'w) scc_env \<Rightarrow> u32 \<Rightarrow> 'w kern \<Rightarrow> (int \<times> 'w kern) option" where
  "scc_test_encrypt_slot env scc_data k =
     (case copy_from_user (u_encrypt_slot env) scc_data k of (n, acc) \<Rightarrow>
      if c_int n \<noteq> 0 then Some (c_int n, k)
      else case on_kworld (scc_get_slot_info env (en_owner_id acc) (en_slot acc) (0, 0, None)) k of
        ((scc_status, _), k) \<Rightarrow> do {
          (status, acc, k) \<leftarrow>
            (if scc_status = SCC_RET_OK env
             then case kmalloc_area (en_key_data_length acc) k of
                 (None, k) \<Rightarrow> Some (0, acc\<lparr>en_scc_status := SCC_RET_INSUFFICIENT_SPACE env\<rparr>, k)
               | (Some key_data, k) \<Rightarrow>
                   case on_kworld (scc_encrypt_slot env (en_owner_id acc) (en_slot acc) (en_key_data_length acc)) k of
                     ((scc_status, black), k) \<Rightarrow> do {
                       key_data \<leftarrow> write_area 0 black key_data;
                       let acc = acc\<lparr>en_scc_status := scc_status\<rparr>;
                       if scc_status = SCC_RET_OK env
                       then (case copy_bytes_to_user (u_bytes env) (en_key_data acc) key_data k of
                               (n, k) \<Rightarrow> Some (c_int n, acc, k))
                       else Some (0, acc, k)
                     }
             else Some (0, acc\<lparr>en_scc_status := scc_status\<rparr>, k));
          if status = 0
          then (case copy_to_user (u_encrypt_slot env) scc_data acc k of (n, k) \<Rightarrow> Some (c_int n, k))
          else Some (status, k)
        })"

definition scc_test_get_slot_info :: "('c, 'w) scc_env \<Rightarrow> u32 \<Rightarrow> 'w kern \<Rightarrow> int \<times> 'w kern" where
  "scc_test_get_slot_info env = exchange (u_slot_info env) (\<lambda>acc k.
     case on_kworld (scc_get_slot_info env (gi_owner_id acc) (gi_slot acc)
            (gi_address acc, gi_value_size_bytes acc, Some (gi_slot_size_bytes acc))) k of
       ((status, address, value_size, slot_size), k) \<Rightarrow>
         (acc\<lparr>gi_address := address, gi_value_size_bytes := value_size,
              gi_slot_size_bytes := (case slot_size of Some n \<Rightarrow> n | None \<Rightarrow> gi_slot_size_bytes acc),
              gi_scc_status := status\<rparr>, k))"


subsection \<open>Dispatch\<close>

definition scc_test_ioctl :: "('c, 'w) scc_env \<Rightarrow> u32 \<Rightarrow> u32 \<Rightarrow> 'w kern \<Rightarrow> (int \<times> 'w kern) option" where
  "scc_test_ioctl env cmd scc_data k =
     (if cmd = SCC_TEST_GET_CONFIGURATION then Some (scc_test_get_configuration env scc_data k)
      else if cmd = SCC_TEST_READ_REG then Some (scc_test_read_register env scc_data k)
      else if cmd = SCC_TEST_WRITE_REG then Some (scc_test_write_register env scc_data k)
      else if cmd = SCC_TEST_ENCRYPT \<or> cmd = SCC_TEST_DECRYPT then scc_test_cipher env cmd scc_data k
      else if cmd = SCC_TEST_ALLOC_SLOT then Some (scc_test_alloc_slot env scc_data k)
      else if cmd = SCC_TEST_DEALLOC_SLOT then Some (scc_test_dealloc_slot env scc_data k)
      else if cmd = SCC_TEST_LOAD_SLOT then Some (scc_test_load_slot env scc_data k)
      else if cmd = SCC_TEST_ENCRYPT_SLOT then scc_test_encrypt_slot env scc_data k
      else if cmd = SCC_TEST_GET_SLOT_INFO then Some (scc_test_get_slot_info env scc_data k)
      else if cmd = SCC_TEST_SET_ALARM
        then (case on_kworld (scc_set_sw_alarm env) k of (_, k) \<Rightarrow> Some (OS_ERROR_OK_S (scc_os env), k))
      else if cmd = SCC_TEST_ZEROIZE then Some (scc_test_zeroize env scc_data k)
      else Some (- IOCTL_SCC_INVALID_CMD, k))"


section \<open>Registers\<close>

text \<open>The two handlers are a register port.\<close>

definition scc_reg_update :: "u32 \<Rightarrow> int \<Rightarrow> scc_reg_access \<Rightarrow> scc_reg_access" where
  "scc_reg_update v r x = x\<lparr>reg_data := v, reg_return_code := r\<rparr>"

interpretation scc_port: reg_port "scc_test_read_register env" "scc_test_write_register env" "u_reg env"
    reg_offset reg_data scc_reg_update "SCC_RET_OK env" "scc_read_register env" "scc_write_register env"
  for env :: "('c, 'w) scc_env"
  by unfold_locales
    (auto simp: scc_test_read_register_def scc_test_write_register_def scc_reg_update_def copy_from_user_def
      copy_to_user_def on_kworld_def IOCTL_SCC_OK_def)

text \<open>A register that is written through one request is read back through another: both requests
  return 0 and the second one's structure holds the value written. (The chip accepts the offset, keeps
  what is written, and user memory can be accessed.)\<close>

theorem scc_register_roundtrip:
  assumes "uaccess_total (u_reg env)"
    and "register_chip (u_reg env) (SCC_RET_OK env) (scc_read_register env) (scc_write_register env) reg_value o'"
    and "reg_offset (snd (from_user (u_reg env) a (kworld k))) = o'"
    and "reg_offset (snd (from_user (u_reg env) b (kworld (snd (scc_test_write_register env a k))))) = o'"
  shows "\<exists>k1 k2. scc_test_ioctl env SCC_TEST_WRITE_REG a k = Some (0, k1)
    \<and> scc_test_ioctl env SCC_TEST_READ_REG b k1 = Some (0, k2)
    \<and> reg_data (snd (from_user (u_reg env) b (kworld k2))) = reg_data (snd (from_user (u_reg env) a (kworld k)))"
  using scc_port.write_read [OF assms] by (simp add: scc_test_ioctl_def scc_cmd_values)

section \<open>Commands\<close>

definition scc_commands :: "u32 list" where
  "scc_commands = [SCC_TEST_GET_CONFIGURATION, SCC_TEST_READ_REG, SCC_TEST_WRITE_REG, SCC_TEST_ENCRYPT,
     SCC_TEST_DECRYPT, SCC_TEST_SET_ALARM, SCC_TEST_ZEROIZE, SCC_TEST_ALLOC_SLOT, SCC_TEST_DEALLOC_SLOT,
     SCC_TEST_LOAD_SLOT, SCC_TEST_GET_SLOT_INFO, SCC_TEST_ENCRYPT_SLOT]"

text \<open>The twelve command numbers are different, so each reaches the handler of its own case, and any
  other number is answered with \<open>-ENOTTY\<close> and changes nothing.\<close>

theorem scc_ioctl_commands:
  "distinct scc_commands \<and> (cmd \<in> set scc_commands \<or> scc_test_ioctl env cmd a k = Some (- ENOTTY, k))"
proof
  show "distinct scc_commands" by (simp add: scc_commands_def scc_cmd_values)
  show "cmd \<in> set scc_commands \<or> scc_test_ioctl env cmd a k = Some (- ENOTTY, k)"
    by (cases "cmd \<in> set scc_commands") (simp_all add: scc_commands_def scc_test_ioctl_def IOCTL_SCC_INVALID_CMD_def)
qed


section \<open>The cipher handler\<close>

text \<open>What the SCC driver documents of \<open>scc_crypt\<close>: it stores at most as many bytes as the output has room
  for, and reports a length within that room when it succeeds.\<close>

definition crypt_ok :: "('c, 'w) scc_env \<Rightarrow> bool" where
  "crypt_ok env \<longleftrightarrow> (\<forall>len plain iv d m c cap w rc out olen w'.
     scc_crypt env len plain iv d m c cap w = ((rc, out, olen), w')
       \<longrightarrow> length out \<le> unat cap \<and> (rc = SCC_RET_OK env \<longrightarrow> olen \<le> cap))"

lemma crypt_okD:
  assumes "crypt_ok env" and "scc_crypt env len plain iv d m c cap w = ((rc, out, olen), w')"
  shows "length out \<le> unat cap" "rc = SCC_RET_OK env \<Longrightarrow> unat olen \<le> unat cap"
  using assms unfolding crypt_ok_def word_le_nat_alt by blast+

lemma area_room:
  assumes "len \<le> 0xFFFFFFEF"
  shows "unat (len + 16 :: u32) = unat len + 16"
proof -
  have "unat len \<le> 4294967279" using assms by (simp add: word_le_nat_alt)
  then show ?thesis by (simp add: unat_word_ariths)
qed

lemma area_in_room:
  assumes "p < 0x80000000" and "len \<le> 0xFFFFFFEF" and "n \<le> unat len" and "length area = unat (len + 16 :: u32)"
  shows "0 \<le> c_rem8 p" "nat (c_rem8 p) + n \<le> length area"
  using assms(3,4) c_rem8_bounds [OF assms(1)] area_room [OF assms(2)] by linarith+

lemma write_area_room:
  assumes "p < 0x80000000" and "len \<le> 0xFFFFFFEF" and "length bs \<le> unat len" and "length area = unat (len + 16 :: u32)"
  shows "\<exists>area'. write_area (c_rem8 p) bs area = Some area' \<and> length area' = length area"
proof -
  have "write_area (c_rem8 p) bs area
      = Some (take (nat (c_rem8 p)) area @ bs @ drop (nat (c_rem8 p) + length bs) area)"
    using area_in_room [OF assms] by (simp add: write_area_def)
  with length_write_area [OF this] show ?thesis by blast
qed

lemma read_area_room:
  assumes "p < 0x80000000" and "len \<le> 0xFFFFFFEF" and "n \<le> unat len" and "length area = unat (len + 16 :: u32)"
  shows "\<exists>bs. read_area (c_rem8 p) n area = Some bs"
  using area_in_room [OF assms] by (simp add: read_area_def)

definition cipher_in_range :: "scc_encrypt_decrypt \<Rightarrow> bool" where
  "cipher_in_range cs \<longleftrightarrow> data_in cs < 0x80000000 \<and> data_out cs < 0x80000000
     \<and> data_in_length cs \<le> 0xFFFFFFEF \<and> data_out_length cs \<le> 0xFFFFFFEF"

lemma cipher_run_safe:
  assumes "crypt_ok env" and "cipher_in_range cs"
    and "length ain = unat (data_in_length cs + 16)" and "length aout = unat (data_out_length cs + 16)"
  shows "\<exists>rc ec cs' k'. scc_test_cipher_run env d cs ain aout k = Some (rc, ec, cs', k') \<and> klive k' = klive k
    \<and> ec \<in> {0, - ENOMEM, ENOMEM}"
proof -
  have r: "data_in cs < 0x80000000" "data_out cs < 0x80000000" "data_in_length cs \<le> 0xFFFFFFEF"
    "data_out_length cs \<le> 0xFFFFFFEF" using assms(2) by (simp_all add: cipher_in_range_def)
  obtain n bytes where cfu: "copy_bytes_from_user (u_bytes env) (data_in cs) (unat (data_in_length cs)) k = (n, bytes)"
    by force
  obtain ain' where ain': "write_area (c_rem8 (data_in cs)) bytes ain = Some ain'" "length ain' = length ain"
    using write_area_room [OF r(1,3) eq_refl [OF length_copy_bytes [OF cfu]] assms(3)] by blast
  obtain plain where plain: "read_area (c_rem8 (data_in cs)) (unat (data_in_length cs)) ain' = Some plain"
    using read_area_room [OF r(1,3) order_refl, of ain'] ain'(2) assms(3) by auto
  obtain rc out olen w where crypt: "scc_crypt env (data_in_length cs) plain
      (if crypto_mode cs = SCC_CBC_MODE env then Some (init_vector cs) else None)
      d (crypto_mode cs) (check_mode cs) (data_out_length cs) (kworld k) = ((rc, out, olen), w)"
    by (metis prod.collapse)
  note out = crypt_okD [OF assms(1) crypt]
  obtain aout' where aout': "write_area (c_rem8 (data_out cs)) out aout = Some aout'" "length aout' = length aout"
    using write_area_room [OF r(2,4) out(1) assms(4)] by blast
  have res: "\<exists>bs. read_area (c_rem8 (data_out cs)) (unat olen) aout' = Some bs" if "rc = SCC_RET_OK env"
    using read_area_room [OF r(2,4) out(2) [OF that]] aout'(2) assms(4) by simp
  consider "n \<noteq> 0" | "n = 0" "rc \<noteq> SCC_RET_OK env" | "n = 0" "rc = SCC_RET_OK env" by blast
  then show ?thesis
  proof cases
    case 1
    then show ?thesis using cfu ain'(1) by (simp add: scc_test_cipher_run_def scc_codes Let_def)
  next
    case 2
    then show ?thesis using cfu ain'(1) plain crypt aout'(1)
      by (simp add: scc_test_cipher_run_def on_kworld_def scc_codes)
  next
    case 3
    with res obtain bs where bs: "read_area (c_rem8 (data_out cs)) (unat olen) aout' = Some bs" by blast
    obtain m k2 where m: "copy_bytes_to_user (u_bytes env) (data_out cs) bs (k\<lparr>kworld := w\<rparr>) = (m, k2)" by force
    show ?thesis
      using 3 cfu ain'(1) plain crypt aout'(1) bs m copy_bytes_to_user_accounts(1) [OF m]
      by (simp add: scc_test_cipher_run_def on_kworld_def IOCTL_SCC_OK_def)
  qed
qed

lemma cipher_finish_klive:
  assumes "scc_test_cipher_finish env a i o' rc ec cs k = (r, k')"
  shows "klive k' = klive k - (if i then 1 else 0) - (if o' then 1 else 0) \<and> (r = ec \<or> r = ESPIPE)"
  using assms copy_to_user_accounts(1)
  by (fastforce simp: scc_test_cipher_finish_def kfree_def scc_codes Let_def split: prod.splits if_splits)

text \<open>C4: The cipher handler stays inside the areas it allocates and frees them on every path, whatever the
  copies, the allocator and the SCC driver answer, when the user's addresses are below \<open>0x80000000\<close> and
  the lengths leave room for the 16 spare bytes; it returns one of five codes.\<close>

theorem scc_cipher_safe:
  assumes "crypt_ok env" and "copy_from_user (u_cipher env) a k = (n, cs)" and "cipher_in_range cs"
  shows "\<exists>r k'. scc_test_cipher env cmd a k = Some (r, k') \<and> klive k' = klive k
    \<and> r \<in> {0, - EFAULT, - ENOMEM, ENOMEM, ESPIPE}"
proof -
  obtain ain k1 where ain: "kmalloc_area (data_in_length cs + 16) k = (ain, k1)" by force
  obtain aout k2 where aout: "kmalloc_area (data_out_length cs + 16) k1 = (aout, k2)" by force
  have live: "klive k1 = klive k + (if ain \<noteq> None then 1 else 0)" "klive k2 = klive k1 + (if aout \<noteq> None then 1 else 0)"
    using ain aout by (auto simp: kmalloc_area_def kmalloc_def split: if_splits)
  have len: "ain = Some x \<Longrightarrow> length x = unat (data_in_length cs + 16)"
    "aout = Some x \<Longrightarrow> length x = unat (data_out_length cs + 16)" for x
    using ain aout by (auto simp: kmalloc_area_def split: prod.splits if_splits)
  let ?d = "if cmd = SCC_TEST_ENCRYPT then SCC_ENCRYPT env else SCC_DECRYPT env"
  consider "n \<noteq> 0" | x y where "n = 0" "ain = Some x" "aout = Some y" | "n = 0" "ain = None \<or> aout = None"
    by (cases ain; cases aout) auto
  then show ?thesis
  proof cases
    case 1
    obtain r k' where fin: "scc_test_cipher_finish env a False False (-1) (- IOCTL_SCC_IMPROPER_ADDR) cs k = (r, k')" by force
    with 1 show ?thesis using assms(2) cipher_finish_klive [OF fin] by (auto simp: scc_test_cipher_def scc_codes)
  next
    case 2
    obtain rc ec cs' k3 where run: "scc_test_cipher_run env ?d cs x y k2 = Some (rc, ec, cs', k3)" "klive k3 = klive k2"
      "ec \<in> {0, - ENOMEM, ENOMEM}"
      using cipher_run_safe [OF assms(1,3) len(1) [OF 2(2)] len(2) [OF 2(3)], of ?d k2] by blast
    obtain r k' where fin: "scc_test_cipher_finish env a True True rc ec cs' k3 = (r, k')" by force
    show ?thesis using assms(2) 2 ain aout run fin live cipher_finish_klive [OF fin]
      by (auto simp: scc_test_cipher_def Let_def)
  next
    case 3
    obtain r k' where fin: "scc_test_cipher_finish env a (ain \<noteq> None) (aout \<noteq> None) (-1) (- IOCTL_SCC_NO_MEMORY) cs k2 = (r, k')"
      by force
    with 3 show ?thesis using assms(2) ain aout live cipher_finish_klive [OF fin]
      by (auto simp: scc_test_cipher_def scc_codes split: option.splits)
  qed
qed


text \<open>C3: What a successful cipher request delivers: exactly the bytes the SCC driver makes of the user's
  bytes, with the initialisation vector only in CBC mode and the direction of the command, stored at the
  user's output address, and then the structure with the length and the driver's code; it returns 0.\<close>

theorem scc_cipher_delivers:
  assumes "from_user (u_cipher env) a (kworld k) = (0, cs)" and "cipher_in_range cs"
    and "\<not> k_alloc_fails k (calls k)" and "\<not> k_alloc_fails k (Suc (calls k))"
    and "bytes_from_user (u_bytes env) (data_in cs) (unat (data_in_length cs)) (kworld k) = (0, f)"
    and "scc_crypt env (data_in_length cs) (map f [0..<unat (data_in_length cs)])
      (if crypto_mode cs = SCC_CBC_MODE env then Some (init_vector cs) else None)
      (if cmd = SCC_TEST_ENCRYPT then SCC_ENCRYPT env else SCC_DECRYPT env)
      (crypto_mode cs) (check_mode cs) (data_out_length cs) (kworld k) = ((SCC_RET_OK env, out, olen), w1)"
    and "length out = unat olen" and "olen \<le> data_out_length cs" and "SCC_RET_OK env = 0"
    and "bytes_to_user (u_bytes env) (data_out cs) out w1 = (0, w2)"
    and "to_user (u_cipher env) a (cs\<lparr>data_out_length := olen, function_return_code := 0\<rparr>) w2 = (0, w3)"
  shows "\<exists>k'. scc_test_cipher env cmd a k = Some (0, k') \<and> kworld k' = w3"
proof -
  have r: "data_in cs < 0x80000000" "data_out cs < 0x80000000" "data_in_length cs \<le> 0xFFFFFFEF"
    "data_out_length cs \<le> 0xFFFFFFEF" using assms(2) by (simp_all add: cipher_in_range_def)
  let ?n = "unat (data_in_length cs)" and ?plain = "map f [0..<unat (data_in_length cs)]"
  let ?ain = "fresh_area (data_in_length cs + 16) k" and ?k2 = "k\<lparr>calls := Suc (Suc (calls k)), klive := klive k + 2\<rparr>"
  obtain aout where aout: "kmalloc_area (data_out_length cs + 16) (k\<lparr>calls := Suc (calls k), klive := klive k + 1\<rparr>)
      = (Some aout, ?k2)" "length aout = unat (data_out_length cs + 16)"
    using assms(4) by (auto simp: kmalloc_area_def kmalloc_def)
  obtain ain' where ain': "write_area (c_rem8 (data_in cs)) ?plain ?ain = Some ain'"
    using write_area_room [OF r(1,3), of ?plain ?ain] by auto
  have plain: "read_area (c_rem8 (data_in cs)) ?n ain' = Some ?plain"
    using read_write_area [OF ain', of ?n] by simp
  have "length out \<le> unat (data_out_length cs)" using assms(7,8) by (simp add: word_le_nat_alt)
  then obtain aout' where aout': "write_area (c_rem8 (data_out cs)) out aout = Some aout'"
    using write_area_room [OF r(2,4) _ aout(2)] by blast
  have out: "read_area (c_rem8 (data_out cs)) (unat olen) aout' = Some out"
    using read_write_area [OF aout', of "unat olen"] assms(7) by simp
  have "scc_test_cipher_run env (if cmd = SCC_TEST_ENCRYPT then SCC_ENCRYPT env else SCC_DECRYPT env) cs ?ain aout ?k2
      = Some (0, 0, cs\<lparr>data_out_length := olen\<rparr>, ?k2\<lparr>kworld := w2\<rparr>)"
    using assms(5,6,9,10) ain' plain aout' out
    by (simp add: scc_test_cipher_run_def copy_bytes_from_user_def copy_bytes_to_user_def on_kworld_def IOCTL_SCC_OK_def)
  then show ?thesis
    using assms(1,3,11) aout(1)
    by (simp add: scc_test_cipher_def copy_from_user_def kmalloc_area_def [of "data_in_length cs + 16"] kmalloc_def
        scc_test_cipher_finish_def copy_to_user_def kfree_def Let_def)
qed

text \<open>Outside of that range the handler leaves its area. When the input address is at or above
  \<open>0x80000000\<close> and not a multiple of 8, the C remainder is negative and the copy starts in front of the
  area; when the length is within 16 of \<open>2\<^sup>3\<^sup>2\<close>, the size of the area wraps around to less than the length.\<close>

theorem scc_cipher_out_of_bounds:
  assumes "from_user (u_cipher env) a (kworld k) = (0, cs)"
    and "\<not> k_alloc_fails k (calls k)" and "\<not> k_alloc_fails k (Suc (calls k))"
    and "(0x80000000 \<le> data_in cs \<and> uint (data_in cs) mod 8 \<noteq> 0) \<or> 0xFFFFFFF0 \<le> data_in_length cs"
  shows "scc_test_cipher env cmd a k = None"
proof -
  obtain n f where cfu: "bytes_from_user (u_bytes env) (data_in cs) (unat (data_in_length cs)) (kworld k) = (n, f)"
    by force
  let ?bytes = "map f [0..<unat (data_in_length cs)]"
  have "write_area (c_rem8 (data_in cs)) ?bytes (fresh_area (data_in_length cs + 16) k) = None"
    using assms(4)
  proof
    assume "0x80000000 \<le> data_in cs \<and> uint (data_in cs) mod 8 \<noteq> 0"
    then show ?thesis using c_rem8_negative [of "data_in cs"] by (simp add: write_area_def)
  next
    assume "0xFFFFFFF0 \<le> data_in_length cs"
    then have "4294967280 \<le> unat (data_in_length cs)" by (simp add: word_le_nat_alt)
    moreover have "unat (data_in_length cs) < 4294967296" using unsigned_less [of "data_in_length cs"] by simp
    ultimately have "unat (data_in_length cs + 16) < unat (data_in_length cs)"
      by (simp add: unat_word_ariths mod_if)
    then show ?thesis by (simp add: write_area_def)
  qed
  then show ?thesis using assms(1-3) cfu
    by (simp add: scc_test_cipher_def copy_from_user_def copy_bytes_from_user_def kmalloc_area_def kmalloc_def scc_test_cipher_run_def Let_def)
qed

section \<open>Key slots and memory\<close>

lemma on_kworld_klive: "klive (snd (on_kworld f k)) = klive k"
  by (simp add: on_kworld_def split: prod.splits)

lemma cipher_run_klive:
  assumes "scc_test_cipher_run env d cs ain aout k = Some (rc, ec, cs', k')"
  shows "klive k' = klive k"
  using assms
  by (auto simp: scc_test_cipher_run_def on_kworld_def copy_bytes_to_user_def Let_def
      split: prod.splits if_splits bind_splits)

lemma kmalloc_area_klive:
  "kmalloc_area sz k = (area, k') \<Longrightarrow> klive k' = klive k + (if area = None then 0 else 1)"
  by (auto simp: kmalloc_area_def kmalloc_def split: if_splits)

lemma scc_cipher_klive:
  assumes "scc_test_cipher env cmd a k = Some (r, k')"
  shows "klive k' = klive k"
  using assms
  by (auto simp: scc_test_cipher_def split: prod.splits if_splits option.splits bind_splits
      dest!: kmalloc_area_klive cipher_run_klive cipher_finish_klive)

lemma scc_exchanges_klive:
  "klive (snd (scc_test_alloc_slot env a k)) = klive k"
  "klive (snd (scc_test_dealloc_slot env a k)) = klive k"
  "klive (snd (scc_test_get_slot_info env a k)) = klive k"
  "klive (snd (scc_test_get_configuration env a k)) = klive k"
  "klive (snd (scc_test_read_register env a k)) = klive k"
  "klive (snd (scc_test_write_register env a k)) = klive k"
  "klive (snd (scc_test_zeroize env a k)) = klive k"
  by (auto simp: scc_test_alloc_slot_def scc_test_dealloc_slot_def scc_test_get_slot_info_def
      scc_test_get_configuration_def scc_test_read_register_def scc_test_write_register_def scc_test_zeroize_def
      exchange_def on_kworld_def copy_to_user_def split: prod.splits)

lemma scc_load_slot_klive:
  "klive (snd (scc_test_load_slot env a k)) \<in> {klive k, klive k + 1}"
  by (auto simp: scc_test_load_slot_def exchange_def on_kworld_def copy_to_user_def kmalloc_area_def kmalloc_def Let_def
      split: prod.splits option.splits)

lemma scc_encrypt_slot_klive:
  "scc_test_encrypt_slot env a k = Some (r, k') \<Longrightarrow> klive k' \<in> {klive k, klive k + 1}"
  by (auto simp: scc_test_encrypt_slot_def on_kworld_def copy_to_user_def copy_bytes_to_user_def kmalloc_area_def kmalloc_def Let_def
      split: prod.splits option.splits if_splits bind_splits)

text \<open>Which requests keep the kernel's memory balanced. Every request other than loading or encrypting a
  slot frees what it allocates, on every path; those two can lose one allocation each. Only the requests
  that handle areas of kernel memory by offset can leave them.\<close>

theorem scc_ioctl_accounts:
  "case scc_test_ioctl env cmd a k of
      None \<Rightarrow> cmd \<in> {SCC_TEST_ENCRYPT, SCC_TEST_DECRYPT, SCC_TEST_ENCRYPT_SLOT}
    | Some (r, k') \<Rightarrow>
        klive k' = klive k \<or> cmd \<in> {SCC_TEST_LOAD_SLOT, SCC_TEST_ENCRYPT_SLOT} \<and> klive k' = klive k + 1"
proof -
  have "klive k' = klive k \<or> cmd \<in> {SCC_TEST_LOAD_SLOT, SCC_TEST_ENCRYPT_SLOT} \<and> klive k' = klive k + 1"
    if "scc_test_ioctl env cmd a k = Some (r, k')" for r k'
    using that scc_exchanges_klive [of env a k] scc_cipher_klive [of env cmd a k r k'] scc_load_slot_klive [of env a k]
      scc_encrypt_slot_klive [of env a k r k'] on_kworld_klive [of "scc_set_sw_alarm env" k]
    by (auto simp: scc_test_ioctl_def split: if_splits prod.splits)
  moreover have "cmd \<in> {SCC_TEST_ENCRYPT, SCC_TEST_DECRYPT, SCC_TEST_ENCRYPT_SLOT}" if "scc_test_ioctl env cmd a k = None"
    using that by (auto simp: scc_test_ioctl_def split: if_splits prod.splits)
  ultimately show ?thesis by (auto split: option.split)
qed

text \<open>A request to load a slot loses the area for the key whenever the slot exists and the area could be
  allocated; and when the key then cannot be read from user memory, the request still returns 0 and
  reports the success of the slot query.\<close>

theorem scc_load_slot_silent:
  assumes "from_user (u_load_slot env) a (kworld k) = (0, acc)"
    and "scc_get_slot_info env (ld_owner_id acc) (ld_slot acc) (0, 0, Some 0) (kworld k) = ((SCC_RET_OK env, info), w1)"
    and "\<not> k_alloc_fails k (calls k)"
  shows "klive (snd (scc_test_load_slot env a k)) = klive k + 1
    \<and> (bytes_from_user (u_bytes env) (ld_key_data acc) (unat (ld_key_data_length acc)) w1 = (n, f)
        \<and> c_int n \<noteq> 0 \<and> to_user (u_load_slot env) a (acc\<lparr>ld_scc_status := SCC_RET_OK env\<rparr>) w1 = (0, w2)
       \<longrightarrow> (\<exists>k'. scc_test_load_slot env a k = (0, k') \<and> kworld k' = w2))"
  using assms
  by (auto simp: scc_test_load_slot_def exchange_def copy_from_user_def copy_bytes_from_user_def on_kworld_def copy_to_user_def
      kmalloc_area_def kmalloc_def Let_def split: prod.splits if_splits)


section \<open>Slots as the user sees them\<close>

lemma exchange_report:
  assumes "uaccess_total ua" and "call (snd (from_user ua data (kworld k))) k = (acc, k\<lparr>kworld := w\<rparr>)"
  shows "\<exists>acc' w'. to_user ua data acc' w = (0, w') \<and> exchange ua call data k = (0, k\<lparr>kworld := w'\<rparr>)
    \<and> from_user ua data w' = (0, acc') \<and> acc' = acc"
  using exchange_total [of ua call data k acc "k\<lparr>kworld := w\<rparr>", OF assms] by auto

lemma scc_alloc_slot_report:
  assumes "uaccess_total (u_alloc_slot env)" and "snd (from_user (u_alloc_slot env) a (kworld k)) = acc"
    and "scc_alloc_slot env (al_value_size_bytes acc) (al_owner_id acc) (al_slot acc) (kworld k) = ((status, slot), w)"
  shows "\<exists>acc' w'. to_user (u_alloc_slot env) a acc' w = (0, w') \<and> scc_test_alloc_slot env a k = (0, k\<lparr>kworld := w'\<rparr>)
    \<and> from_user (u_alloc_slot env) a w' = (0, acc') \<and> acc' = acc\<lparr>al_slot := slot, al_scc_status := status\<rparr>"
  unfolding scc_test_alloc_slot_def
  by (rule exchange_report [OF assms(1)]) (simp add: assms(2,3) on_kworld_def)

lemma scc_dealloc_slot_report:
  assumes "uaccess_total (u_dealloc_slot env)" and "snd (from_user (u_dealloc_slot env) a (kworld k)) = acc"
    and "scc_dealloc_slot env (de_owner_id acc) (de_slot acc) (kworld k) = (status, w)"
  shows "\<exists>acc' w'. to_user (u_dealloc_slot env) a acc' w = (0, w') \<and> scc_test_dealloc_slot env a k = (0, k\<lparr>kworld := w'\<rparr>)
    \<and> from_user (u_dealloc_slot env) a w' = (0, acc') \<and> acc' = acc\<lparr>de_scc_status := status\<rparr>"
  unfolding scc_test_dealloc_slot_def
  by (rule exchange_report [OF assms(1)]) (simp add: assms(2,3) on_kworld_def)

lemma scc_get_slot_info_report:
  assumes "uaccess_total (u_slot_info env)" and "snd (from_user (u_slot_info env) a (kworld k)) = acc"
    and "scc_get_slot_info env (gi_owner_id acc) (gi_slot acc)
      (gi_address acc, gi_value_size_bytes acc, Some (gi_slot_size_bytes acc)) (kworld k)
      = ((status, address, value_size, Some slot_size), w)"
  shows "\<exists>acc' w'. to_user (u_slot_info env) a acc' w = (0, w') \<and> scc_test_get_slot_info env a k = (0, k\<lparr>kworld := w'\<rparr>)
    \<and> from_user (u_slot_info env) a w' = (0, acc') \<and> acc' = acc\<lparr>gi_address := address, gi_value_size_bytes := value_size,
        gi_slot_size_bytes := slot_size, gi_scc_status := status\<rparr>"
  unfolding scc_test_get_slot_info_def
  by (rule exchange_report [OF assms(1)]) (simp add: assms(2,3) on_kworld_def)

text \<open>What a slot allocator promises: a new slot can be queried by its owner and has the size asked for.\<close>

definition slot_allocator :: "('c, 'w) scc_env \<Rightarrow> bool" where
  "slot_allocator env \<longleftrightarrow> (\<forall>sz owner s0 w slot w'. scc_alloc_slot env sz owner s0 w = ((SCC_RET_OK env, slot), w')
     \<longrightarrow> (\<forall>a x b y out. \<exists>addr smax w''. scc_get_slot_info env owner slot out
            (snd (to_user (u_slot_info env) b y (snd (to_user (u_alloc_slot env) a x w'))))
          = ((SCC_RET_OK env, addr, sz, Some smax), w'')))"


section \<open>Loading the module\<close>

text \<open>What loading the module leaves. On success the major number is the one configured, also when it
  is 0 and one was assigned, which is then not remembered; the entry for \<open>mmap\<close> is the release
  function. On failure the driver unregisters its configured number, whether or not the registration was
  reached.\<close>

theorem scc_init_outcomes:
  assumes "OS_ERROR_OK_S (scc_os env) = 0" and "scc_test_init env (s, k) = (r, s', k')"
  shows "if r = 0
    then scc_test_major_node s' = scc_test_major_node s \<and> chrdevs k' = chrdevs k
      \<and> map_of (reg_handle s') OS_FN_MMAP = Some Scc_test_release \<and> scc_cfg s' \<noteq> None
    else scc_test_major_node s' = 0
      \<and> chrdevs k' = (if scc_test_major_node s = 0 then chrdevs k else remove1 (scc_test_major_node s) (chrdevs k))"
  using assms
  by (auto simp: scc_test_init_def setup_user_driver_interaction_def scc_test_cleanup_def on_kworld_def
      unregister_chrdev_def Let_def split: prod.splits if_splits)


section \<open>A driver to evaluate with\<close>

text \<open>User memory is one map for each structure and one for bytes; the chip has a file of registers and one
  slot, and its cipher flips bits.\<close>

record scc_world =
  m_reg :: "u32 \<Rightarrow> scc_reg_access"
  m_cipher :: "u32 \<Rightarrow> scc_encrypt_decrypt"
  m_alloc :: "u32 \<Rightarrow> scc_alloc_slot_access"
  m_dealloc :: "u32 \<Rightarrow> scc_dealloc_slot_access"
  m_load :: "u32 \<Rightarrow> scc_load_slot_access"
  m_encrypt :: "u32 \<Rightarrow> scc_encrypt_slot_access"
  m_info :: "u32 \<Rightarrow> scc_get_slot_info_access"
  m_word :: "u32 \<Rightarrow> int"
  m_bytes :: "u32 \<Rightarrow> u8"
  chip_regs :: "u32 \<Rightarrow> u32"
  chip_slot :: u32

definition demo_scc_env :: "(int, scc_world) scc_env" where
  "demo_scc_env = \<lparr>scc_os = \<lparr>OS_ERROR_OK_S = 0, OS_ERROR_FAIL_S = -1, OS_ERROR_NO_MEMORY_S = -12, OS_ERROR_BAD_ADDRESS_S = -14,
       os_copy_code = (\<lambda>n. if n = 0 then 0 else -14),
       os_driver_complete_registration = (\<lambda>_ _ w. (0, w)), os_driver_remove_registration = (\<lambda>_ w. (0, w))\<rparr>,
     u_config = map_access m_word m_word_update, u_reg = map_access m_reg m_reg_update,
     u_cipher = map_access m_cipher m_cipher_update, u_return = map_access m_word m_word_update,
     u_alloc_slot = map_access m_alloc m_alloc_update, u_dealloc_slot = map_access m_dealloc m_dealloc_update,
     u_load_slot = map_access m_load m_load_update, u_encrypt_slot = map_access m_encrypt m_encrypt_update,
     u_slot_info = map_access m_info m_info_update, u_bytes = byte_access m_bytes m_bytes_update,
     SCC_RET_OK = 0, SCC_RET_INSUFFICIENT_SPACE = 11, SCC_CBC_MODE = 1, SCC_ENCRYPT = 0, SCC_DECRYPT = 1,
     SMN_STATUS = 0, SCC_BASE_ADDR = 0x53FAC000, VM_IO = 0x4000, try_module_get = (\<lambda>_. True),
     scc_get_configuration = (\<lambda>w. (1, w)),
     scc_read_register = (\<lambda>p _ w. ((0, chip_regs w p), w)),
     scc_write_register = (\<lambda>p v w. (0, w\<lparr>chip_regs := (chip_regs w)(p := v)\<rparr>)),
     scc_crypt = (\<lambda>len bs _ _ _ _ cap w. ((0, map (\<lambda>b. b XOR 0x5A) (take (unat cap) bs), if len \<le> cap then len else cap), w)),
     scc_set_sw_alarm = (\<lambda>w. ((), w)), scc_monitor_security_failure = (\<lambda>w. (0, w)), scc_zeroize_memories = (\<lambda>w. (0, w)),
     scc_alloc_slot = (\<lambda>sz _ _ w. ((0, 0), w\<lparr>chip_slot := sz\<rparr>)),
     scc_dealloc_slot = (\<lambda>_ _ w. (0, w)), scc_load_slot = (\<lambda>_ _ _ _ w. (0, w)), scc_decrypt_slot = (\<lambda>_ _ _ _ w. (0, w)),
     scc_encrypt_slot = (\<lambda>_ _ n w. ((0, replicate (unat n) 1), w)),
     scc_get_slot_info = (\<lambda>_ _ _ w. ((0, 0x400, chip_slot w, Some 32), w)),
     scc_remap_pfn_range = (\<lambda>_ _ _ w. (0, w))\<rparr>"

definition demo_cipher :: scc_encrypt_decrypt where
  "demo_cipher = \<lparr>data_in = 0x10003, data_in_length = 4, data_out = 0x20005, data_out_length = 8, crypto_mode = 0,
     check_mode = 0, init_vector = (0, 0), wait_mode = SCC_ENCRYPT_SLEEP, function_return_code = 0, verify_mode = 0\<rparr>"

definition demo_scc_world :: scc_world where
  "demo_scc_world = \<lparr>m_reg = (\<lambda>a. \<lparr>reg_offset = 8, reg_data = a, reg_return_code = 0\<rparr>), m_cipher = (\<lambda>_. demo_cipher),
     m_alloc = (\<lambda>_. \<lparr>al_value_size_bytes = 16, al_slot = 9, al_owner_id = 5, al_scc_status = 0\<rparr>),
     m_dealloc = (\<lambda>_. \<lparr>de_slot = 0, de_scc_status = 0, de_owner_id = 5\<rparr>),
     m_load = (\<lambda>_. \<lparr>ld_slot = 0, ld_key_is_red = 1, ld_owner_id = 5, ld_key_data = 0x3000, ld_key_data_length = 16, ld_scc_status = 7\<rparr>),
     m_encrypt = (\<lambda>_. \<lparr>en_slot = 0, en_key_data = 0x3000, en_owner_id = 5, en_key_data_length = 16, en_scc_status = 7\<rparr>),
     m_info = (\<lambda>_. \<lparr>gi_slot = 0, gi_address = 0, gi_owner_id = 5, gi_value_size_bytes = 0, gi_slot_size_bytes = 0, gi_scc_status = 0\<rparr>),
     m_word = (\<lambda>_. 0), m_bytes = (\<lambda>_. 1), chip_regs = (\<lambda>_. 0), chip_slot = 0\<rparr>"

definition demo_scc_test :: "int scc_test" where
  "demo_scc_test = \<lparr>scc_test_major_node = SCC_TEST_MAJOR_NODE, reg_handle = [], scc_cfg = None, module_refs = 0\<rparr>"

lemmas demo_scc = demo_scc_env_def demo_scc_world_def demo_kern_def map_access_def byte_access_def

lemma demo_uaccess_total:
  "uaccess_total (u_reg demo_scc_env)" "uaccess_total (u_alloc_slot demo_scc_env)" "uaccess_total (u_slot_info demo_scc_env)"
  by (auto simp: uaccess_total_def uaccess_ok_def demo_scc_env_def map_access_def)

theorem scc_register_roundtrip_witness:
  "\<exists>k1 k2. scc_test_ioctl demo_scc_env SCC_TEST_WRITE_REG 100 (demo_kern demo_scc_world) = Some (0, k1)
    \<and> scc_test_ioctl demo_scc_env SCC_TEST_READ_REG 200 k1 = Some (0, k2)
    \<and> reg_data (snd (from_user (u_reg demo_scc_env) 200 (kworld k2)))
        = reg_data (snd (from_user (u_reg demo_scc_env) 100 (kworld (demo_kern demo_scc_world))))"
  by (rule scc_register_roundtrip [where reg_value = "\<lambda>p w. chip_regs w p" and o' = 8, OF demo_uaccess_total(1)])
    (simp_all add: demo_scc register_chip_def scc_test_write_register_def copy_from_user_def copy_to_user_def on_kworld_def)

lemma demo_cipher_in_range: "cipher_in_range demo_cipher"
  by (simp add: cipher_in_range_def demo_cipher_def)

theorem scc_cipher_safe_witness:
  "\<exists>r k'. scc_test_cipher demo_scc_env SCC_TEST_ENCRYPT 0 (demo_kern demo_scc_world) = Some (r, k')
    \<and> klive k' = klive (demo_kern demo_scc_world) \<and> r \<in> {0, - EFAULT, - ENOMEM, ENOMEM, ESPIPE}"
  by (rule scc_cipher_safe [OF _ _ demo_cipher_in_range, where n = 0])
    (auto simp: crypt_ok_def demo_scc_env_def copy_from_user_def map_access_def demo_kern_def demo_scc_world_def)

theorem scc_cipher_delivers_witness:
  "\<exists>k'. scc_test_cipher demo_scc_env SCC_TEST_ENCRYPT 0 (demo_kern demo_scc_world) = Some (0, k')
     \<and> m_bytes (kworld k') 0x20005 = 0x5B \<and> m_bytes (kworld k') 0x20009 = 1"
proof -
  let ?w2 = "demo_scc_world\<lparr>m_bytes := \<lambda>p. if unat (p - 0x20005) < length [0x5B :: u8, 0x5B, 0x5B, 0x5B] then [0x5B, 0x5B, 0x5B, 0x5B] ! unat (p - 0x20005) else 1\<rparr>"
  let ?w3 = "?w2\<lparr>m_cipher := (\<lambda>_. demo_cipher)(0 := demo_cipher\<lparr>data_out_length := 4, function_return_code := 0\<rparr>)\<rparr>"
  have upt4: "[0..<4] = [0, 1, 2, 3 :: nat]" by code_simp
  have "\<exists>k'. scc_test_cipher demo_scc_env SCC_TEST_ENCRYPT 0 (demo_kern demo_scc_world) = Some (0, k') \<and> kworld k' = ?w3"
    by (rule scc_cipher_delivers [OF _ demo_cipher_in_range, where f = "\<lambda>_. 1" and out = "[0x5B, 0x5B, 0x5B, 0x5B]"
          and olen = 4 and ?w1.0 = demo_scc_world and ?w2.0 = ?w2])
      (simp_all add: demo_scc demo_cipher_def upt4)
  then obtain k' where "scc_test_cipher demo_scc_env SCC_TEST_ENCRYPT 0 (demo_kern demo_scc_world) = Some (0, k')"
    "kworld k' = ?w3" by blast
  then show ?thesis by simp
qed

theorem scc_cipher_out_of_bounds_witness:
  "scc_test_cipher demo_scc_env SCC_TEST_ENCRYPT 0
     (demo_kern (demo_scc_world\<lparr>m_cipher := \<lambda>_. demo_cipher\<lparr>data_in := 0xBEFFF123\<rparr>\<rparr>)) = None"
  by (rule scc_cipher_out_of_bounds [where cs = "demo_cipher\<lparr>data_in := 0xBEFFF123\<rparr>"])
    (simp_all add: demo_scc_env_def map_access_def demo_kern_def)

theorem scc_load_slot_silent_witness:
  "\<exists>k'. scc_test_load_slot (demo_scc_env\<lparr>u_bytes := \<lparr>bytes_from_user = \<lambda>_ n _. (n, \<lambda>_. 0), bytes_to_user = \<lambda>_ bs w. (length bs, w)\<rparr>\<rparr>)
     0 (demo_kern demo_scc_world) = (0, k') \<and> ld_scc_status (m_load (kworld k') 0) = 0 \<and> klive k' = 1"
proof -
  let ?env = "demo_scc_env\<lparr>u_bytes := \<lparr>bytes_from_user = \<lambda>_ n _. (n, \<lambda>_. 0), bytes_to_user = \<lambda>_ bs w. (length bs, w)\<rparr>\<rparr>"
  let ?acc = "m_load demo_scc_world 0"
  have c: "c_int 16 \<noteq> 0" by code_simp
  show ?thesis
    using scc_load_slot_silent [where env = ?env and a = 0 and k = "demo_kern demo_scc_world" and acc = ?acc
        and info = "(0x400, 0, Some 32)" and ?w1.0 = demo_scc_world and n = 16 and f = "\<lambda>_. 0"
        and ?w2.0 = "demo_scc_world\<lparr>m_load := (m_load demo_scc_world)(0 := ?acc\<lparr>ld_scc_status := 0\<rparr>)\<rparr>"] c
    by (auto simp: demo_scc)
qed


theorem scc_init_outcomes_witness:
  "\<exists>s' k'. scc_test_init demo_scc_env (demo_scc_test\<lparr>scc_test_major_node := 0\<rparr>, demo_kern demo_scc_world) = (0, s', k')
     \<and> scc_test_major_node s' = 0 \<and> map_of (reg_handle s') OS_FN_MMAP = Some Scc_test_release"
proof -
  obtain s' k' where i: "scc_test_init demo_scc_env (demo_scc_test\<lparr>scc_test_major_node := 0\<rparr>, demo_kern demo_scc_world) = (0, s', k')"
    by (auto simp: scc_test_init_def setup_user_driver_interaction_def demo_scc on_kworld_def)
  have "OS_ERROR_OK_S (scc_os demo_scc_env) = 0" by (simp add: demo_scc_env_def)
  from scc_init_outcomes [OF this i] i show ?thesis by simp
qed

end
