(* ===== verification/Scc2Driver.thy ===== *)
theory Scc2Driver
  imports Kernel
begin

text \<open>
  The SCC2 test driver: \<open>module_test/scc2_test_driver.c\<close> and \<open>include/scc2_test_driver.h\<close>.

  As in the SCC test driver, the driver under test (\<open>linux/mxc_scc2_driver.h\<close>) is a record of functions on
  the world. \<open>SCC2_DEBUG\<close> is not defined; what is only printed is not modelled. The black data lives in a DMA
  region whose content is the list of its bytes; the red data is kernel memory at an address the user
  passes, reached through \<open>kmem_store\<close> and \<open>kmem_load\<close>. Names that the SCC test driver uses too carry a 2.
\<close>

unbundle bit_operations_syntax

section \<open>Interface definitions\<close>

definition IOCTL_SCC2_OK :: int where "IOCTL_SCC2_OK = 0"
definition IOCTL_SCC2_INVALID_CMD :: int where "IOCTL_SCC2_INVALID_CMD = ENOTTY"
definition IOCTL_SCC2_INVALID_MODE :: int where "IOCTL_SCC2_INVALID_MODE = EINVAL"
definition IOCTL_SCC2_SCM_BUSY :: int where "IOCTL_SCC2_SCM_BUSY = EBUSY"
definition IOCTL_SCC2_IMPROPER_STATE :: int where "IOCTL_SCC2_IMPROPER_STATE = EBADFD"
definition IOCTL_SCC2_IMPROPER_ADDR :: int where "IOCTL_SCC2_IMPROPER_ADDR = EFAULT"
definition IOCTL_SCC2_NO_MEMORY :: int where "IOCTL_SCC2_NO_MEMORY = ENOMEM"
definition IOCTL_SCC2_FAILURE :: int where "IOCTL_SCC2_FAILURE = ESPIPE"

lemmas scc2_codes [driver_simps] = IOCTL_SCC2_OK_def IOCTL_SCC2_INVALID_CMD_def IOCTL_SCC2_INVALID_MODE_def
  IOCTL_SCC2_SCM_BUSY_def IOCTL_SCC2_IMPROPER_STATE_def IOCTL_SCC2_IMPROPER_ADDR_def IOCTL_SCC2_NO_MEMORY_def
  IOCTL_SCC2_FAILURE_def

record scc2_configuration_access =
  driver_major_version2 :: int
  driver_minor_version2 :: int
  scm_version2 :: int
  smn_version2 :: int
  block_size2 :: int
  black_ram_size2 :: int
  red_ram_size2 :: int

record scc2_reg_access =
  reg_offset2 :: u32
  reg_data2 :: u32
  reg_return_code2 :: int

text \<open>
  The structure for partitions has a union of three words for an allocation and two words to engage the
  partition; its words are shared.
\<close>

record scc_partition_access =
  pa_virt_address :: u32
  pa_word0 :: u32
  pa_word1 :: u32
  pa_word2 :: u32
  pa_scc_status :: int

abbreviation "smid \<equiv> pa_word0"
abbreviation "part_no \<equiv> pa_word1"
abbreviation "phys_address \<equiv> pa_word2"
abbreviation "umid \<equiv> pa_word0"
abbreviation "permissions \<equiv> pa_word1"

record scc_part_cipher_access =
  virt_address :: u32
  red_offset :: u32
  black_address :: u32
  size_bytes :: u32
  iv :: u64
  pc_scc_status :: int

definition SCC2_TEST_DRIVER_IOCTL_IDENTIFIER :: u32 where "SCC2_TEST_DRIVER_IOCTL_IDENTIFIER = 0x73"

definition SCC2_TEST_GET_CONFIGURATION :: u32 where
  "SCC2_TEST_GET_CONFIGURATION = IOW SCC2_TEST_DRIVER_IOCTL_IDENTIFIER 0 28"
definition SCC2_TEST_READ_REG :: u32 where "SCC2_TEST_READ_REG = IOWR SCC2_TEST_DRIVER_IOCTL_IDENTIFIER 1 12"
definition SCC2_TEST_WRITE_REG :: u32 where "SCC2_TEST_WRITE_REG = IOWR SCC2_TEST_DRIVER_IOCTL_IDENTIFIER 2 12"
definition SCC2_TEST_SET_ALARM :: u32 where "SCC2_TEST_SET_ALARM = IO SCC2_TEST_DRIVER_IOCTL_IDENTIFIER 5"
definition SCC2_TEST_ZEROIZE :: u32 where "SCC2_TEST_ZEROIZE = IOWR SCC2_TEST_DRIVER_IOCTL_IDENTIFIER 6 4"
definition SCC2_TEST_ALLOC_PART :: u32 where "SCC2_TEST_ALLOC_PART = IOWR SCC2_TEST_DRIVER_IOCTL_IDENTIFIER 12 20"
definition SCC2_TEST_ENGAGE_PART :: u32 where "SCC2_TEST_ENGAGE_PART = IOWR SCC2_TEST_DRIVER_IOCTL_IDENTIFIER 13 20"
definition SCC2_TEST_ENCRYPT_PART :: u32 where "SCC2_TEST_ENCRYPT_PART = IOWR SCC2_TEST_DRIVER_IOCTL_IDENTIFIER 14 32"
definition SCC2_TEST_DECRYPT_PART :: u32 where "SCC2_TEST_DECRYPT_PART = IOWR SCC2_TEST_DRIVER_IOCTL_IDENTIFIER 15 32"
definition SCC2_TEST_RELEASE_PART :: u32 where "SCC2_TEST_RELEASE_PART = IOWR SCC2_TEST_DRIVER_IOCTL_IDENTIFIER 16 20"
definition SCC2_TEST_LOAD_PART :: u32 where "SCC2_TEST_LOAD_PART = IOWR SCC2_TEST_DRIVER_IOCTL_IDENTIFIER 17 32"
definition SCC2_TEST_READ_PART :: u32 where "SCC2_TEST_READ_PART = IOWR SCC2_TEST_DRIVER_IOCTL_IDENTIFIER 18 32"

lemma scc2_cmd_values:
  "SCC2_TEST_GET_CONFIGURATION = 0x401C7300"
  "SCC2_TEST_READ_REG = 0xC00C7301"
  "SCC2_TEST_WRITE_REG = 0xC00C7302"
  "SCC2_TEST_SET_ALARM = 0x7305"
  "SCC2_TEST_ZEROIZE = 0xC0047306"
  "SCC2_TEST_ALLOC_PART = 0xC014730C"
  "SCC2_TEST_ENGAGE_PART = 0xC014730D"
  "SCC2_TEST_ENCRYPT_PART = 0xC020730E"
  "SCC2_TEST_DECRYPT_PART = 0xC020730F"
  "SCC2_TEST_RELEASE_PART = 0xC0147310"
  "SCC2_TEST_LOAD_PART = 0xC0207311"
  "SCC2_TEST_READ_PART = 0xC0207312"
  by (code_simp, code_simp, code_simp, code_simp, code_simp, code_simp, code_simp, code_simp, code_simp, code_simp, code_simp, code_simp)


section \<open>The driver under test and the driver's state\<close>

datatype scc2_handler = Scc2_test_open | Scc2_test_ioctl | Scc2_test_release

record ('c, 'w) scc2_env =
  scc2_os :: "(scc2_handler, 'w) os_env"
  u_config2 :: "('c, 'w) uaccess"
  u_reg2 :: "(scc2_reg_access, 'w) uaccess"
  u_partition :: "(scc_partition_access, 'w) uaccess"
  u_part_cipher :: "(scc_part_cipher_access, 'w) uaccess"
  u_bytes2 :: "'w ubytes"
  kmem_store :: "u32 \<Rightarrow> u8 list \<Rightarrow> 'w \<Rightarrow> 'w"
  kmem_load :: "u32 \<Rightarrow> nat \<Rightarrow> 'w \<Rightarrow> u8 list"
  SCC2_RET_OK :: int
  SCC_CYPHER_MODE_CBC :: int
  SMN_STATUS_REG :: u32
  scc2_get_configuration :: "'w \<Rightarrow> 'c \<times> 'w"
  scc2_read_register :: "u32 \<Rightarrow> u32 \<Rightarrow> 'w \<Rightarrow> (int \<times> u32) \<times> 'w"
  scc2_write_register :: "u32 \<Rightarrow> u32 \<Rightarrow> 'w \<Rightarrow> int \<times> 'w"
  scc2_set_sw_alarm :: "'w \<Rightarrow> unit \<times> 'w"
  scc2_monitor_security_failure :: "'w \<Rightarrow> int \<times> 'w"
  scc_allocate_partition :: "u32 \<Rightarrow> u32 \<times> u32 \<times> u32 \<Rightarrow> 'w \<Rightarrow> (int \<times> u32 \<times> u32 \<times> u32) \<times> 'w"
  scc_engage_partition :: "u32 \<Rightarrow> u8 list option \<Rightarrow> u32 \<Rightarrow> 'w \<Rightarrow> int \<times> 'w"
  scc_release_partition :: "u32 \<Rightarrow> 'w \<Rightarrow> int \<times> 'w"
  scc_encrypt_region :: "u32 \<Rightarrow> u32 \<Rightarrow> u32 \<Rightarrow> u32 \<Rightarrow> u32 list \<Rightarrow> int \<Rightarrow> 'w \<Rightarrow> (int \<times> u8 list) \<times> 'w"
  scc_decrypt_region :: "u32 \<Rightarrow> u32 \<Rightarrow> u32 \<Rightarrow> u32 \<Rightarrow> u8 list \<Rightarrow> u32 list \<Rightarrow> int \<Rightarrow> 'w \<Rightarrow> int \<times> 'w"

record 'c scc2_test =
  scc2_test_major_node :: int
  reg_handle2 :: "(os_fn \<times> scc2_handler) list"
  scc_cfg2 :: "'c option"
  scc2_test_mutex :: bool


section \<open>Operations\<close>

subsection \<open>Loading, unloading, open and close\<close>

definition setup_user_driver_interaction2 :: "('c, 'w) scc2_env \<Rightarrow> 'c scc2_test \<times> 'w kern \<Rightarrow> int \<times> 'c scc2_test \<times> 'w kern" where
  "setup_user_driver_interaction2 env = (\<lambda>(s, k).
     let s = s\<lparr>reg_handle2 := [(OS_FN_OPEN, Scc2_test_open), (OS_FN_IOCTL, Scc2_test_ioctl),
                (OS_FN_CLOSE, Scc2_test_release)]\<rparr>
     in case on_kworld (os_driver_complete_registration (scc2_os env) (reg_handle2 s) (scc2_test_major_node s)) k of
          (code, k) \<Rightarrow>
            if code \<noteq> OS_ERROR_OK_S (scc2_os env) then (code, s, k)
            else if scc2_test_major_node s = 0 then (code, s\<lparr>scc2_test_major_node := code\<rparr>, k)
            else (code, s, k))"

definition scc2_test_cleanup :: "('c, 'w) scc2_env \<Rightarrow> 'c scc2_test \<times> 'w kern \<Rightarrow> 'c scc2_test \<times> 'w kern" where
  "scc2_test_cleanup env = (\<lambda>(s, k).
     case on_kworld (os_driver_remove_registration (scc2_os env) (reg_handle2 s)) k of (_, k) \<Rightarrow> (s, k))"

definition scc2_test_init :: "('c, 'w) scc2_env \<Rightarrow> 'c scc2_test \<times> 'w kern \<Rightarrow> int \<times> 'c scc2_test \<times> 'w kern" where
  "scc2_test_init env = (\<lambda>(s, k).
     case on_kworld (scc2_get_configuration env) k of (cfg, k) \<Rightarrow>
     let s = s\<lparr>scc_cfg2 := Some cfg\<rparr> in
     case on_kworld (scc2_read_register env (SMN_STATUS_REG env) 0) k of ((error_code, smn_status), k) \<Rightarrow>
     case (if error_code = 0 then setup_user_driver_interaction2 env (s, k) else (error_code, s, k)) of
       (error_code, s, k) \<Rightarrow>
     case on_kworld (scc2_monitor_security_failure env) k of (_, k) \<Rightarrow>
     if error_code \<noteq> 0 then (error_code, scc2_test_cleanup env (s, k)) else (error_code, s, k))"

definition scc2_test_open :: "('c, 'w) scc2_env \<Rightarrow> 'w kern \<Rightarrow> int \<times> 'w kern" where
  "scc2_test_open env k = (OS_ERROR_OK_S (scc2_os env), k)"

definition scc2_test_release :: "('c, 'w) scc2_env \<Rightarrow> 'w kern \<Rightarrow> int \<times> 'w kern" where
  "scc2_test_release env k = (OS_ERROR_OK_S (scc2_os env), k)"


subsection \<open>Configuration and registers\<close>

definition scc2_test_get_configuration :: "('c, 'w) scc2_env \<Rightarrow> u32 \<Rightarrow> 'w kern \<Rightarrow> int \<times> 'w kern" where
  "scc2_test_get_configuration env scc_data k =
     (case on_kworld (scc2_get_configuration env) k of (cfg, k) \<Rightarrow>
      case copy_to_user (u_config2 env) scc_data cfg k of (n, k) \<Rightarrow>
        (if n \<noteq> 0 then - IOCTL_SCC2_IMPROPER_ADDR else IOCTL_SCC2_OK, k))"

text \<open>The result of the copy back to user space is not looked at.\<close>

definition scc2_test_read_register :: "('c, 'w) scc2_env \<Rightarrow> u32 \<Rightarrow> 'w kern \<Rightarrow> int \<times> 'w kern" where
  "scc2_test_read_register env scc_data k =
     (case copy_from_user (u_reg2 env) scc_data k of (n, reg_struct) \<Rightarrow>
      case (if n \<noteq> 0 then (-1, - IOCTL_SCC2_IMPROPER_ADDR, reg_struct, k)
            else case on_kworld (scc2_read_register env (reg_offset2 reg_struct) (reg_data2 reg_struct)) k of
                   ((scc_return, v), k) \<Rightarrow>
                     (scc_return, if scc_return \<noteq> SCC2_RET_OK env then - IOCTL_SCC2_IMPROPER_ADDR else IOCTL_SCC2_OK,
                      reg_struct\<lparr>reg_data2 := v\<rparr>, k)) of
        (scc_return, error_code, reg_struct, k) \<Rightarrow>
          case copy_to_user (u_reg2 env) scc_data (reg_struct\<lparr>reg_return_code2 := scc_return\<rparr>) k of
            (retval, k) \<Rightarrow> (error_code, k))"

definition scc2_test_write_register :: "('c, 'w) scc2_env \<Rightarrow> u32 \<Rightarrow> 'w kern \<Rightarrow> int \<times> 'w kern" where
  "scc2_test_write_register env scc_data k =
     (case copy_from_user (u_reg2 env) scc_data k of (n, reg_struct) \<Rightarrow>
      case (if n \<noteq> 0 then (-1, - IOCTL_SCC2_IMPROPER_ADDR, k)
            else case on_kworld (scc2_write_register env (reg_offset2 reg_struct) (reg_data2 reg_struct)) k of
                   (scc_return, k) \<Rightarrow>
                     (scc_return, if scc_return \<noteq> SCC2_RET_OK env then - IOCTL_SCC2_IMPROPER_ADDR else IOCTL_SCC2_OK, k)) of
        (scc_return, error_code, k) \<Rightarrow>
          case copy_to_user (u_reg2 env) scc_data (reg_struct\<lparr>reg_return_code2 := scc_return\<rparr>) k of
            (retval, k) \<Rightarrow> (error_code, k))"


subsection \<open>Partitions\<close>

definition scc2_test_alloc_part :: "('c, 'w) scc2_env \<Rightarrow> u32 \<Rightarrow> 'w kern \<Rightarrow> int \<times> 'w kern" where
  "scc2_test_alloc_part env = exchange (u_partition env) (\<lambda>acc k.
     case on_kworld (scc_allocate_partition env (smid acc) (part_no acc, pa_virt_address acc, phys_address acc)) k of
       ((status, part, virt, phys), k) \<Rightarrow>
         (acc\<lparr>pa_word1 := part, pa_virt_address := virt, pa_word2 := phys, pa_scc_status := status\<rparr>, k))"

definition scc2_test_engage_part :: "('c, 'w) scc2_env \<Rightarrow> u32 \<Rightarrow> 'w kern \<Rightarrow> int \<times> 'w kern" where
  "scc2_test_engage_part env scc_data k =
     (case copy_from_user (u_partition env) scc_data k of (n, acc) \<Rightarrow>
      if c_int n \<noteq> 0 then (c_int n, k)
      else case (if umid acc \<noteq> 0
                 then case copy_bytes_from_user (u_bytes2 env) (umid acc) 16 k of (n, bs) \<Rightarrow> (c_int n, Some bs)
                 else (0, None)) of (status, umid_ptr) \<Rightarrow>
        if status = 0
        then case on_kworld (scc_engage_partition env (pa_virt_address acc) umid_ptr (permissions acc)) k of
               (scc_status, k) \<Rightarrow>
                 case copy_to_user (u_partition env) scc_data (acc\<lparr>pa_scc_status := scc_status\<rparr>) k of
                   (n, k) \<Rightarrow> (c_int n, k)
        else (status, k))"

text \<open>The two words of \<open>iv\<close> in memory order (the processor is little-endian), then two zero words.\<close>

definition build_IV :: "scc_part_cipher_access \<Rightarrow> u32 list" where
  "build_IV acc = [ucast (iv acc), ucast (drop_bit 32 (iv acc)), 0, 0]"

definition do_encrypt_part :: "('c, 'w) scc2_env \<Rightarrow> scc_part_cipher_access \<Rightarrow> u8 list \<Rightarrow> u32 \<Rightarrow> 'w kern
    \<Rightarrow> (int \<times> scc_part_cipher_access \<times> 'w kern) option" where
  "do_encrypt_part env acc local_black black_phys k =
     (case on_kworld (scc_encrypt_region env (virt_address acc) (red_offset acc) (size_bytes acc) black_phys
             (build_IV acc) (SCC_CYPHER_MODE_CBC env)) k of
        ((scc_status, black), k) \<Rightarrow> do {
          local_black \<leftarrow> write_area 0 black local_black;
          result \<leftarrow> read_area 0 (unat (size_bytes acc)) local_black;
          case copy_bytes_to_user (u_bytes2 env) (black_address acc) result k of
            (n, k) \<Rightarrow> Some (c_int n, acc\<lparr>pc_scc_status := scc_status\<rparr>, k)
        })"

definition do_decrypt_part :: "('c, 'w) scc2_env \<Rightarrow> scc_part_cipher_access \<Rightarrow> u8 list \<Rightarrow> u32 \<Rightarrow> 'w kern
    \<Rightarrow> (int \<times> scc_part_cipher_access \<times> 'w kern) option" where
  "do_decrypt_part env acc local_black black_phys k =
     (case copy_bytes_from_user (u_bytes2 env) (black_address acc) (unat (size_bytes acc)) k of (n, bs) \<Rightarrow> do {
        local_black \<leftarrow> write_area 0 bs local_black;
        if c_int n = 0
        then (case on_kworld (scc_decrypt_region env (virt_address acc) (red_offset acc) (size_bytes acc) black_phys
                     local_black (build_IV acc) (SCC_CYPHER_MODE_CBC env)) k of
                (scc_status, k) \<Rightarrow> Some (c_int n, acc\<lparr>pc_scc_status := scc_status\<rparr>, k))
        else Some (c_int n, acc, k)
      })"

definition scc2_test_encrypt_part :: "('c, 'w) scc2_env \<Rightarrow> u32 \<Rightarrow> u32 \<Rightarrow> 'w kern \<Rightarrow> (int \<times> 'w kern) option" where
  "scc2_test_encrypt_part env cmd scc_data k =
     (case copy_from_user (u_part_cipher env) scc_data k of (n, acc) \<Rightarrow>
      if c_int n \<noteq> 0 then Some (c_int n, k)
      else
        let local_black = fresh_area (size_bytes acc) k in
        case dma_alloc_coherent (size_bytes acc) k of (black, black_phys, k) \<Rightarrow> do {
          (status, acc, k) \<leftarrow>
            (if black = 0 then Some (IOCTL_SCC2_NO_MEMORY, acc, k)
             else if cmd = SCC2_TEST_ENCRYPT_PART then do_encrypt_part env acc local_black black_phys k
             else do_decrypt_part env acc local_black black_phys k);
          k \<leftarrow> (if black \<noteq> 0 then dma_free_coherent (size_bytes acc) black black_phys k else Some k);
          if status = 0
          then (case copy_to_user (u_part_cipher env) scc_data acc k of (n, k) \<Rightarrow> Some (c_int n, k))
          else Some (status, k)
        })"

text \<open>The status these two set in their copy of the structure is not copied back.\<close>

definition scc2_test_load_data :: "('c, 'w) scc2_env \<Rightarrow> u32 \<Rightarrow> 'w kern \<Rightarrow> int \<times> 'w kern" where
  "scc2_test_load_data env scc_data k =
     (case copy_from_user (u_part_cipher env) scc_data k of (n, acc) \<Rightarrow>
      if c_int n \<noteq> 0 then (c_int n, k)
      else case copy_bytes_from_user (u_bytes2 env) (black_address acc) (unat (size_bytes acc)) k of (n, bs) \<Rightarrow>
        (c_int n, k\<lparr>kworld := kmem_store env (virt_address acc + red_offset acc) bs (kworld k)\<rparr>))"

definition scc2_test_read_data :: "('c, 'w) scc2_env \<Rightarrow> u32 \<Rightarrow> 'w kern \<Rightarrow> int \<times> 'w kern" where
  "scc2_test_read_data env scc_data k =
     (case copy_from_user (u_part_cipher env) scc_data k of (n, acc) \<Rightarrow>
      if c_int n \<noteq> 0 then (c_int n, k)
      else case copy_bytes_to_user (u_bytes2 env) (black_address acc)
             (kmem_load env (virt_address acc + red_offset acc) (unat (size_bytes acc)) (kworld k)) k of
        (n, k) \<Rightarrow> (c_int n, k))"

definition scc2_test_release_part :: "('c, 'w) scc2_env \<Rightarrow> u32 \<Rightarrow> 'w kern \<Rightarrow> int \<times> 'w kern" where
  "scc2_test_release_part env = exchange (u_partition env) (\<lambda>acc k.
     case on_kworld (scc_release_partition env (pa_virt_address acc)) k of
       (status, k) \<Rightarrow> (acc\<lparr>pa_scc_status := status\<rparr>, k))"


subsection \<open>Dispatch\<close>

definition scc2_dispatch :: "('c, 'w) scc2_env \<Rightarrow> u32 \<Rightarrow> u32 \<Rightarrow> 'w kern \<Rightarrow> (int \<times> 'w kern) option" where
  "scc2_dispatch env cmd scc_data k =
     (if cmd = SCC2_TEST_GET_CONFIGURATION then Some (scc2_test_get_configuration env scc_data k)
      else if cmd = SCC2_TEST_READ_REG then Some (scc2_test_read_register env scc_data k)
      else if cmd = SCC2_TEST_WRITE_REG then Some (scc2_test_write_register env scc_data k)
      else if cmd = SCC2_TEST_SET_ALARM
        then (case on_kworld (scc2_set_sw_alarm env) k of (_, k) \<Rightarrow> Some (OS_ERROR_OK_S (scc2_os env), k))
      else if cmd = SCC2_TEST_ALLOC_PART then Some (scc2_test_alloc_part env scc_data k)
      else if cmd = SCC2_TEST_ENGAGE_PART then Some (scc2_test_engage_part env scc_data k)
      else if cmd = SCC2_TEST_ENCRYPT_PART \<or> cmd = SCC2_TEST_DECRYPT_PART
        then scc2_test_encrypt_part env cmd scc_data k
      else if cmd = SCC2_TEST_LOAD_PART then Some (scc2_test_load_data env scc_data k)
      else if cmd = SCC2_TEST_READ_PART then Some (scc2_test_read_data env scc_data k)
      else if cmd = SCC2_TEST_RELEASE_PART then Some (scc2_test_release_part env scc_data k)
      else Some (- IOCTL_SCC2_INVALID_CMD, k))"

text \<open>The switch runs under the driver's mutex; locking a mutex that is held waits, here \<open>None\<close>.\<close>

definition scc2_test_ioctl :: "('c, 'w) scc2_env \<Rightarrow> u32 \<Rightarrow> u32 \<Rightarrow> 'c scc2_test \<times> 'w kern
    \<Rightarrow> (int \<times> 'c scc2_test \<times> 'w kern) option" where
  "scc2_test_ioctl env cmd scc_data = (\<lambda>(s, k).
     if scc2_test_mutex s then None
     else do {
       let s = s\<lparr>scc2_test_mutex := True\<rparr>;
       (error_code, k) \<leftarrow> scc2_dispatch env cmd scc_data k;
       Some (error_code, s\<lparr>scc2_test_mutex := False\<rparr>, k)
     })"

section \<open>Registers\<close>

definition scc2_reg_update :: "u32 \<Rightarrow> int \<Rightarrow> scc2_reg_access \<Rightarrow> scc2_reg_access" where
  "scc2_reg_update v r x = x\<lparr>reg_data2 := v, reg_return_code2 := r\<rparr>"

interpretation scc2_port: reg_port "scc2_test_read_register env" "scc2_test_write_register env" "u_reg2 env"
    reg_offset2 reg_data2 scc2_reg_update "SCC2_RET_OK env" "scc2_read_register env" "scc2_write_register env"
  for env :: "('c, 'w) scc2_env"
  by unfold_locales
    (auto simp: scc2_test_read_register_def scc2_test_write_register_def scc2_reg_update_def copy_from_user_def
      copy_to_user_def on_kworld_def IOCTL_SCC2_OK_def)

lemma scc2_register_roundtrip:
  assumes "uaccess_total (u_reg2 env)"
    and "register_chip (u_reg2 env) (SCC2_RET_OK env) (scc2_read_register env) (scc2_write_register env) reg_value o'"
    and "reg_offset2 (snd (from_user (u_reg2 env) a (kworld k))) = o'"
    and "reg_offset2 (snd (from_user (u_reg2 env) b (kworld (snd (scc2_test_write_register env a k))))) = o'"
  shows "\<exists>k1 k2. scc2_dispatch env SCC2_TEST_WRITE_REG a k = Some (0, k1)
    \<and> scc2_dispatch env SCC2_TEST_READ_REG b k1 = Some (0, k2)
    \<and> reg_data2 (snd (from_user (u_reg2 env) b (kworld k2))) = reg_data2 (snd (from_user (u_reg2 env) a (kworld k)))"
  using scc2_port.write_read [OF assms] by (simp add: scc2_dispatch_def scc2_cmd_values)


section \<open>Memory and the mutex\<close>

text \<open>The SCC2 driver writes no more black data than it was asked to.\<close>

definition region_ok :: "('c, 'w) scc2_env \<Rightarrow> bool" where
  "region_ok env \<longleftrightarrow> (\<forall>virt off sz phys ivec m w rc black w'.
     scc_encrypt_region env virt off sz phys ivec m w = ((rc, black), w') \<longrightarrow> length black \<le> unat sz)"

lemma do_encrypt_part_ok:
  assumes "region_ok env" and "length local_black = unat (size_bytes acc)"
  shows "\<exists>r acc' k'. do_encrypt_part env acc local_black phys k = Some (r, acc', k')
    \<and> size_bytes acc' = size_bytes acc \<and> dma_live k' = dma_live k \<and> klive k' = klive k"
proof -
  obtain rc black w where enc: "scc_encrypt_region env (virt_address acc) (red_offset acc) (size_bytes acc) phys
      (build_IV acc) (SCC_CYPHER_MODE_CBC env) (kworld k) = ((rc, black), w)" by (metis prod.collapse)
  then have "length black \<le> length local_black"
    using assms unfolding region_ok_def by metis
  then obtain lb where lb: "write_area 0 black local_black = Some lb" by (simp add: write_area_def)
  have "length lb = unat (size_bytes acc)" using length_write_area [OF lb] assms(2) by simp
  then have rd: "read_area 0 (unat (size_bytes acc)) lb = Some lb" by (simp add: read_area_def)
  obtain n k2 where c: "copy_bytes_to_user (u_bytes2 env) (black_address acc) lb (k\<lparr>kworld := w\<rparr>) = (n, k2)" by force
  show ?thesis
    using enc lb rd c copy_bytes_to_user_accounts(1,2) [OF c] by (simp add: do_encrypt_part_def on_kworld_def)
qed

lemma do_decrypt_part_ok:
  assumes "length local_black = unat (size_bytes acc)"
  shows "\<exists>r acc' k'. do_decrypt_part env acc local_black phys k = Some (r, acc', k')
    \<and> size_bytes acc' = size_bytes acc \<and> dma_live k' = dma_live k \<and> klive k' = klive k"
proof -
  obtain n bs where c: "copy_bytes_from_user (u_bytes2 env) (black_address acc) (unat (size_bytes acc)) k = (n, bs)" by force
  then have "write_area 0 bs local_black = Some bs" using length_copy_bytes [OF c] assms by (simp add: write_area_def)
  then show ?thesis using c by (simp add: do_decrypt_part_def on_kworld_def split: prod.split)
qed

definition balanced :: "'w kern \<Rightarrow> (int \<times> 'w kern) option \<Rightarrow> bool" where
  "balanced k x \<longleftrightarrow> (\<exists>r k'. x = Some (r, k') \<and> dma_live k' = dma_live k \<and> klive k' = klive k)"

lemma balanced_Some [simp]: "balanced k (Some p) \<longleftrightarrow> dma_live (snd p) = dma_live k \<and> klive (snd p) = klive k"
  by (cases p) (simp add: balanced_def)

lemma scc2_encrypt_part_balanced:
  assumes "region_ok env"
  shows "balanced k (scc2_test_encrypt_part env cmd a k)"
proof -
  obtain n acc where c: "copy_from_user (u_part_cipher env) a k = (n, acc)" by force
  obtain cpu phys where d: "k_dma_result k (calls k) (size_bytes acc) = (cpu, phys)" by force
  let ?lb = "fresh_area (size_bytes acc) k"
  show ?thesis
  proof (cases "c_int n = 0 \<and> cpu \<noteq> 0")
    case False
    then show ?thesis
      using c d by (auto simp: scc2_test_encrypt_part_def dma_alloc_coherent_def scc2_codes errnos Let_def)
  next
    case True
    let ?k1 = "k\<lparr>calls := Suc (calls k), dma_live := add_mset (size_bytes acc, cpu, phys) (dma_live k)\<rparr>"
    let ?do = "if cmd = SCC2_TEST_ENCRYPT_PART then do_encrypt_part env acc ?lb phys ?k1 else do_decrypt_part env acc ?lb phys ?k1"
    obtain r acc' k2 where r: "?do = Some (r, acc', k2)" "size_bytes acc' = size_bytes acc"
      "dma_live k2 = dma_live ?k1" "klive k2 = klive ?k1"
      using do_encrypt_part_ok [OF assms, of ?lb acc phys ?k1] do_decrypt_part_ok [of ?lb acc env phys ?k1]
      by (cases "cmd = SCC2_TEST_ENCRYPT_PART") auto
    obtain m k3 where m: "copy_to_user (u_part_cipher env) a acc' (k2\<lparr>dma_live := dma_live k\<rparr>) = (m, k3)" by force
    have "scc2_test_encrypt_part env cmd a k
        = Some (if r = 0 then (c_int m, k3) else (r, k2\<lparr>dma_live := dma_live k\<rparr>))"
      using True c d r m
      by (simp add: scc2_test_encrypt_part_def dma_alloc_coherent_def dma_free_coherent_def)
    then show ?thesis using r(4) copy_to_user_accounts(1,2) [OF m] by simp
  qed
qed

lemma scc2_handlers_balanced:
  "dma_live (snd (scc2_test_get_configuration env a k)) = dma_live k \<and> klive (snd (scc2_test_get_configuration env a k)) = klive k"
  "dma_live (snd (scc2_test_read_register env a k)) = dma_live k \<and> klive (snd (scc2_test_read_register env a k)) = klive k"
  "dma_live (snd (scc2_test_write_register env a k)) = dma_live k \<and> klive (snd (scc2_test_write_register env a k)) = klive k"
  "dma_live (snd (scc2_test_alloc_part env a k)) = dma_live k \<and> klive (snd (scc2_test_alloc_part env a k)) = klive k"
  "dma_live (snd (scc2_test_engage_part env a k)) = dma_live k \<and> klive (snd (scc2_test_engage_part env a k)) = klive k"
  "dma_live (snd (scc2_test_load_data env a k)) = dma_live k \<and> klive (snd (scc2_test_load_data env a k)) = klive k"
  "dma_live (snd (scc2_test_read_data env a k)) = dma_live k \<and> klive (snd (scc2_test_read_data env a k)) = klive k"
  "dma_live (snd (scc2_test_release_part env a k)) = dma_live k \<and> klive (snd (scc2_test_release_part env a k)) = klive k"
  by (auto simp: scc2_test_get_configuration_def scc2_test_read_register_def scc2_test_write_register_def
      scc2_test_alloc_part_def scc2_test_engage_part_def scc2_test_load_data_def scc2_test_read_data_def
      scc2_test_release_part_def exchange_def on_kworld_def copy_to_user_def copy_bytes_to_user_def split: prod.splits)

lemma scc2_dispatch_balanced:
  assumes "region_ok env"
  shows "balanced k (scc2_dispatch env cmd a k)"
  unfolding scc2_dispatch_def on_kworld_def
  by (simp add: scc2_handlers_balanced scc2_encrypt_part_balanced [OF assms] split: prod.split)


definition scc2_commands :: "u32 list" where
  "scc2_commands = [SCC2_TEST_GET_CONFIGURATION, SCC2_TEST_READ_REG, SCC2_TEST_WRITE_REG, SCC2_TEST_SET_ALARM,
     SCC2_TEST_ALLOC_PART, SCC2_TEST_ENGAGE_PART, SCC2_TEST_ENCRYPT_PART, SCC2_TEST_DECRYPT_PART,
     SCC2_TEST_RELEASE_PART, SCC2_TEST_LOAD_PART, SCC2_TEST_READ_PART]"

text \<open>Eleven commands are dispatched, with different numbers, and any other number is answered with
  \<open>-ENOTTY\<close> and changes nothing; \<open>SCC2_TEST_ZEROIZE\<close>, which the header offers, is one of those.\<close>

theorem scc2_ioctl_commands:
  "distinct scc2_commands \<and> SCC2_TEST_ZEROIZE \<notin> set scc2_commands
   \<and> (cmd \<in> set scc2_commands \<or> scc2_test_mutex s \<or> scc2_test_ioctl env cmd a (s, k) = Some (- ENOTTY, s, k))"
proof -
  have "distinct scc2_commands" "SCC2_TEST_ZEROIZE \<notin> set scc2_commands"
    by (simp_all add: scc2_commands_def scc2_cmd_values)
  moreover have "scc2_test_ioctl env cmd a (s, k) = Some (- ENOTTY, s, k)"
    if "cmd \<notin> set scc2_commands" "\<not> scc2_test_mutex s"
    using that by (cases s) (simp add: scc2_commands_def scc2_test_ioctl_def scc2_dispatch_def scc2_codes)
  ultimately show ?thesis by blast
qed

section \<open>Encrypting and decrypting\<close>

lemma encrypt_part_success:
  assumes "from_user (u_part_cipher env) a (kworld k) = (0, acc)"
    and "k_dma_result k (calls k) (size_bytes acc) = (cpu, phys)" and "cpu \<noteq> 0"
    and "scc_encrypt_region env (virt_address acc) (red_offset acc) (size_bytes acc) phys (build_IV acc)
      (SCC_CYPHER_MODE_CBC env) (kworld k) = ((rc, black), w1)"
    and "write_area 0 black (fresh_area (size_bytes acc) k) = Some res"
    and "bytes_to_user (u_bytes2 env) (black_address acc) res w1 = (0, w2)"
    and "to_user (u_part_cipher env) a (acc\<lparr>pc_scc_status := rc\<rparr>) w2 = (0, w3)"
  shows "\<exists>k'. scc2_dispatch env SCC2_TEST_ENCRYPT_PART a k = Some (0, k') \<and> kworld k' = w3"
proof -
  have "read_area 0 (unat (size_bytes acc)) res = Some res"
    using length_write_area [OF assms(5)] by (simp add: read_area_def)
  with assms show ?thesis
    by (simp add: scc2_dispatch_def scc2_cmd_values scc2_test_encrypt_part_def copy_from_user_def dma_alloc_coherent_def
        do_encrypt_part_def on_kworld_def copy_bytes_to_user_def dma_free_coherent_def copy_to_user_def)
qed

lemma decrypt_part_success:
  assumes "from_user (u_part_cipher env) a (kworld k) = (0, acc)"
    and "k_dma_result k (calls k) (size_bytes acc) = (cpu, phys)" and "cpu \<noteq> 0"
    and "bytes_from_user (u_bytes2 env) (black_address acc) (unat (size_bytes acc)) (kworld k) = (0, f)"
    and "scc_decrypt_region env (virt_address acc) (red_offset acc) (size_bytes acc) phys
      (map f [0..<unat (size_bytes acc)]) (build_IV acc) (SCC_CYPHER_MODE_CBC env) (kworld k) = (rc, w1)"
    and "to_user (u_part_cipher env) a (acc\<lparr>pc_scc_status := rc\<rparr>) w1 = (0, w2)"
  shows "\<exists>k'. scc2_dispatch env SCC2_TEST_DECRYPT_PART a k = Some (0, k') \<and> kworld k' = w2"
  using assms
  by (simp add: scc2_dispatch_def scc2_cmd_values scc2_test_encrypt_part_def copy_from_user_def dma_alloc_coherent_def
      do_decrypt_part_def on_kworld_def copy_bytes_from_user_def write_area_def dma_free_coherent_def copy_to_user_def)

text \<open>
  What the cipher promises: encryption yields \<open>E IV red\<close> for the red data at an address, and decrypting
  \<open>E IV r\<close> under the same vector puts \<open>r\<close> there.
\<close>

definition cipher_chip :: "('c, 'w) scc2_env \<Rightarrow> (u32 \<Rightarrow> u32 \<Rightarrow> u32 \<Rightarrow> 'w \<Rightarrow> u8 list) \<Rightarrow> (u32 list \<Rightarrow> u8 list \<Rightarrow> u8 list) \<Rightarrow> bool" where
  "cipher_chip env red E \<longleftrightarrow>
     (\<forall>ivec r. length (E ivec r) = length r) \<and> (\<forall>virt off sz w. length (red virt off sz w) = unat sz)
   \<and> (\<forall>virt off sz phys ivec m w. \<exists>w'. scc_encrypt_region env virt off sz phys ivec m w
        = ((SCC2_RET_OK env, E ivec (red virt off sz w)), w'))
   \<and> (\<forall>virt off sz phys ivec m w r. length r = unat sz \<longrightarrow>
        (\<exists>w'. scc_decrypt_region env virt off sz phys (E ivec r) ivec m w = (SCC2_RET_OK env, w') \<and> red virt off sz w' = r))"

lemma cipher_chipD:
  assumes "cipher_chip env red E"
  shows "length (E ivec r) = length r" and "length (red virt off sz w) = unat sz"
    and "\<exists>w'. scc_encrypt_region env virt off sz phys ivec m w = ((SCC2_RET_OK env, E ivec (red virt off sz w)), w')"
    and "length r = unat sz \<Longrightarrow> \<exists>w'. scc_decrypt_region env virt off sz phys (E ivec r) ivec m w = (SCC2_RET_OK env, w')
        \<and> red virt off sz w' = r"
  using assms by (simp_all add: cipher_chip_def)

text \<open>User memory without faults that keeps bytes.\<close>

definition ubytes_total :: "'w ubytes \<Rightarrow> bool" where
  "ubytes_total ub \<longleftrightarrow> (\<forall>a bs w. \<exists>w' f. length bs < 2 ^ 32 \<longrightarrow> bytes_to_user ub a bs w = (0, w')
     \<and> bytes_from_user ub a (length bs) w' = (0, f) \<and> map f [0..<length bs] = bs)"


text \<open>When the SCC2 driver refuses to encrypt and leaves the black region alone, the request returns 0 all
  the same, and the user's buffer receives what the fresh region happened to hold.\<close>

theorem scc2_encrypt_copies_stale:
  assumes "from_user (u_part_cipher env) a (kworld k) = (0, acc)"
    and "k_dma_result k (calls k) (size_bytes acc) = (cpu, phys)" and "cpu \<noteq> 0"
    and "scc_encrypt_region env (virt_address acc) (red_offset acc) (size_bytes acc) phys (build_IV acc)
      (SCC_CYPHER_MODE_CBC env) (kworld k) = ((rc, []), w1)" and "rc \<noteq> SCC2_RET_OK env"
    and "bytes_to_user (u_bytes2 env) (black_address acc) (fresh_area (size_bytes acc) k) w1 = (0, w2)"
    and "to_user (u_part_cipher env) a (acc\<lparr>pc_scc_status := rc\<rparr>) w2 = (0, w3)"
  shows "\<exists>k'. scc2_dispatch env SCC2_TEST_ENCRYPT_PART a k = Some (0, k') \<and> kworld k' = w3"
  by (rule encrypt_part_success [OF assms(1-4) _ assms(6,7)]) (simp add: write_area_def)


section \<open>Loading and reading a partition\<close>

text \<open>What is loaded into a partition is read back from it: after a request that loads bytes, a request
  for the same address and length stores exactly these bytes at its own buffer; both return 0. (Kernel
  memory at that address keeps what is stored in it.)\<close>

theorem scc2_load_read_roundtrip:
  assumes "from_user (u_part_cipher env) a (kworld k) = (0, acc)"
    and "bytes_from_user (u_bytes2 env) (black_address acc) (unat (size_bytes acc)) (kworld k) = (0, f)"
    and "\<And>bs w. length bs = unat (size_bytes acc) \<Longrightarrow> kmem_load env (virt_address acc + red_offset acc)
        (unat (size_bytes acc)) (kmem_store env (virt_address acc + red_offset acc) bs w) = bs"
    and "\<And>w. w = kmem_store env (virt_address acc + red_offset acc) (map f [0..<unat (size_bytes acc)]) (kworld k) \<Longrightarrow>
        from_user (u_part_cipher env) b w = (0, acc2)
        \<and> bytes_to_user (u_bytes2 env) (black_address acc2) (map f [0..<unat (size_bytes acc)]) w = (0, w2)"
    and "virt_address acc2 + red_offset acc2 = virt_address acc + red_offset acc" and "size_bytes acc2 = size_bytes acc"
  shows "\<exists>k1 k2. scc2_dispatch env SCC2_TEST_LOAD_PART a k = Some (0, k1)
    \<and> scc2_dispatch env SCC2_TEST_READ_PART b k1 = Some (0, k2) \<and> kworld k2 = w2"
  using assms(1,2,5,6) assms(3) [of "map f [0..<unat (size_bytes acc)]"] assms(4) [OF refl]
  by (simp add: scc2_dispatch_def scc2_cmd_values scc2_test_load_data_def scc2_test_read_data_def copy_from_user_def
      copy_bytes_from_user_def copy_bytes_to_user_def)


section \<open>A driver to evaluate with\<close>

record scc2_world =
  m_reg2 :: "u32 \<Rightarrow> scc2_reg_access"
  m_partition :: "u32 \<Rightarrow> scc_partition_access"
  m_part_cipher :: "u32 \<Rightarrow> scc_part_cipher_access"
  m_bytes2 :: "u32 \<Rightarrow> u8"
  m_word2 :: "u32 \<Rightarrow> int"
  kmem :: "u32 \<Rightarrow> u8"
  chip_regs2 :: "u32 \<Rightarrow> u32"

definition store_bytes :: "u32 \<Rightarrow> u8 list \<Rightarrow> (u32 \<Rightarrow> u8) \<Rightarrow> u32 \<Rightarrow> u8" where
  "store_bytes a bs m p = (if unat (p - a) < length bs then bs ! unat (p - a) else m p)"

definition load_bytes :: "u32 \<Rightarrow> nat \<Rightarrow> (u32 \<Rightarrow> u8) \<Rightarrow> u8 list" where
  "load_bytes a n m = map (\<lambda>i. m (a + of_nat i)) [0..<n]"

lemma load_store_bytes:
  assumes "length bs < 2 ^ 32"
  shows "load_bytes a (length bs) (store_bytes a bs m) = bs"
proof (rule nth_equalityI)
  fix i assume "i < length (load_bytes a (length bs) (store_bytes a bs m))"
  then have i: "i < length bs" by (simp add: load_bytes_def)
  then have "unat (of_nat i :: u32) = i" using assms by (simp add: unat_of_nat take_bit_nat_eq_self_iff)
  then show "load_bytes a (length bs) (store_bytes a bs m) ! i = bs ! i" using i by (simp add: load_bytes_def store_bytes_def)
qed (simp add: load_bytes_def)

definition flip_bits :: "u8 list \<Rightarrow> u8 list" where
  "flip_bits = map (\<lambda>b. b XOR 0x5A)"

lemma flip_flip [simp]: "flip_bits (flip_bits bs) = bs"
  by (rule nth_equalityI) (simp_all add: flip_bits_def xor.assoc)

lemma length_flip_bits [simp]: "length (flip_bits bs) = length bs"
  by (simp add: flip_bits_def)

definition demo_scc2_env :: "(int, scc2_world) scc2_env" where
  "demo_scc2_env = \<lparr>scc2_os = \<lparr>OS_ERROR_OK_S = 0, OS_ERROR_FAIL_S = -1, OS_ERROR_NO_MEMORY_S = -12, OS_ERROR_BAD_ADDRESS_S = -14,
       os_copy_code = (\<lambda>n. if n = 0 then 0 else -14),
       os_driver_complete_registration = (\<lambda>_ _ w. (0, w)), os_driver_remove_registration = (\<lambda>_ w. (0, w))\<rparr>,
     u_config2 = map_access m_word2 m_word2_update, u_reg2 = map_access m_reg2 m_reg2_update,
     u_partition = map_access m_partition m_partition_update,
     u_part_cipher = map_access m_part_cipher m_part_cipher_update,
     u_bytes2 = \<lparr>bytes_from_user = \<lambda>a n w. (0, \<lambda>i. m_bytes2 w (a + of_nat i)),
       bytes_to_user = \<lambda>a bs w. (0, w\<lparr>m_bytes2 := store_bytes a bs (m_bytes2 w)\<rparr>)\<rparr>,
     kmem_store = (\<lambda>a bs w. w\<lparr>kmem := store_bytes a bs (kmem w)\<rparr>), kmem_load = (\<lambda>a n w. load_bytes a n (kmem w)),
     SCC2_RET_OK = 0, SCC_CYPHER_MODE_CBC = 1, SMN_STATUS_REG = 0,
     scc2_get_configuration = (\<lambda>w. (1, w)),
     scc2_read_register = (\<lambda>p _ w. ((0, chip_regs2 w p), w)),
     scc2_write_register = (\<lambda>p v w. (0, w\<lparr>chip_regs2 := (chip_regs2 w)(p := v)\<rparr>)),
     scc2_set_sw_alarm = (\<lambda>w. ((), w)), scc2_monitor_security_failure = (\<lambda>w. (0, w)),
     scc_allocate_partition = (\<lambda>_ _ w. ((0, 3, 0xF0000000, 0x3000), w)),
     scc_engage_partition = (\<lambda>_ _ _ w. (0, w)), scc_release_partition = (\<lambda>_ w. (0, w)),
     scc_encrypt_region = (\<lambda>virt off sz _ _ _ w. ((0, flip_bits (load_bytes (virt + off) (unat sz) (kmem w))), w)),
     scc_decrypt_region = (\<lambda>virt off sz _ black _ _ w. (0, w\<lparr>kmem := store_bytes (virt + off) (flip_bits black) (kmem w)\<rparr>))\<rparr>"

definition demo_part :: scc_part_cipher_access where
  "demo_part = \<lparr>virt_address = 0xF0000000, red_offset = 16, black_address = 0x20000, size_bytes = 8, iv = 0, pc_scc_status = 0\<rparr>"

definition demo_scc2_world :: scc2_world where
  "demo_scc2_world = \<lparr>m_reg2 = (\<lambda>a. \<lparr>reg_offset2 = 8, reg_data2 = a, reg_return_code2 = 0\<rparr>),
     m_partition = (\<lambda>_. \<lparr>pa_virt_address = 0, pa_word0 = 1, pa_word1 = 2, pa_word2 = 3, pa_scc_status = 0\<rparr>),
     m_part_cipher = (\<lambda>_. demo_part), m_bytes2 = (\<lambda>_. 1), m_word2 = (\<lambda>_. 0), kmem = (\<lambda>p. ucast p), chip_regs2 = (\<lambda>_. 0)\<rparr>"

definition demo_scc2_test :: "int scc2_test" where
  "demo_scc2_test = \<lparr>scc2_test_major_node = 0, reg_handle2 = [], scc_cfg2 = None, scc2_test_mutex = False\<rparr>"

lemmas demo_scc2 = demo_scc2_env_def demo_scc2_world_def demo_kern_def map_access_def


lemma demo_cipher_chip:
  "cipher_chip demo_scc2_env (\<lambda>virt off sz w. load_bytes (virt + off) (unat sz) (kmem w)) (\<lambda>_. flip_bits)"
proof -
  have "load_bytes a (unat sz) (store_bytes a r m) = r" if "length r = unat sz" for a m r and sz :: u32
    using load_store_bytes [of r a m] unsigned_less [of sz] that by simp
  then show ?thesis by (simp add: cipher_chip_def demo_scc2_env_def load_bytes_def [of _ "unat _"])
qed

lemma demo_ubytes_total: "ubytes_total (u_bytes2 demo_scc2_env)"
  using load_store_bytes by (auto simp: ubytes_total_def demo_scc2_env_def load_bytes_def)


theorem scc2_encrypt_copies_stale_witness:
  "\<exists>k'. scc2_dispatch (demo_scc2_env\<lparr>scc_encrypt_region := \<lambda>_ _ _ _ _ _ w. ((5, []), w)\<rparr>) SCC2_TEST_ENCRYPT_PART 0
      (demo_kern demo_scc2_world) = Some (0, k') \<and> m_bytes2 (kworld k') 0x20000 = 0xAA"
proof -
  have f: "fresh_area 8 (demo_kern demo_scc2_world) = [0xAA, 0xAA, 0xAA, 0xAA, 0xAA, 0xAA, 0xAA, 0xAA]"
    by (simp add: fresh_area_def demo_kern_def upt_rec)
  let ?env = "demo_scc2_env\<lparr>scc_encrypt_region := \<lambda>_ _ _ _ _ _ w. ((5, []), w)\<rparr>"
  let ?w2 = "demo_scc2_world\<lparr>m_bytes2 := store_bytes 0x20000 (fresh_area 8 (demo_kern demo_scc2_world)) (\<lambda>_. 1)\<rparr>"
  let ?w3 = "m_part_cipher_update (\<lambda>m. m(0 := demo_part\<lparr>pc_scc_status := 5\<rparr>)) ?w2"
  have sz: "size_bytes demo_part = 8" by (simp add: demo_part_def)
  have "(0xC0100000 :: u32) \<noteq> 0" by simp
  moreover have "from_user (u_part_cipher ?env) 0 (kworld (demo_kern demo_scc2_world)) = (0, demo_part)"
    by (simp add: demo_scc2)
  moreover have "k_dma_result (demo_kern demo_scc2_world) (calls (demo_kern demo_scc2_world)) (size_bytes demo_part)
      = (0xC0100000, 0x100000)" by (simp add: demo_kern_def)
  moreover have "bytes_to_user (u_bytes2 ?env) (black_address demo_part)
      (fresh_area (size_bytes demo_part) (demo_kern demo_scc2_world)) demo_scc2_world = (0, ?w2)"
    by (simp add: demo_scc2_env_def demo_part_def) (simp add: demo_scc2_world_def)
  moreover have "to_user (u_part_cipher ?env) 0 (demo_part\<lparr>pc_scc_status := 5\<rparr>) ?w2 = (0, ?w3)"
    by (simp add: demo_scc2_env_def map_access_def)
  moreover have "scc_encrypt_region ?env (virt_address demo_part) (red_offset demo_part) (size_bytes demo_part) 0x100000
      (build_IV demo_part) (SCC_CYPHER_MODE_CBC ?env) (kworld (demo_kern demo_scc2_world)) = ((5, []), demo_scc2_world)"
    by (simp add: demo_kern_def)
  moreover have "5 \<noteq> SCC2_RET_OK ?env" by (simp add: demo_scc2_env_def)
  ultimately obtain k' where k': "scc2_dispatch ?env SCC2_TEST_ENCRYPT_PART 0 (demo_kern demo_scc2_world) = Some (0, k')"
    "kworld k' = ?w3"
    using scc2_encrypt_copies_stale [of ?env 0 "demo_kern demo_scc2_world" demo_part "0xC0100000" "0x100000" 5 demo_scc2_world ?w2 ?w3]
    by blast
  have "m_bytes2 ?w3 0x20000 = 0xAA" by (simp add: f store_bytes_def)
  with k' show ?thesis by simp
qed

theorem scc2_load_read_roundtrip_witness:
  "\<exists>k1 k2. scc2_dispatch demo_scc2_env SCC2_TEST_LOAD_PART 0 (demo_kern demo_scc2_world) = Some (0, k1)
    \<and> scc2_dispatch demo_scc2_env SCC2_TEST_READ_PART 4 k1 = Some (0, k2)
    \<and> kworld k2 = demo_scc2_world\<lparr>kmem := store_bytes 0xF0000010 (map (\<lambda>_. 1) [0..<8]) ucast,
        m_bytes2 := store_bytes 0x20000 (map (\<lambda>_. 1) [0..<8]) (\<lambda>_. 1)\<rparr>"
proof (rule scc2_load_read_roundtrip [where acc = demo_part and ?acc2.0 = demo_part and f = "\<lambda>_. 1"])
  show "kmem_load demo_scc2_env (virt_address demo_part + red_offset demo_part) (unat (size_bytes demo_part))
      (kmem_store demo_scc2_env (virt_address demo_part + red_offset demo_part) bs w) = bs"
    if "length bs = unat (size_bytes demo_part)" for bs w
    using load_store_bytes [of bs] that by (simp add: demo_scc2_env_def demo_part_def)
qed (simp_all add: demo_scc2 demo_part_def)

section \<open>Concurrent requests\<close>

text \<open>
  Several processes in \<open>ioctl\<close>, each where it stands: outside, called and not yet past \<open>mutex_lock\<close>, inside
  the switch, or behind it with its answer. The steps of all processes interleave, with changes of the world.
\<close>

datatype scc2_pc = Outside | Called u32 u32 | Inside u32 u32 | Leaving int

fun holds_mutex :: "scc2_pc \<Rightarrow> bool" where
  "holds_mutex (Inside _ _) = True"
| "holds_mutex (Leaving _) = True"
| "holds_mutex _ = False"

type_synonym ('p, 'c, 'w) scc2_procs = "('p \<Rightarrow> scc2_pc) \<times> 'c scc2_test \<times> 'w kern"

inductive scc2_step :: "('c, 'w) scc2_env \<Rightarrow> ('p, 'c, 'w) scc2_procs \<Rightarrow> ('p, 'c, 'w) scc2_procs \<Rightarrow> bool" for env where
  step_call: "pcs p = Outside \<Longrightarrow> scc2_step env (pcs, s, k) (pcs(p := Called cmd a), s, k)"
| step_lock: "pcs p = Called cmd a \<Longrightarrow> \<not> scc2_test_mutex s
    \<Longrightarrow> scc2_step env (pcs, s, k) (pcs(p := Inside cmd a), s\<lparr>scc2_test_mutex := True\<rparr>, k)"
| step_switch: "pcs p = Inside cmd a \<Longrightarrow> scc2_dispatch env cmd a k = Some (code, k')
    \<Longrightarrow> scc2_step env (pcs, s, k) (pcs(p := Leaving code), s, k')"
| step_unlock: "pcs p = Leaving code
    \<Longrightarrow> scc2_step env (pcs, s, k) (pcs(p := Outside), s\<lparr>scc2_test_mutex := False\<rparr>, k)"
| step_world: "scc2_step env (pcs, s, k) (pcs, s, k\<lparr>kworld := w\<rparr>)"

text \<open>The same requests one after the other.\<close>

inductive scc2_serial :: "('c, 'w) scc2_env \<Rightarrow> 'c scc2_test \<times> 'w kern \<Rightarrow> 'c scc2_test \<times> 'w kern \<Rightarrow> bool" for env where
  serial_request: "scc2_test_ioctl env cmd a (s, k) = Some (code, st) \<Longrightarrow> scc2_serial env (s, k) st"
| serial_world: "scc2_serial env (s, k) (s, k\<lparr>kworld := w\<rparr>)"

inductive_cases scc2_stepE: "scc2_step env (pcs, s, k) t"
inductive_cases scc2_serialE: "scc2_serial env (s, k) st"

definition scc2_conc_inv :: "('c, 'w) scc2_env \<Rightarrow> 'c scc2_test \<times> 'w kern \<Rightarrow> ('p, 'c, 'w) scc2_procs \<Rightarrow> bool" where
  "scc2_conc_inv env st0 = (\<lambda>(pcs, s, k).
     (\<forall>p q. holds_mutex (pcs p) \<longrightarrow> holds_mutex (pcs q) \<longrightarrow> p = q)
   \<and> (scc2_test_mutex s \<longleftrightarrow> (\<exists>p. holds_mutex (pcs p)))
   \<and> (scc2_serial env)\<^sup>*\<^sup>* st0 (s\<lparr>scc2_test_mutex := False\<rparr>, k))"

lemma scc2_conc_step:
  assumes "scc2_step env (pcs, s, k) t" and "scc2_conc_inv env st0 (pcs, s, k)"
  shows "scc2_conc_inv env st0 t"
  using assms(1)
proof cases
  case (step_switch p cmd a code k')
  have "scc2_serial env (s\<lparr>scc2_test_mutex := False\<rparr>, k) (s\<lparr>scc2_test_mutex := False\<rparr>, k')"
    by (rule serial_request [where code = code and cmd = cmd and a = a]) (simp add: scc2_test_ioctl_def step_switch(3))
  moreover have "holds_mutex ((pcs(p := Leaving code)) q) \<longleftrightarrow> holds_mutex (pcs q)" for q
    using step_switch(2) by simp
  ultimately show ?thesis using assms(2) step_switch(1)
    by (auto simp: scc2_conc_inv_def simp del: fun_upd_apply intro: rtranclp.rtrancl_into_rtrancl)
next
  case (step_call p cmd a)
  have "holds_mutex ((pcs(p := Called cmd a)) q) \<longleftrightarrow> holds_mutex (pcs q)" for q
    using step_call(2) by simp
  then show ?thesis using assms(2) step_call(1) by (simp add: scc2_conc_inv_def del: fun_upd_apply)
next
  case (step_world w)
  then show ?thesis using assms(2)
    by (auto simp: scc2_conc_inv_def intro: rtranclp.rtrancl_into_rtrancl serial_world)
next
  case (step_unlock p code)
  have "holds_mutex (pcs p)" using step_unlock(2) by simp
  then show ?thesis using assms(2) step_unlock by (auto simp: scc2_conc_inv_def)
qed (use assms(2) in \<open>auto simp: scc2_conc_inv_def\<close>)

lemma scc2_serial_balanced:
  assumes "(scc2_serial env)\<^sup>*\<^sup>* (s0, k0) (s, k)" and "region_ok env"
  shows "dma_live k = dma_live k0 \<and> klive k = klive k0"
  using assms(1)
proof (induction rule: rtranclp_induct2)
  case (step s k s' k')
  from step.hyps(2) show ?case
  proof cases
    case (serial_request cmd a code)
    then show ?thesis using step.IH scc2_dispatch_balanced [OF assms(2), of k cmd a]
      by (auto simp: scc2_test_ioctl_def balanced_def Let_def split: if_splits)
  qed (use step.IH in simp)
qed simp



end
