(* ===== verification/RngDriver.thy ===== *)
theory RngDriver
  imports Kernel
begin

text \<open>
  The RNG test driver: \<open>module_test/rng_test_driver.c\<close> and \<open>include/rng_test_driver.h\<close>.

  The random number driver and the user contexts of its API (\<open>rng_driver.h\<close>, \<open>shw_driver.h\<close>, not part of the
  repository) are the record \<open>rng_env\<close>. Each open file has a context of its own, its private data; an
  operation gets it and returns what it is afterwards. \<open>RNG_DEBUG\<close> is not defined. Writing through a null
  pointer or behind the end of a buffer is \<open>None\<close>.
\<close>

unbundle bit_operations_syntax

section \<open>Interface definitions\<close>

definition RNG_TEST_MAJOR_NODE :: int where "RNG_TEST_MAJOR_NODE = 0"

record rng_test_add_entropy_t =
  ae_return_code :: int
  ae_count_bytes :: u32
  ae_entropy :: u32

text \<open>\<open>count_bytes\<close> is an \<open>int\<close> here; all uses convert it to an unsigned number.\<close>

record rng_test_get_random_t =
  gr_count_bytes :: u32
  gr_random :: u32
  gr_isr_flag :: u32
  gr_return_code :: int

record rng_test_reg_access_t =
  rr_reg_offset :: u32
  rr_reg_data :: u32
  rr_return_code :: int

definition RNG_TEST_DRIVER_IOCTL_IDENTIFIER :: u32 where "RNG_TEST_DRIVER_IOCTL_IDENTIFIER = 0x72"

definition RNG_TEST_READ_REG :: u32 where "RNG_TEST_READ_REG = IOWR RNG_TEST_DRIVER_IOCTL_IDENTIFIER 1 12"
definition RNG_TEST_WRITE_REG :: u32 where "RNG_TEST_WRITE_REG = IOWR RNG_TEST_DRIVER_IOCTL_IDENTIFIER 2 12"
definition RNG_TEST_ADD_ENTROPY :: u32 where "RNG_TEST_ADD_ENTROPY = IOWR RNG_TEST_DRIVER_IOCTL_IDENTIFIER 3 12"
definition RNG_TEST_GET_RANDOM :: u32 where "RNG_TEST_GET_RANDOM = IOWR RNG_TEST_DRIVER_IOCTL_IDENTIFIER 4 16"

lemma rng_cmd_values:
  "RNG_TEST_READ_REG = 0xC00C7201" "RNG_TEST_WRITE_REG = 0xC00C7202"
  "RNG_TEST_ADD_ENTROPY = 0xC00C7203" "RNG_TEST_GET_RANDOM = 0xC0107204"
  by (code_simp, code_simp, code_simp, code_simp)


section \<open>The driver under test and the driver's state\<close>

datatype rng_handler = Rng_test_open | Rng_test_ioctl | Rng_test_release

record ('u, 'w) rng_env =
  rng_os :: "(rng_handler, 'w) os_env"
  u_add_entropy :: "(rng_test_add_entropy_t, 'w) uaccess"
  u_get_random :: "(rng_test_get_random_t, 'w) uaccess"
  u_rng_reg :: "(rng_test_reg_access_t, 'w) uaccess"
  u_rng_bytes :: "'w ubytes"
  FSL_RETURN_OK_S :: int
  RNG_RET_OK :: int
  fsl_shw_uco_init :: "nat \<Rightarrow> 'u"
  fsl_shw_register_user :: "'u \<Rightarrow> 'w \<Rightarrow> (int \<times> 'u) \<times> 'w"
  fsl_shw_deregister_user :: "'u \<Rightarrow> 'w \<Rightarrow> int \<times> 'w"
  fsl_shw_get_random :: "'u \<Rightarrow> u32 \<Rightarrow> 'w \<Rightarrow> (int \<times> u8 list \<times> 'u) \<times> 'w"
  fsl_shw_add_entropy :: "'u \<Rightarrow> u32 \<Rightarrow> u8 list \<Rightarrow> 'w \<Rightarrow> (int \<times> 'u) \<times> 'w"
  rng_read_register :: "u32 \<Rightarrow> u32 \<Rightarrow> 'w \<Rightarrow> (int \<times> u32) \<times> 'w"
  rng_write_register :: "u32 \<Rightarrow> u32 \<Rightarrow> 'w \<Rightarrow> int \<times> 'w"

record rng_test =
  rng_test_major_node :: int
  rng_device_registered :: bool
  rng_reg_handle :: "(os_fn \<times> rng_handler) list"


section \<open>Operations\<close>

subsection \<open>Loading and unloading\<close>

definition rng_test_setup_user_driver_interaction :: "('u, 'w) rng_env \<Rightarrow> rng_test \<times> 'w kern \<Rightarrow> int \<times> rng_test \<times> 'w kern" where
  "rng_test_setup_user_driver_interaction env = (\<lambda>(s, k).
     let s = s\<lparr>rng_reg_handle := [(OS_FN_OPEN, Rng_test_open), (OS_FN_IOCTL, Rng_test_ioctl),
                (OS_FN_CLOSE, Rng_test_release)]\<rparr>
     in case on_kworld (os_driver_complete_registration (rng_os env) (rng_reg_handle s) (rng_test_major_node s)) k of
          (code, k) \<Rightarrow>
            if code \<noteq> OS_ERROR_OK_S (rng_os env) then (code, s, k)
            else (code, s\<lparr>rng_device_registered := True\<rparr>, k))"

definition rng_test_init :: "('u, 'w) rng_env \<Rightarrow> rng_test \<times> 'w kern \<Rightarrow> int \<times> rng_test \<times> 'w kern" where
  "rng_test_init env = rng_test_setup_user_driver_interaction env"

definition rng_test_cleanup :: "('u, 'w) rng_env \<Rightarrow> rng_test \<times> 'w kern \<Rightarrow> int \<times> rng_test \<times> 'w kern" where
  "rng_test_cleanup env = (\<lambda>(s, k).
     if rng_device_registered s
     then (case on_kworld (os_driver_remove_registration (rng_os env) (rng_reg_handle s)) k of
             (code, k) \<Rightarrow> (code, s\<lparr>rng_device_registered := False\<rparr>, k))
     else (OS_ERROR_OK_S (rng_os env), s, k))"


subsection \<open>Open and close\<close>

definition rng_test_open :: "('u, 'w) rng_env \<Rightarrow> 'u option \<Rightarrow> 'w kern \<Rightarrow> int \<times> 'u option \<times> 'w kern" where
  "rng_test_open env private k =
     (case kmalloc k of (ok, k) \<Rightarrow>
        if \<not> ok then (OS_ERROR_NO_MEMORY_S (rng_os env), private, k)
        else case on_kworld (fsl_shw_register_user env (fsl_shw_uco_init env 20)) k of ((ret, user_ctx), k) \<Rightarrow>
          if ret \<noteq> FSL_RETURN_OK_S env then (OS_ERROR_FAIL_S (rng_os env), private, k)
          else (OS_ERROR_OK_S (rng_os env), Some user_ctx, k))"

definition rng_test_release :: "('u, 'w) rng_env \<Rightarrow> 'u option \<Rightarrow> 'w kern \<Rightarrow> int \<times> 'u option \<times> 'w kern" where
  "rng_test_release env private k =
     (case private of
        None \<Rightarrow> (OS_ERROR_OK_S (rng_os env), None, k)
      | Some user_ctx \<Rightarrow>
          (case on_kworld (fsl_shw_deregister_user env user_ctx) k of (_, k) \<Rightarrow>
             (OS_ERROR_OK_S (rng_os env), None, kfree k)))"


subsection \<open>Random data and entropy\<close>

text \<open>Stores through a pointer that may be null.\<close>

definition write_buffer :: "u8 list \<Rightarrow> u8 list option \<Rightarrow> u8 list option option" where
  "write_buffer bytes buf =
     (case buf of
        None \<Rightarrow> if bytes = [] then Some None else None
      | Some area \<Rightarrow> map_option Some (write_area 0 bytes area))"

definition read_buffer :: "nat \<Rightarrow> u8 list option \<Rightarrow> u8 list option" where
  "read_buffer n buf = (case buf of None \<Rightarrow> if n = 0 then Some [] else None | Some area \<Rightarrow> read_area 0 n area)"

text \<open>The buffer has \<open>count_bytes\<close> bytes; random data is asked for in whole words.\<close>

definition rng_count_words :: "u32 \<Rightarrow> u32" where
  "rng_count_words count_bytes = (count_bytes + 4 - 1) div 4"

definition rng_test_get_random :: "('u, 'w) rng_env \<Rightarrow> 'u \<Rightarrow> u32 \<Rightarrow> 'w kern \<Rightarrow> (int \<times> 'u \<times> 'w kern) option" where
  "rng_test_get_random env user_ctx rng_data k =
     (case copy_from_user (u_get_random env) rng_data k of (n, get_struct) \<Rightarrow>
      if os_copy_code (rng_os env) n \<noteq> 0 then Some (OS_ERROR_BAD_ADDRESS_S (rng_os env), user_ctx, k)
      else
        case kmalloc_area (gr_count_bytes get_struct) k of (data_buffer, k) \<Rightarrow>
        let count_words = rng_count_words (gr_count_bytes get_struct) in
        case on_kworld (fsl_shw_get_random env user_ctx (4 * count_words)) k of ((rng_return, bytes, user_ctx), k) \<Rightarrow> do {
          data_buffer \<leftarrow> write_buffer bytes data_buffer;
          case copy_to_user (u_get_random env) rng_data (get_struct\<lparr>gr_return_code := rng_return\<rparr>) k of (n, k) \<Rightarrow> do {
            (code, k) \<leftarrow>
              (if rng_return = RNG_RET_OK env
               then do {
                 result \<leftarrow> read_buffer (unat (gr_count_bytes get_struct)) data_buffer;
                 case copy_bytes_to_user (u_rng_bytes env) (gr_random get_struct) result k of
                   (n, k) \<Rightarrow> Some (os_copy_code (rng_os env) n, k)
               }
               else Some (os_copy_code (rng_os env) n, k));
            Some (code, user_ctx, if data_buffer \<noteq> None then kfree k else k)
          }
        })"

text \<open>The address of the user's entropy is not used.\<close>

definition rng_test_add_entropy :: "('u, 'w) rng_env \<Rightarrow> 'u \<Rightarrow> u32 \<Rightarrow> 'w kern \<Rightarrow> int \<times> 'u \<times> 'w kern" where
  "rng_test_add_entropy env user_ctx rng_data k =
     (case copy_from_user (u_add_entropy env) rng_data k of (n, add_struct) \<Rightarrow>
      if os_copy_code (rng_os env) n \<noteq> 0 then (os_copy_code (rng_os env) n, user_ctx, k)
      else case kmalloc_area (ae_count_bytes add_struct) k of
          (None, k) \<Rightarrow> (OS_ERROR_NO_MEMORY_S (rng_os env), user_ctx, k)
        | (Some entropy, k) \<Rightarrow>
            (case on_kworld (fsl_shw_add_entropy env user_ctx (ae_count_bytes add_struct) entropy) k of
               ((ret, user_ctx), k) \<Rightarrow>
                 case copy_to_user (u_add_entropy env) rng_data (add_struct\<lparr>ae_return_code := ret\<rparr>) k of
                   (n, k) \<Rightarrow> (os_copy_code (rng_os env) n, user_ctx, kfree k)))"


subsection \<open>Registers\<close>

definition rng_test_read_register :: "('u, 'w) rng_env \<Rightarrow> u32 \<Rightarrow> 'w kern \<Rightarrow> int \<times> 'w kern" where
  "rng_test_read_register env rng_data k =
     (case copy_from_user (u_rng_reg env) rng_data k of (n, reg_struct) \<Rightarrow>
      if os_copy_code (rng_os env) n \<noteq> OS_ERROR_OK_S (rng_os env) then (os_copy_code (rng_os env) n, k)
      else case on_kworld (rng_read_register env (rr_reg_offset reg_struct) (rr_reg_data reg_struct)) k of
        ((rng_return, v), k) \<Rightarrow>
          case copy_to_user (u_rng_reg env) rng_data (reg_struct\<lparr>rr_reg_data := v, rr_return_code := rng_return\<rparr>) k of
            (n, k) \<Rightarrow> (os_copy_code (rng_os env) n, k))"

definition rng_test_write_register :: "('u, 'w) rng_env \<Rightarrow> u32 \<Rightarrow> 'w kern \<Rightarrow> int \<times> 'w kern" where
  "rng_test_write_register env rng_data k =
     (case copy_from_user (u_rng_reg env) rng_data k of (n, reg_struct) \<Rightarrow>
      if os_copy_code (rng_os env) n \<noteq> OS_ERROR_OK_S (rng_os env) then (os_copy_code (rng_os env) n, k)
      else case on_kworld (rng_write_register env (rr_reg_offset reg_struct) (rr_reg_data reg_struct)) k of
        (rng_return, k) \<Rightarrow>
          case copy_to_user (u_rng_reg env) rng_data (reg_struct\<lparr>rr_return_code := rng_return\<rparr>) k of
            (n, k) \<Rightarrow> (os_copy_code (rng_os env) n, k))"


subsection \<open>Dispatch\<close>

definition rng_test_ioctl :: "('u, 'w) rng_env \<Rightarrow> u32 \<Rightarrow> u32 \<Rightarrow> 'u option \<Rightarrow> 'w kern \<Rightarrow> (int \<times> 'u option \<times> 'w kern) option" where
  "rng_test_ioctl env cmd arg private k =
     (if cmd = RNG_TEST_GET_RANDOM
      then (case private of
              None \<Rightarrow> Some (OS_ERROR_FAIL_S (rng_os env), private, k)
            | Some user_ctx \<Rightarrow> map_option (\<lambda>(code, ctx, k). (code, Some ctx, k)) (rng_test_get_random env user_ctx arg k))
      else if cmd = RNG_TEST_ADD_ENTROPY
      then (case private of
              None \<Rightarrow> Some (OS_ERROR_FAIL_S (rng_os env), private, k)
            | Some user_ctx \<Rightarrow> (case rng_test_add_entropy env user_ctx arg k of (code, ctx, k) \<Rightarrow> Some (code, Some ctx, k)))
      else if cmd = RNG_TEST_READ_REG
      then (case rng_test_read_register env arg k of (code, k) \<Rightarrow> Some (code, private, k))
      else if cmd = RNG_TEST_WRITE_REG
      then (case rng_test_write_register env arg k of (code, k) \<Rightarrow> Some (code, private, k))
      else Some (OS_ERROR_FAIL_S (rng_os env), private, k))"

section \<open>Open files\<close>

lemma rng_get_random_klive:
  assumes "rng_test_get_random env ctx a k = Some (code, ctx', k')"
  shows "klive k' = klive k"
  using assms
  by (auto simp: rng_test_get_random_def kmalloc_area_def kmalloc_def on_kworld_def write_buffer_def copy_to_user_def
      copy_bytes_to_user_def kfree_def Let_def split: prod.splits if_splits bind_splits option.splits)

lemma rng_add_entropy_klive:
  assumes "rng_test_add_entropy env ctx a k = (code, ctx', k')"
  shows "klive k' = klive k"
  using assms
  by (auto simp: rng_test_add_entropy_def kmalloc_area_def kmalloc_def on_kworld_def copy_to_user_def kfree_def
      split: prod.splits if_splits option.splits)

lemma rng_registers_klive:
  "klive (snd (rng_test_read_register env a k)) = klive k" "klive (snd (rng_test_write_register env a k)) = klive k"
  by (auto simp: rng_test_read_register_def rng_test_write_register_def on_kworld_def copy_to_user_def split: prod.splits)

text \<open>A request on an open file, with whatever happens to the world in between.\<close>

inductive rng_step :: "('u, 'w) rng_env \<Rightarrow> 'u option \<times> 'w kern \<Rightarrow> 'u option \<times> 'w kern \<Rightarrow> bool" for env where
  rng_request: "rng_test_ioctl env cmd a p k = Some (code, p', k') \<Longrightarrow> rng_step env (p, k) (p', k')"
| rng_world: "rng_step env (p, k) (p, k\<lparr>kworld := w\<rparr>)"

inductive_cases rng_stepE: "rng_step env (p, k) q"

lemma rng_ioctl_keeps:
  assumes "rng_test_ioctl env cmd a p k = Some (code, p', k')"
  shows "klive k' = klive k \<and> (p' = None \<longleftrightarrow> p = None)"
  using assms rng_registers_klive [of env a k]
  by (auto simp: rng_test_ioctl_def split: if_splits option.splits prod.splits
      dest: rng_get_random_klive rng_add_entropy_klive)

lemma rng_steps_keep:
  assumes "(rng_step env)\<^sup>*\<^sup>* (p, k) (p', k')"
  shows "klive k' = klive k \<and> (p' = None \<longleftrightarrow> p = None)"
  using assms
  by (induction rule: rtranclp_induct2) (auto elim!: rng_stepE dest: rng_ioctl_keeps)


text \<open>When the user cannot be registered, opening fails but keeps the context it allocated: the file has
  no private data, so the close does not free it.\<close>

theorem rng_open_leaks:
  assumes "\<not> k_alloc_fails k (calls k)"
    and "fsl_shw_register_user env (fsl_shw_uco_init env 20) (kworld k) = ((ret, ctx), w)" and "ret \<noteq> FSL_RETURN_OK_S env"
  shows "\<exists>k'. rng_test_open env None k = (OS_ERROR_FAIL_S (rng_os env), None, k') \<and> klive k' = klive k + 1
    \<and> klive (snd (snd (rng_test_release env None k'))) = klive k + 1"
  using assms by (simp add: rng_test_open_def rng_test_release_def kmalloc_def on_kworld_def)


section \<open>Random data and entropy\<close>

lemma word_div4:
  assumes "c \<le> 0xFFFFFFFC"
  shows "unat (4 * rng_count_words c) = 4 * ((unat c + 3) div 4)"
proof -
  have c: "unat c \<le> 4294967292" using assms by (simp add: word_le_nat_alt)
  have "unat (c + 4 - 1) = unat c + 3"
  proof -
    have "c + 4 - 1 = c + 3" by simp
    then show ?thesis using c by (simp only: unat_word_ariths) simp
  qed
  then have "unat (rng_count_words c) = (unat c + 3) div 4" by (simp add: rng_count_words_def unat_div)
  moreover have "(unat c + 3) div 4 \<le> 1073741823" using c by linarith
  ultimately show ?thesis by (simp add: unat_word_ariths)
qed

lemma words_fit_iff: "4 * ((n + 3) div 4) \<le> n \<longleftrightarrow> n mod 4 = 0" for n :: nat
  by presburger

text \<open>C20: A request for random data stays inside its buffer exactly when the number of bytes is a multiple of
  4: the buffer has that many bytes, but whole words are asked for. When it is, and user memory can be
  accessed, the data reaches the user byte for byte. (The RNG delivers as many bytes as it is asked for.)\<close>

theorem rng_get_random_exact:
  assumes "from_user (u_get_random env) a (kworld k) = (0, gs)" and "os_copy_code (rng_os env) 0 = 0"
    and "\<not> k_alloc_fails k (calls k)" and "gr_count_bytes gs \<le> 0xFFFFFFFC"
    and "fsl_shw_get_random env ctx (4 * rng_count_words (gr_count_bytes gs)) (kworld k) = ((RNG_RET_OK env, bytes, ctx'), w1)"
    and "length bytes = unat (4 * rng_count_words (gr_count_bytes gs))"
    and "to_user (u_get_random env) a (gs\<lparr>gr_return_code := RNG_RET_OK env\<rparr>) w1 = (0, w2)"
    and "bytes_to_user (u_rng_bytes env) (gr_random gs) bytes w2 = (0, w3)"
  shows "if unat (gr_count_bytes gs) mod 4 = 0
    then \<exists>k'. rng_test_get_random env ctx a k = Some (0, ctx', k') \<and> kworld k' = w3 \<and> klive k' = klive k
    else rng_test_get_random env ctx a k = None"
proof -
  let ?n = "unat (gr_count_bytes gs)" and ?buf = "fresh_area (gr_count_bytes gs) k"
  have len: "length bytes = 4 * ((?n + 3) div 4)" using assms(6) word_div4 [OF assms(4)] by simp
  show ?thesis
  proof (cases "?n mod 4 = 0")
    case True
    then have "length bytes = ?n" using len words_fit_iff [of ?n] by linarith
    then have "write_area 0 bytes ?buf = Some bytes" "read_area 0 ?n bytes = Some bytes"
      by (simp_all add: write_area_def read_area_def)
    with True assms show ?thesis
      by (simp add: rng_test_get_random_def copy_from_user_def kmalloc_area_def kmalloc_def on_kworld_def write_buffer_def
          read_buffer_def copy_to_user_def copy_bytes_to_user_def kfree_def Let_def)
  next
    case False
    then have "\<not> length bytes \<le> ?n" using len words_fit_iff [of ?n] by simp
    then have "write_area 0 bytes ?buf = None" by (simp add: write_area_def)
    with False assms show ?thesis
      by (simp add: rng_test_get_random_def copy_from_user_def kmalloc_area_def kmalloc_def on_kworld_def write_buffer_def Let_def)
  qed
qed

text \<open>The entropy a user adds is not the user's: the RNG gets what the fresh buffer happens to hold,
  whatever address the request gives.\<close>

theorem rng_add_entropy_ignores_user:
  assumes "from_user (u_add_entropy env) a (kworld k) = (0, ae)" and "os_copy_code (rng_os env) 0 = 0"
    and "\<not> k_alloc_fails k (calls k)"
    and "fsl_shw_add_entropy env ctx (ae_count_bytes ae) (fresh_area (ae_count_bytes ae) k) (kworld k) = ((ret, ctx'), w1)"
    and "to_user (u_add_entropy env) a (ae\<lparr>ae_return_code := ret\<rparr>) w1 = (0, w2)"
  shows "\<exists>k'. rng_test_add_entropy env ctx a k = (0, ctx', k') \<and> kworld k' = w2"
  using assms
  by (simp add: rng_test_add_entropy_def copy_from_user_def kmalloc_area_def kmalloc_def on_kworld_def copy_to_user_def kfree_def)


section \<open>A driver to evaluate with\<close>

record rng_world =
  m_entropy :: "u32 \<Rightarrow> rng_test_add_entropy_t"
  m_random :: "u32 \<Rightarrow> rng_test_get_random_t"
  m_rng_reg :: "u32 \<Rightarrow> rng_test_reg_access_t"
  m_rng_bytes :: "u32 \<Rightarrow> u8"
  rng_pool :: "u8 list"

definition demo_rng_env :: "(nat, rng_world) rng_env" where
  "demo_rng_env = \<lparr>rng_os = \<lparr>OS_ERROR_OK_S = 0, OS_ERROR_FAIL_S = -1, OS_ERROR_NO_MEMORY_S = -12, OS_ERROR_BAD_ADDRESS_S = -14,
       os_copy_code = (\<lambda>n. if n = 0 then 0 else -14),
       os_driver_complete_registration = (\<lambda>_ _ w. (0, w)), os_driver_remove_registration = (\<lambda>_ w. (0, w))\<rparr>,
     u_add_entropy = map_access m_entropy m_entropy_update, u_get_random = map_access m_random m_random_update,
     u_rng_reg = map_access m_rng_reg m_rng_reg_update, u_rng_bytes = byte_access m_rng_bytes m_rng_bytes_update,
     FSL_RETURN_OK_S = 0, RNG_RET_OK = 0, fsl_shw_uco_init = id,
     fsl_shw_register_user = (\<lambda>u w. ((0, u), w)), fsl_shw_deregister_user = (\<lambda>_ w. (0, w)),
     fsl_shw_get_random = (\<lambda>u n w. ((0, replicate (unat n) 7, u), w)),
     fsl_shw_add_entropy = (\<lambda>u _ bs w. ((0, u), w\<lparr>rng_pool := bs\<rparr>)),
     rng_read_register = (\<lambda>_ _ w. ((0, 5), w)), rng_write_register = (\<lambda>_ _ w. (0, w))\<rparr>"

definition demo_rng_world :: rng_world where
  "demo_rng_world = \<lparr>m_entropy = (\<lambda>_. \<lparr>ae_return_code = 1, ae_count_bytes = 2, ae_entropy = 0x4000\<rparr>),
     m_random = (\<lambda>a. \<lparr>gr_count_bytes = a, gr_random = 0x5000, gr_isr_flag = 0, gr_return_code = 1\<rparr>),
     m_rng_reg = (\<lambda>_. \<lparr>rr_reg_offset = 0, rr_reg_data = 0, rr_return_code = 0\<rparr>), m_rng_bytes = (\<lambda>_. 0x42), rng_pool = []\<rparr>"

lemmas demo_rng = demo_rng_env_def demo_rng_world_def demo_kern_def map_access_def byte_access_def


theorem rng_open_leaks_witness:
  "\<exists>k'. rng_test_open (demo_rng_env\<lparr>FSL_RETURN_OK_S := 1\<rparr>) None (demo_kern demo_rng_world)
      = (OS_ERROR_FAIL_S (rng_os (demo_rng_env\<lparr>FSL_RETURN_OK_S := 1\<rparr>)), None, k') \<and> klive k' = klive (demo_kern demo_rng_world) + 1
    \<and> klive (snd (snd (rng_test_release (demo_rng_env\<lparr>FSL_RETURN_OK_S := 1\<rparr>) None k'))) = klive (demo_kern demo_rng_world) + 1"
  by (rule rng_open_leaks [where ret = 0 and ctx = 20 and w = demo_rng_world]) (simp_all add: demo_rng_env_def demo_kern_def)

theorem rng_get_random_exact_witness:
  "rng_test_get_random demo_rng_env 20 6 (demo_kern demo_rng_world) = None"
proof -
  let ?gs = "m_random demo_rng_world 6"
  have "unat (4 * rng_count_words 6) = 8" "unat (gr_count_bytes ?gs) mod 4 = 2"
    by (code_simp, simp add: demo_rng_world_def)
  moreover have "rng_count_words 6 = 2" by code_simp
  ultimately show ?thesis
    using rng_get_random_exact [of demo_rng_env 6 "demo_kern demo_rng_world" ?gs 20 "replicate 8 7" 20 demo_rng_world
        "demo_rng_world\<lparr>m_random := (m_random demo_rng_world)(6 := ?gs\<lparr>gr_return_code := 0\<rparr>)\<rparr>"]
    by (simp add: demo_rng)
qed

theorem rng_add_entropy_ignores_user_witness:
  "\<exists>k'. rng_test_add_entropy demo_rng_env 20 0 (demo_kern demo_rng_world) = (0, 20, k') \<and> rng_pool (kworld k') = [0xAA, 0xAA]"
proof -
  let ?ae = "m_entropy demo_rng_world 0"
  have f: "fresh_area 2 (demo_kern demo_rng_world) = [0xAA, 0xAA]" by (simp add: fresh_area_def demo_kern_def upt_rec)
  have c: "ae_count_bytes ?ae = 2" "?ae = m_entropy demo_rng_world 0" by (simp_all add: demo_rng_world_def)
  have w: "kworld (demo_kern demo_rng_world) = demo_rng_world" by (simp add: demo_kern_def)
  have "fsl_shw_add_entropy demo_rng_env 20 (ae_count_bytes ?ae) (fresh_area (ae_count_bytes ?ae) (demo_kern demo_rng_world))
      (kworld (demo_kern demo_rng_world)) = ((0, 20), demo_rng_world\<lparr>rng_pool := [0xAA, 0xAA]\<rparr>)"
    unfolding c(1) f w by (simp add: demo_rng_env_def)
  then have "\<exists>k'. rng_test_add_entropy demo_rng_env 20 0 (demo_kern demo_rng_world) = (0, 20, k')
     \<and> kworld k' = m_entropy_update (\<lambda>m. m(0 := ?ae\<lparr>ae_return_code := 0\<rparr>)) (demo_rng_world\<lparr>rng_pool := [0xAA, 0xAA]\<rparr>)"
    by (intro rng_add_entropy_ignores_user [where ae = ?ae and ret = 0 and ?w1.0 = "demo_rng_world\<lparr>rng_pool := [0xAA, 0xAA]\<rparr>"])
      (simp_all add: demo_rng_env_def map_access_def w, simp_all add: demo_kern_def)
  then show ?thesis by auto
qed

end
