(* ===== verification/SpdcDriver.thy ===== *)
theory SpdcDriver
  imports Kernel
begin

text \<open>
  The test driver of the SPDC frame buffer: \<open>module_test/spdc_test_driver.c\<close>.

  The frame buffer driver and its structures (\<open>linux/mxcfb.h\<close>, \<open>linux/mxcfb_epdc_kernel.h\<close>, not part of the
  repository) are the record \<open>spdc_env\<close>, with the numbers of the commands. \<open>get_user\<close> and \<open>put_user\<close> fail with
  a number other than 0.
\<close>

section \<open>The driver under test and the driver's state\<close>

record ('m, 'd, 'e, 'w) spdc_env =
  MXCFB_SET_WAVEFORM_MODES :: u32
  MXCFB_SET_TEMPERATURE :: u32
  MXCFB_SET_AUTO_UPDATE_MODE :: u32
  MXCFB_SET_UPDATE_SCHEME :: u32
  MXCFB_SEND_UPDATE :: u32
  MXCFB_WAIT_FOR_UPDATE_COMPLETE :: u32
  MXCFB_SET_PWRDOWN_DELAY :: u32
  MXCFB_GET_PWRDOWN_DELAY :: u32
  u_modes :: "('m, 'w) uaccess"
  u_update :: "('d, 'w) uaccess"
  u_marker :: "('e, 'w) uaccess"
  u_user_word :: "(u32, 'w) uaccess"
  spdc_try_module_get :: "'w \<Rightarrow> bool"
  mxc_spdc_fb_set_waveform_modes :: "'m \<Rightarrow> 'w \<Rightarrow> unit \<times> 'w"
  mxc_spdc_fb_set_temperature :: "int \<Rightarrow> 'w \<Rightarrow> int \<times> 'w"
  mxc_spdc_fb_set_auto_update :: "u32 \<Rightarrow> 'w \<Rightarrow> int \<times> 'w"
  mxc_spdc_fb_set_upd_scheme :: "u32 \<Rightarrow> 'w \<Rightarrow> int \<times> 'w"
  mxc_spdc_fb_send_update :: "'d \<Rightarrow> 'w \<Rightarrow> (int \<times> 'd) \<times> 'w"
  mxc_spdc_fb_wait_update_complete :: "'e \<Rightarrow> 'w \<Rightarrow> (int \<times> 'e) \<times> 'w"
  mxc_spdc_fb_set_pwrdown_delay :: "int \<Rightarrow> 'w \<Rightarrow> int \<times> 'w"
  mxc_spdc_get_pwrdown_delay :: "'w \<Rightarrow> int \<times> 'w"

record spdc_test =
  gMajor :: int
  spdc_tm_class :: int
  spdc_module_refs :: int

definition spdc_commands :: "('m, 'd, 'e, 'w) spdc_env \<Rightarrow> u32 list" where
  "spdc_commands env = [MXCFB_SET_WAVEFORM_MODES env, MXCFB_SET_TEMPERATURE env, MXCFB_SET_AUTO_UPDATE_MODE env,
     MXCFB_SET_UPDATE_SCHEME env, MXCFB_SEND_UPDATE env, MXCFB_WAIT_FOR_UPDATE_COMPLETE env,
     MXCFB_SET_PWRDOWN_DELAY env, MXCFB_GET_PWRDOWN_DELAY env]"


section \<open>Operations\<close>

definition spdc_test_open :: "('m, 'd, 'e, 'w) spdc_env \<Rightarrow> spdc_test \<times> 'w kern \<Rightarrow> int \<times> spdc_test \<times> 'w kern" where
  "spdc_test_open env = (\<lambda>(s, k).
     (0, if spdc_try_module_get env (kworld k) then s\<lparr>spdc_module_refs := spdc_module_refs s + 1\<rparr> else s, k))"

definition spdc_test_release :: "spdc_test \<times> 'w kern \<Rightarrow> int \<times> spdc_test \<times> 'w kern" where
  "spdc_test_release = (\<lambda>(s, k). (0, s\<lparr>spdc_module_refs := spdc_module_refs s - 1\<rparr>, k))"

text \<open>The commands that read one word and hand it on: \<open>-EINVAL\<close> when it cannot be read.\<close>

definition spdc_word_command :: "('m, 'd, 'e, 'w) spdc_env \<Rightarrow> (u32 \<Rightarrow> 'w \<Rightarrow> int \<times> 'w) \<Rightarrow> u32 \<Rightarrow> 'w kern \<Rightarrow> int \<times> 'w kern" where
  "spdc_word_command env f arg k =
     (case copy_from_user (u_user_word env) arg k of (n, v) \<Rightarrow> if n = 0 then on_kworld (f v) k else (- EINVAL, k))"

definition spdc_test_ioctl :: "('m, 'd, 'e, 'w) spdc_env \<Rightarrow> u32 \<Rightarrow> u32 \<Rightarrow> 'w kern \<Rightarrow> int \<times> 'w kern" where
  "spdc_test_ioctl env cmd arg k =
     (if cmd = MXCFB_SET_WAVEFORM_MODES env
      then (case copy_from_user (u_modes env) arg k of (n, modes) \<Rightarrow>
              if n = 0 then (case on_kworld (mxc_spdc_fb_set_waveform_modes env modes) k of (_, k) \<Rightarrow> (0, k))
              else (- EINVAL, k))
      else if cmd = MXCFB_SET_TEMPERATURE env
      then spdc_word_command env (\<lambda>v. mxc_spdc_fb_set_temperature env (sint v)) arg k
      else if cmd = MXCFB_SET_AUTO_UPDATE_MODE env
      then spdc_word_command env (mxc_spdc_fb_set_auto_update env) arg k
      else if cmd = MXCFB_SET_UPDATE_SCHEME env
      then spdc_word_command env (mxc_spdc_fb_set_upd_scheme env) arg k
      else if cmd = MXCFB_SEND_UPDATE env
      then (case copy_from_user (u_update env) arg k of (n, upd_data) \<Rightarrow>
              if n = 0
              then (case on_kworld (mxc_spdc_fb_send_update env upd_data) k of ((ret, upd_data), k) \<Rightarrow>
                      if ret = 0
                      then (case copy_to_user (u_update env) arg upd_data k of (m, k) \<Rightarrow>
                              (if m \<noteq> 0 then - EFAULT else ret, k))
                      else (ret, k))
              else (- EFAULT, k))
      else if cmd = MXCFB_WAIT_FOR_UPDATE_COMPLETE env
      then (case copy_from_user (u_marker env) arg k of (n, upd_marker_data) \<Rightarrow>
              if n = 0
              then (case on_kworld (mxc_spdc_fb_wait_update_complete env upd_marker_data) k of ((ret, upd_marker_data), k) \<Rightarrow>
                      case copy_to_user (u_marker env) arg upd_marker_data k of (m, k) \<Rightarrow>
                        (if m \<noteq> 0 then - EFAULT else ret, k))
              else (- EFAULT, k))
      else if cmd = MXCFB_SET_PWRDOWN_DELAY env
      then spdc_word_command env (\<lambda>v. mxc_spdc_fb_set_pwrdown_delay env (sint v)) arg k
      else if cmd = MXCFB_GET_PWRDOWN_DELAY env
      then (case on_kworld (mxc_spdc_get_pwrdown_delay env) k of (pwrdown_delay, k) \<Rightarrow>
              case copy_to_user (u_user_word env) arg (of_int pwrdown_delay) k of (m, k) \<Rightarrow>
                let ret = (if m \<noteq> 0 then - EFAULT else - EINVAL); ret = 0 in (ret, k))
      else (- EINVAL, k))"

definition spdc_test_init_module :: "spdc_test \<times> 'w kern \<Rightarrow> int \<times> spdc_test \<times> 'w kern" where
  "spdc_test_init_module = (\<lambda>(s, k).
     case register_chrdev 0 k of (error, k) \<Rightarrow>
     if error < 0 then (error, s, k)
     else
       let s = s\<lparr>gMajor := error\<rparr> in
       case class_create k of (tm_class, k) \<Rightarrow>
       let s = s\<lparr>spdc_tm_class := tm_class\<rparr> in
       if tm_class < 0 then (tm_class, s, unregister_chrdev (gMajor s) k)
       else case device_create k of (temp_class, k) \<Rightarrow>
         if temp_class < 0 then (-1, s, unregister_chrdev (gMajor s) (class_destroy k))
         else (0, s, k))"

definition spdc_test_cleanup_module :: "spdc_test \<times> 'w kern \<Rightarrow> spdc_test \<times> 'w kern" where
  "spdc_test_cleanup_module = (\<lambda>(s, k).
     (s, class_destroy (device_destroy (unregister_chrdev (gMajor s) k))))"


section \<open>Properties\<close>

text \<open>C40: Loading the module registers a device number, a class and a device or returns a negative code and
  leaves nothing behind, and unloading takes back exactly what loading registered.\<close>

theorem spdc_init_cleanup:
  "case spdc_test_init_module (s, k) of (r, s', k') \<Rightarrow>
     (if r = 0
      then chrdevs k' = gMajor s' # chrdevs k \<and> classes k' = classes k + 1 \<and> devices k' = devices k + 1
        \<and> (\<forall>k2. chrdevs k2 = chrdevs k' \<and> classes k2 = classes k' \<and> devices k2 = devices k' \<longrightarrow>
             (case spdc_test_cleanup_module (s', k2) of (_, k3) \<Rightarrow>
                chrdevs k3 = chrdevs k \<and> classes k3 = classes k \<and> devices k3 = devices k))
      else r < 0 \<and> chrdevs k' = chrdevs k \<and> classes k' = classes k \<and> devices k' = devices k)"
  by (auto simp: spdc_test_init_module_def spdc_test_cleanup_module_def kern_defs Let_def split: prod.splits if_splits)

text \<open>What the driver answers when user memory at the argument cannot be accessed: \<open>-EFAULT\<close> for the two
  commands with an update, \<open>-EINVAL\<close> for the others and for unknown commands, without calling the frame buffer
  driver; but asking for the power-down delay returns 0 although nothing was delivered.\<close>

theorem spdc_ioctl_faults:
  fixes env :: "('m, 'd, 'e, 'w) spdc_env"
  assumes "distinct (spdc_commands env)"
    and "fst (from_user (u_modes env) arg (kworld k)) \<noteq> 0" and "fst (from_user (u_update env) arg (kworld k)) \<noteq> 0"
    and "fst (from_user (u_marker env) arg (kworld k)) \<noteq> 0" and "fst (from_user (u_user_word env) arg (kworld k)) \<noteq> 0"
    and "\<And>v w. \<exists>n. to_user (u_user_word env) arg v w = (n, w) \<and> n \<noteq> 0"
  shows "if cmd = MXCFB_GET_PWRDOWN_DELAY env
    then spdc_test_ioctl env cmd arg k = (0, snd (on_kworld (mxc_spdc_get_pwrdown_delay env) k))
    else spdc_test_ioctl env cmd arg k
      = (if cmd = MXCFB_SEND_UPDATE env \<or> cmd = MXCFB_WAIT_FOR_UPDATE_COMPLETE env then - EFAULT else - EINVAL, k)"
proof -
  have d: "MXCFB_GET_PWRDOWN_DELAY env \<notin> set (butlast (spdc_commands env))"
    "MXCFB_SEND_UPDATE env \<notin> {MXCFB_SET_WAVEFORM_MODES env, MXCFB_SET_TEMPERATURE env, MXCFB_SET_AUTO_UPDATE_MODE env, MXCFB_SET_UPDATE_SCHEME env}"
    "MXCFB_WAIT_FOR_UPDATE_COMPLETE env \<notin> {MXCFB_SET_WAVEFORM_MODES env, MXCFB_SET_TEMPERATURE env, MXCFB_SET_AUTO_UPDATE_MODE env, MXCFB_SET_UPDATE_SCHEME env}"
    using assms(1) by (auto simp: spdc_commands_def)
  obtain n1 m n2 u n3 e n4 v where f: "copy_from_user (u_modes env) arg k = (n1, m)" "copy_from_user (u_update env) arg k = (n2, u)"
    "copy_from_user (u_marker env) arg k = (n3, e)" "copy_from_user (u_user_word env) arg k = (n4, v)"
    by (metis prod.collapse)
  have n: "n1 \<noteq> 0" "n2 \<noteq> 0" "n3 \<noteq> 0" "n4 \<noteq> 0" using assms(2-5) f by (simp_all add: copy_from_user_def)
  show ?thesis
  proof (cases "cmd = MXCFB_GET_PWRDOWN_DELAY env")
    case True
    obtain delay w where g: "mxc_spdc_get_pwrdown_delay env (kworld k) = (delay, w)" by force
    obtain n5 where "to_user (u_user_word env) arg (of_int delay) w = (n5, w)" using assms(6) by blast
    then show ?thesis using True d(1) g
      by (simp add: spdc_test_ioctl_def spdc_commands_def on_kworld_def copy_to_user_def)
  next
    case False
    then show ?thesis using d(2,3) n by (simp add: spdc_test_ioctl_def spdc_word_command_def f)
  qed
qed

text \<open>Updates: the frame buffer driver gets the user's data and its answer is returned, and the data it
  leaves is stored back when the update was sent.\<close>

theorem spdc_send_update_functional:
  assumes "distinct (spdc_commands env)" and "from_user (u_update env) arg (kworld k) = (0, d)"
    and "mxc_spdc_fb_send_update env d (kworld k) = ((ret, d'), w1)"
  shows "spdc_test_ioctl env (MXCFB_SEND_UPDATE env) arg k
    = (if ret \<noteq> 0 then (ret, k\<lparr>kworld := w1\<rparr>)
       else case to_user (u_update env) arg d' w1 of (m, w2) \<Rightarrow> (if m = 0 then 0 else - EFAULT, k\<lparr>kworld := w2\<rparr>))"
proof -
  have "MXCFB_SEND_UPDATE env \<notin> {MXCFB_SET_WAVEFORM_MODES env, MXCFB_SET_TEMPERATURE env,
      MXCFB_SET_AUTO_UPDATE_MODE env, MXCFB_SET_UPDATE_SCHEME env}"
    using assms(1) by (auto simp: spdc_commands_def)
  then show ?thesis using assms(2,3)
    by (auto simp: spdc_test_ioctl_def copy_from_user_def on_kworld_def copy_to_user_def split: prod.split)
qed


section \<open>A driver to evaluate with\<close>

definition demo_spdc_env :: "(nat, nat, nat, u32 \<Rightarrow> u32) spdc_env" where
  "demo_spdc_env = \<lparr>MXCFB_SET_WAVEFORM_MODES = 1, MXCFB_SET_TEMPERATURE = 2, MXCFB_SET_AUTO_UPDATE_MODE = 3,
     MXCFB_SET_UPDATE_SCHEME = 4, MXCFB_SEND_UPDATE = 5, MXCFB_WAIT_FOR_UPDATE_COMPLETE = 6, MXCFB_SET_PWRDOWN_DELAY = 7,
     MXCFB_GET_PWRDOWN_DELAY = 8,
     u_modes = \<lparr>from_user = \<lambda>_ _. (4, 0), to_user = \<lambda>_ _ w. (4, w)\<rparr>,
     u_update = \<lparr>from_user = \<lambda>_ _. (4, 0), to_user = \<lambda>_ _ w. (4, w)\<rparr>,
     u_marker = \<lparr>from_user = \<lambda>_ _. (4, 0), to_user = \<lambda>_ _ w. (4, w)\<rparr>,
     u_user_word = \<lparr>from_user = \<lambda>_ _. (4, 0), to_user = \<lambda>_ _ w. (4, w)\<rparr>,
     spdc_try_module_get = (\<lambda>_. True), mxc_spdc_fb_set_waveform_modes = (\<lambda>_ w. ((), w)),
     mxc_spdc_fb_set_temperature = (\<lambda>_ w. (0, w)), mxc_spdc_fb_set_auto_update = (\<lambda>_ w. (0, w)),
     mxc_spdc_fb_set_upd_scheme = (\<lambda>_ w. (0, w)), mxc_spdc_fb_send_update = (\<lambda>d w. ((0, Suc d), w)),
     mxc_spdc_fb_wait_update_complete = (\<lambda>d w. ((0, d), w)), mxc_spdc_fb_set_pwrdown_delay = (\<lambda>_ w. (0, w)),
     mxc_spdc_get_pwrdown_delay = (\<lambda>w. (250, w))\<rparr>"

definition demo_spdc_test :: spdc_test where
  "demo_spdc_test = \<lparr>gMajor = 0, spdc_tm_class = 0, spdc_module_refs = 0\<rparr>"

theorem spdc_init_cleanup_witness:
  "\<exists>s' k'. spdc_test_init_module (demo_spdc_test, demo_kern ()) = (0, s', k')
     \<and> classes k' = 1 \<and> chrdevs (snd (spdc_test_cleanup_module (s', k'))) = []"
proof -
  obtain s' k' where i: "spdc_test_init_module (demo_spdc_test, demo_kern ()) = (0, s', k')"
    by (simp add: spdc_test_init_module_def kern_defs demo_kern_def)
  obtain s2 k3 where c: "spdc_test_cleanup_module (s', k') = (s2, k3)" by force
  have d: "chrdevs (demo_kern ()) = []" "classes (demo_kern ()) = 0" by (simp_all add: demo_kern_def)
  from spdc_init_cleanup [where s = demo_spdc_test and k = "demo_kern ()"] have r: "classes k' = 1"
    and "\<forall>k2. chrdevs k2 = chrdevs k' \<and> classes k2 = classes k' \<and> devices k2 = devices k' \<longrightarrow>
      (case spdc_test_cleanup_module (s', k2) of (_, k3) \<Rightarrow> chrdevs k3 = [])"
    by (auto simp: i d split: prod.splits)
  from this(2) [rule_format, of k'] have "chrdevs k3 = []" by (simp add: c)
  with i c r show ?thesis by auto
qed

theorem spdc_ioctl_faults_witness:
  "spdc_test_ioctl demo_spdc_env 8 0 (demo_kern (\<lambda>_. 0)) = (0, demo_kern (\<lambda>_. 0))"
proof -
  have "distinct (spdc_commands demo_spdc_env)" by (simp add: spdc_commands_def demo_spdc_env_def)
  from spdc_ioctl_faults [OF this, of 0 "demo_kern (\<lambda>_. 0)" 8] show ?thesis
    by (simp add: demo_spdc_env_def on_kworld_def demo_kern_def)
qed

theorem spdc_send_update_functional_witness:
  "spdc_test_ioctl (demo_spdc_env\<lparr>u_update := \<lparr>from_user = \<lambda>_ _. (0, 3), to_user = \<lambda>a v w. (0, w(a := of_nat v))\<rparr>\<rparr>) 5 16
     (demo_kern (\<lambda>_. 0)) = (0, (demo_kern (\<lambda>_. 0))\<lparr>kworld := (\<lambda>_. 0)(16 := 4)\<rparr>)"
proof -
  let ?env = "demo_spdc_env\<lparr>u_update := \<lparr>from_user = \<lambda>_ _. (0, 3), to_user = \<lambda>a v w. (0, w(a := of_nat v))\<rparr>\<rparr>"
  have "distinct (spdc_commands ?env)" by (simp add: spdc_commands_def demo_spdc_env_def)
  from spdc_send_update_functional [OF this, of 16 "demo_kern (\<lambda>_. 0)" 3 0 4 "\<lambda>_. 0"] show ?thesis
    by (simp add: demo_spdc_env_def demo_kern_def)
qed

end
