(* ===== verification/Headers.thy ===== *)
theory Headers
  imports Prelude "HOL-Library.Char_ord"
begin

text \<open>
  The headers of \<open>include/\<close> that are not a driver's: \<open>soc_check.h\<close>, the function the tests use to run only on
  certain chips, and \<open>dptc_daemon.h\<close>, the messages between the DPTC daemon and its user interface.
\<close>

section \<open>The chip check\<close>

text \<open>
  C strings are the characters in front of the terminating one. \<open>soc_id\<close> is the content of
  \<open>/sys/devices/soc0/soc_id\<close>, \<open>None\<close> when it cannot be opened. The list ends with an entry that begins
  with a blank; running past the end of a list without such an entry is \<open>None\<close>.
\<close>

definition LEN :: nat where "LEN = 10"

definition NUL :: char where "NUL = CHR 0x00"

definition first_char :: "string \<Rightarrow> char" where
  "first_char s = (case s of [] \<Rightarrow> NUL | c # _ \<Rightarrow> c)"

fun soc_list_loop :: "string \<Rightarrow> string list \<Rightarrow> string option" where
  "soc_list_loop name [] = None"
| "soc_list_loop name (entry # list) =
     (if first_char entry = CHR '' '' then Some entry
      else if name = entry then Some entry
      else soc_list_loop name list)"

definition soc_version_check :: "string option \<Rightarrow> string list \<Rightarrow> bool option" where
  "soc_version_check soc_id soc_name =
     (case soc_id of
        None \<Rightarrow> Some False
      | Some content \<Rightarrow>
          let name = take LEN content; ret = length name
          in if ret \<le> 0 then Some False
             else map_option (\<lambda>entry. first_char entry \<noteq> CHR '' '')
                    (soc_list_loop (takeWhile (\<lambda>c. c \<noteq> NUL) (name[ret - 1 := NUL])) soc_name))"

text \<open>The entries of a list in front of its terminator.\<close>

definition soc_entries :: "string list \<Rightarrow> string list" where
  "soc_entries = takeWhile (\<lambda>s. first_char s \<noteq> CHR '' '')"

lemma soc_list_loop_eq:
  "soc_list_loop name list =
     (if name \<in> set (soc_entries list) then Some name
      else case dropWhile (\<lambda>s. first_char s \<noteq> CHR '' '') list of [] \<Rightarrow> None | t # _ \<Rightarrow> Some t)"
  by (induction list) (auto simp: soc_entries_def)

lemma soc_entries_first: "name \<in> set (soc_entries list) \<Longrightarrow> first_char name \<noteq> CHR '' ''"
  by (auto simp: soc_entries_def dest: set_takeWhileD)

lemma takeWhile_update_last:
  assumes "NUL \<notin> set xs"
  shows "takeWhile (\<lambda>c. c \<noteq> NUL) ((xs @ [c])[length xs := NUL]) = xs"
  using assms by (induction xs) auto

lemma soc_version_check_name:
  assumes "take LEN content = xs @ [c]" and "NUL \<notin> set xs"
  shows "soc_version_check (Some content) list
    = map_option (\<lambda>entry. first_char entry \<noteq> CHR '' '') (soc_list_loop xs list)"
  using takeWhile_update_last [OF assms(2), of c] by (simp add: soc_version_check_def assms(1))

text \<open>The check decides membership: for a file that holds a name and a newline, the answer is whether
  the first nine characters of the name are one of the entries in front of the terminator, so names of up to
  nine characters are recognised exactly, and a longer one is taken for the entry that is its beginning.
  With no file, or an empty one, the answer is no.\<close>

theorem soc_version_check_decides:
  assumes "NUL \<notin> set name" and "soc_entries list \<noteq> list"
  shows "soc_version_check (Some (name @ ''\<newline>'')) list = Some (take 9 name \<in> set (soc_entries list))
    \<and> soc_version_check None list = Some False \<and> soc_version_check (Some '''') list = Some False"
proof -
  let ?n = "take 9 name"
  have "dropWhile (\<lambda>s. first_char s \<noteq> CHR '' '') list \<noteq> []"
    using assms(2) by (auto simp: soc_entries_def takeWhile_eq_all_conv dropWhile_eq_Nil_conv)
  then obtain t ts where t: "dropWhile (\<lambda>s. first_char s \<noteq> CHR '' '') list = t # ts"
    unfolding neq_Nil_conv by blast
  then have blank: "first_char t = CHR '' ''" using hd_dropWhile [of "\<lambda>s. first_char s \<noteq> CHR '' ''" list] by simp
  obtain c where c: "take LEN (name @ ''\<newline>'') = ?n @ [c]"
  proof (cases "length name \<le> 9")
    case True
    then have "take LEN (name @ ''\<newline>'') = ?n @ ''\<newline>''" by (simp add: LEN_def)
    with that show ?thesis by blast
  next
    case False
    then have "take LEN (name @ ''\<newline>'') = ?n @ [name ! 9]" by (simp add: LEN_def take_Suc_conv_app_nth eval_nat_numeral)
    with that show ?thesis by blast
  qed
  have "NUL \<notin> set ?n" using assms(1) by (auto dest: in_set_takeD)
  from soc_version_check_name [OF c this]
  have "soc_version_check (Some (name @ ''\<newline>'')) list = map_option (\<lambda>entry. first_char entry \<noteq> CHR '' '') (soc_list_loop ?n list)" .
  also have "\<dots> = Some (?n \<in> set (soc_entries list))"
    using soc_entries_first [of ?n list] by (auto simp: soc_list_loop_eq t blank)
  finally show ?thesis by (simp add: soc_version_check_def Let_def)
qed

theorem soc_version_check_decides_witness:
  "soc_version_check (Some ''i.MX8MQ\<newline>'') [''i.MX8MM'', ''i.MX8MQ'', '' ''] = Some True
   \<and> soc_version_check (Some ''i.MX93-EVK\<newline>'') [''i.MX93-EV'', '' ''] = Some True"
proof -
  have "NUL \<notin> set ''i.MX8MQ''" "soc_entries [''i.MX8MM'', ''i.MX8MQ'', '' ''] \<noteq> [''i.MX8MM'', ''i.MX8MQ'', '' '']"
    "NUL \<notin> set ''i.MX93-EVK''" "soc_entries [''i.MX93-EV'', '' ''] \<noteq> [''i.MX93-EV'', '' '']"
    by (code_simp, code_simp, code_simp, code_simp)
  from soc_version_check_decides [OF this(1,2)] soc_version_check_decides [OF this(3,4)] show ?thesis
    by (simp add: soc_entries_def first_char_def)
qed


text \<open>When the check returns at all. It fails to return, running past the list, exactly when the file has
  content, the name in it is no entry, and no entry of the list begins with a blank: a terminator is enough.\<close>

theorem soc_version_check_returns:
  "soc_version_check soc_id list = None \<longleftrightarrow>
     (case soc_id of
        None \<Rightarrow> False
      | Some content \<Rightarrow> content \<noteq> []
          \<and> takeWhile (\<lambda>c. c \<noteq> NUL) (take (min LEN (length content) - 1) content) \<notin> set list
          \<and> list_all (\<lambda>s. first_char s \<noteq> CHR '' '') list)"
proof (cases soc_id)
  case (Some content)
  let ?name = "take LEN content"
  have cut: "takeWhile (\<lambda>c. c \<noteq> NUL) (xs[length xs - 1 := NUL]) = takeWhile (\<lambda>c. c \<noteq> NUL) (take (length xs - 1) xs)"
    if "xs \<noteq> []" for xs
    using that by (cases xs rule: rev_cases) (auto simp: takeWhile_append intro: takeWhile_eq_all_conv [THEN iffD2, symmetric])
  have take: "take (length ?name - 1) ?name = take (min LEN (length content) - 1) content"
    by (cases "length content \<le> LEN") (simp_all add: min_def)
  have none: "soc_list_loop n list = None \<longleftrightarrow> n \<notin> set list \<and> list_all (\<lambda>s. first_char s \<noteq> CHR '' '') list" for n
    by (induction list) auto
  show ?thesis
  proof (cases "content = []")
    case False
    then have ne: "?name \<noteq> []" by (simp add: LEN_def)
    have "soc_version_check soc_id list = map_option (\<lambda>entry. first_char entry \<noteq> CHR '' '')
        (soc_list_loop (takeWhile (\<lambda>c. c \<noteq> NUL) (?name[length ?name - 1 := NUL])) list)"
      using ne unfolding Some soc_version_check_def Let_def by (simp del: length_take)
    then show ?thesis unfolding cut [OF ne] take using False by (simp add: Some none)
  qed (simp add: Some soc_version_check_def)
qed (simp add: soc_version_check_def)


section \<open>The messages of the DPTC daemon\<close>

record connection_param_s =
  socket :: int
  dptc_fd :: int
  log_fd :: int

datatype cmd_type_e = ENABLE_DPTC | DISABLE_DPTC | WRITE_TABLE | READ_TABLE | SET_FREQ | GET_FREQ | GET_STATE
  | GET_LOG | QUIT | ACK | NACK

fun cmd_code :: "cmd_type_e \<Rightarrow> int" where
  "cmd_code ENABLE_DPTC = 0"
| "cmd_code DISABLE_DPTC = 1"
| "cmd_code WRITE_TABLE = 2"
| "cmd_code READ_TABLE = 3"
| "cmd_code SET_FREQ = 4"
| "cmd_code GET_FREQ = 5"
| "cmd_code GET_STATE = 6"
| "cmd_code GET_LOG = 7"
| "cmd_code QUIT = 8"
| "cmd_code ACK = 98"
| "cmd_code NACK = 99"

record command_msg_s =
  cmd :: cmd_type_e
  param :: int
  msg_size :: int

record return_values_s =
  ret_msg :: command_msg_s
  ret_data :: u32

definition DEFAULT_PORT_NUMBER :: int where "DEFAULT_PORT_NUMBER = 3532"
definition BACKLOG :: int where "BACKLOG = 10"
definition MAX_NUM_OF_FREQS :: int where "MAX_NUM_OF_FREQS = 50"
definition MAX_NUM_OF_WP :: int where "MAX_NUM_OF_WP = 50"
definition INVALED_VALUE_ERR :: int where "INVALED_VALUE_ERR = -1"
definition DRIVER_ACCESS_ERR :: int where "DRIVER_ACCESS_ERR = -2"
definition INVLID_DRIVER_VALS_ERR :: int where "INVLID_DRIVER_VALS_ERR = -3"
definition MEM_ALLOC_ERR :: int where "MEM_ALLOC_ERR = -4"

lemma cmd_code_inj: "inj cmd_code"
proof (rule injI)
  show "x = y" if "cmd_code x = cmd_code y" for x y using that by (cases x; cases y) simp_all
qed

end
