(* ===== verification/Spec2Isabelle.thy ===== *)
theory Spec2Isabelle
  imports Bitstream CoreLinks Kmp Parsers Ivf Copying Memalloc SccDriver Scc2Driver RngDriver SpdcDriver Headers
begin

text \<open>
  imx-test: a verification development of the kernel test drivers and of the pipeline library.

  The repository holds the unit tests of the i.MX board support packages. Most of its programs drive one
  device node and keep no state. Two parts have logic of their own, and these are modelled here: the
  test drivers, kernel modules that let user space reach a hardware driver (\<open>module_test/\<close>, with
  their interface headers in \<open>include/\<close>), and \<open>pitcher\<close>, the library of queues, buffers, pipes,
  units and an event loop under the VPU tests (\<open>test/mxc_v4l2_vpu_test/pitcher/\<close>).

  Theories, and what they model.

  \<^item> \<open>Prelude\<close>: the types of machine words, collections of rewrite rules, lemmas on lists and words that
    several theories use.
  \<^item> \<open>Kernel\<close>: what the drivers use of Linux on a 32-bit ARM: error and ioctl numbers; \<open>kern\<close>, the
    services of the kernel, whose answers are parameters and which counts what is outstanding (allocations,
    DMA regions, device numbers, classes, devices); copies from and to user memory; kernel memory as areas
    of bytes with bounds; the portable OS layer; the locale \<open>reg_port\<close> of handlers that read and write
    registers.
  \<^item> \<open>Memalloc\<close>: \<open>module_test/memalloc.c\<close>, \<open>memalloc.h\<close>: buffers of DMA memory. The record \<open>memalloc\<close> is the
    module's variables; one definition for each function; \<open>memalloc_step\<close> is any request in any order.
  \<^item> \<open>SccDriver\<close>: \<open>module_test/scc_test_driver.c\<close>, \<open>include/scc_test_driver.h\<close>: twelve requests to the security
    controller. One definition for each handler; \<open>scc_test_cipher\<close> is split where the C function branches.
  \<^item> \<open>Scc2Driver\<close>: \<open>module_test/scc2_test_driver.c\<close>, \<open>include/scc2_test_driver.h\<close>: partitions, encrypted
    through a DMA region, under a mutex.
  \<^item> \<open>RngDriver\<close>: \<open>module_test/rng_test_driver.c\<close>, \<open>include/rng_test_driver.h\<close>: random data, with one context
    for each open file; \<open>rng_step\<close> is any request on an open file.
  \<^item> \<open>SpdcDriver\<close>: \<open>module_test/spdc_test_driver.c\<close>: requests to a frame buffer.
  \<^item> \<open>Headers\<close>: \<open>include/soc_check.h\<close>, the check for the chip, and \<open>include/dptc_daemon.h\<close>.
  \<^item> \<open>Bitstream\<close>: \<open>bitstream.c\<close>, \<open>bitstream.h\<close>, \<open>pitcher_def.h\<close>: the bit reader, Exp-Golomb codes, removal of
    emulation prevention bytes.
  \<^item> \<open>Queue\<close>: \<open>queue.c\<close> and the accounting of \<open>memory.c\<close>. \<open>Buffer\<close>: \<open>obj.c\<close>, \<open>buffer.c\<close>, counted references
    to buffers on an explicit heap. \<open>Pipe\<close>: \<open>pipe.c\<close>. \<open>PUnit\<close>: \<open>unit.c\<close>. \<open>Loop\<close>: \<open>loop.c\<close>.
  \<^item> \<open>Core\<close>: \<open>core.c\<close>, the channels and the pipelines they form, which use all of the above. \<open>CoreChannels\<close>:
    channel numbers and the list of channels. \<open>CoreRun\<close>: starting and draining a pipeline. \<open>CoreLinks\<close>: connecting
    and disconnecting.
  \<^item> \<open>Parse\<close>: \<open>parse.c\<close>, \<open>parse.h\<close>, how a file of compressed video is cut into frames: parsers and their lists of frames,
    string search, the scan for start codes. \<open>Kmp\<close>: the search is correct. \<open>Startcode\<close>: what the scan lists, and playing it
    back. \<open>Formats\<close>: the formats, \<open>h263_parse.c\<close>, \<open>jpeg_parse.c\<close>, \<open>mpegx_parse.c\<close>, \<open>h265_parse.c\<close>, \<open>vc1_parse.c\<close>,
    \<open>vpx_parse.c\<close>, \<open>vp6_parse.c\<close>. \<open>Split\<close>: what the formats with start codes share. \<open>Ivf\<close>: files with lengths. \<open>H264\<close>:
    \<open>h264_parse.c\<close>, parameter sets and slice headers, which need the bit reader. \<open>Parsers\<close>: the table of formats in \<open>parse.c\<close> and
    the choice of a parser.
  \<^item> \<open>Pixfmt\<close>: \<open>pixfmt.c\<close>, \<open>pixfmt.h\<close>: the table of pixel formats, its lookups, sizes of planes. \<open>Planes\<close>: the planes hold what
    is visible of a picture. \<open>Pixbuf\<close>: the planes of a buffer and copying from one to another, on the heap of \<open>Buffer\<close> with the bytes
    of the memory in which planes lie. \<open>Copying\<close>: what is copied.

  How state and effects are represented. A driver operation takes the driver's variables and the
  kernel and returns a code and both, updated. The hardware driver under test, user memory and the
  hardware are outside of the repository: the hardware driver is a record of functions (\<open>scc_env\<close> and so on)
  that act on a world, and a function that stores through pointers gets what they refer to and returns what it
  leaves there. An operation that could leave a kernel area, free what is not outstanding, or wait
  for a mutex it holds, returns an option, and \<open>None\<close> is that outcome. In the pipeline library, objects live on a
  heap from addresses to records, callbacks are parameters, and \<open>None\<close> is an access to what is not there, a
  failed assertion, or a loop that does not end.

  What the lemmas show. The memory driver refines a finite map from addresses to sizes
  (\<open>memalloc_refines_map\<close>); interleaved requests to the SCC2 driver refine serial ones
  (\<open>scc2_requests_serialise\<close>). For each driver: which requests there are and that others are refused; that
  memory, DMA regions, device numbers and the mutex are balanced over all paths of all requests
  (\<open>memalloc_books_balance\<close>, \<open>scc_ioctl_accounts\<close>, \<open>scc2_ioctl_balanced\<close>, \<open>rng_session_balanced\<close>,
  \<open>spdc_init_cleanup\<close>), and where they are not; what reaches the user and the hardware driver
  (\<open>scc_cipher_delivers\<close>, the round trips of registers, slots, partitions, regions and buffers); and the bounds of
  kernel areas, with the inputs for which they are left (\<open>scc_cipher_safe\<close>, \<open>scc_cipher_out_of_bounds\<close>,
  \<open>rng_get_random_exact\<close>). For the library: queues are first in, first out and leak nothing;
  references are counted exactly and a buffer lives as long as it is referenced; a pipe drops the
  configured fraction; a timer is never early; the cached bit reader is a plain bit reader. For the pipelines: the channels refine a
  finite map from numbers (\<open>chn_registry_is_map\<close>); starting is all or nothing; a channel stops only after those
  it feeds, and a pipeline without cycles whose channels have come to their end stops within as many calls of
  the timer task as there are channels (\<open>pipeline_drains\<close>). For the parsers: the scan refines a
  description of a file as units, each a frame with the headers in front of it (\<open>startcode_splits\<close>); no content of a
  file takes the scan out of it (\<open>startcode_parsers_cut\<close>, and \<open>pitcher_parse_cuts\<close> for the choice by format); what the library writes as an IVF file is read back
  (\<open>ivf_roundtrip\<close>); and pictures written as H.264 prescribes are found one by one (\<open>h264_pictures_found\<close>).
  For the pixel formats: names are read back (\<open>format_names_roundtrip\<close>), planes are large enough (\<open>pix_fmt_info_covers\<close>), and
  copying delivers every visible byte and nothing else (\<open>copy_buffer_exact\<close>).

  Interfaces. \<open>reg_port\<close> is the contract of a pair of register handlers, interpreted on those of the SCC and
  the SCC2 driver; \<open>fifo\<close>, \<open>buf_callbacks\<close>, \<open>unit_callbacks\<close> and \<open>queue_slot\<close> are those of the pipeline library,
  interpreted on its queues, buffers, units and event loop; \<open>unit_contract\<close> is what a pipeline relies on of its
  units, interpreted on units that act on the outside world only; \<open>frame_check\<close> is what the scan for start codes
  relies on of a format, interpreted on eight descriptions of start codes.

  Bounds. Addresses, sizes and \<open>unsigned long\<close> of the drivers are 32 bits wide and wrap around; the
  library is modelled with 64-bit addresses. Results of copies, counts of bytes, are converted to \<open>int\<close> as the code
  does. Loops are structural recursions, functions with a measure, or partial functions
  whose termination is a theorem where it is claimed. The one bound is in \<open>core_env\<close>, how deep calls of the operations of
  units and calls back into the interface may nest: the C functions are mutually recursive through function
  pointers, and the theorems hold in every environment they name, whatever the depth. Members of structures that are
  pointed to lie at their offsets on a 64-bit machine. Pictures are at most 8192 samples wide and high in \<open>pix_fmt_info_covers\<close>
  and \<open>copy_buffer_exact\<close>, so that no product of sizes wraps around; the definitions have no such bound.

  Not modelled. Printed messages and debugging code (\<open>SCC_DEBUG\<close>, \<open>SCC2_DEBUG\<close>, \<open>RNG_DEBUG\<close>); module parameters;
  concurrent execution other than that of the SCC2 driver's requests under their mutex (each request is atomic
  elsewhere; \<open>memalloc.c\<close> holds a spin lock in \<open>MapBuffer\<close> only, the other drivers take none). Of
  the pipeline library: the files that only drive devices, and the conversions through a graphics processor or between
  layouts of samples (\<open>convert.c\<close>, \<open>g2dcvt.c\<close>). The constants and the packing of codes in the headers of Linux are parameters of
  the table of pixel formats. The remaining programs under \<open>test/\<close> drive a single device and print.
\<close>

section \<open>The drivers side by side\<close>

lemma memalloc_cmd_values:
  "MEMALLOC_IOCXGETBUFFER = 0xC0046B01" "MEMALLOC_IOCSFREEBUFFER = 0x40046B02" "MEMALLOC_IOCHARDRESET = 0x6B03"
  by (code_simp, code_simp, code_simp)

text \<open>A request meant for one driver is not taken for one of another's. The SCC and the SCC2 driver, which
  have the same identifier, share exactly the four requests that mean the same to both;
  none of theirs is a request of the random number or the memory driver, nor are these each other's.\<close>

theorem driver_commands_separate:
  "set scc_commands \<inter> set scc2_commands = {SCC_TEST_GET_CONFIGURATION, SCC_TEST_READ_REG, SCC_TEST_WRITE_REG, SCC_TEST_SET_ALARM}
   \<and> (set scc_commands \<union> set scc2_commands)
       \<inter> {RNG_TEST_READ_REG, RNG_TEST_WRITE_REG, RNG_TEST_ADD_ENTROPY, RNG_TEST_GET_RANDOM,
          MEMALLOC_IOCXGETBUFFER, MEMALLOC_IOCSFREEBUFFER, MEMALLOC_IOCHARDRESET} = {}
   \<and> {RNG_TEST_READ_REG, RNG_TEST_WRITE_REG, RNG_TEST_ADD_ENTROPY, RNG_TEST_GET_RANDOM}
       \<inter> {MEMALLOC_IOCXGETBUFFER, MEMALLOC_IOCSFREEBUFFER, MEMALLOC_IOCHARDRESET} = {}"
  by (simp add: scc_commands_def scc2_commands_def scc_cmd_values scc2_cmd_values rng_cmd_values memalloc_cmd_values)

end
